(* ===== verification/Prelude.thy ===== *)
theory Prelude
  imports Complex_Main "HOL-Library.AList" "HOL-Library.Signed_Division"
begin

text \<open>
  Shared ground of the development: the collections of rewrite rules the component
  proofs use, Go's 64-bit signed integers on \<open>int\<close> with the wrap-around written out,
  and Go maps as association lists without duplicate keys.
\<close>

named_theorems int64_simps \<open>64-bit operations on values in range\<close>
named_theorems float_simps \<open>float64 operations on finite values\<close>
named_theorems float_eval \<open>evaluation of float64 operations on numerals\<close>
named_theorems gomap_simps \<open>lookup after an update of a Go map\<close>

section \<open>Go int64\<close>

type_synonym int64 = int

definition MaxInt64 :: int64 where
  "MaxInt64 = 2 ^ 63 - 1"

definition in64 :: "int \<Rightarrow> bool" where
  "in64 x \<longleftrightarrow> - (2 ^ 63) \<le> x \<and> x < 2 ^ 63"

definition wrap64 :: "int \<Rightarrow> int64" where
  "wrap64 x = (x + 2 ^ 63) mod 2 ^ 64 - 2 ^ 63"

definition add64 :: "int64 \<Rightarrow> int64 \<Rightarrow> int64" where
  "add64 x y = wrap64 (x + y)"

definition sub64 :: "int64 \<Rightarrow> int64 \<Rightarrow> int64" where
  "sub64 x y = wrap64 (x - y)"

definition mul64 :: "int64 \<Rightarrow> int64 \<Rightarrow> int64" where
  "mul64 x y = wrap64 (x * y)"

text \<open>Go's integer division truncates towards zero; every call site divides by a
  value the code has checked to be nonzero.\<close>

definition div64 :: "int64 \<Rightarrow> int64 \<Rightarrow> int64" where
  "div64 x y = wrap64 (x sdiv y)"

definition sum64 :: "int64 list \<Rightarrow> int64" where
  "sum64 xs = foldl add64 0 xs"

lemma in64I: "0 \<le> x \<Longrightarrow> x \<le> MaxInt64 \<Longrightarrow> in64 x"
  by (auto simp: in64_def MaxInt64_def)

lemma wrap64_id [int64_simps]: "in64 x \<Longrightarrow> wrap64 x = x"
  by (simp add: wrap64_def in64_def)

lemma in64_wrap64 [simp]: "in64 (wrap64 x)"
proof -
  have "0 \<le> (x + 2 ^ 63) mod 2 ^ 64" "(x + 2 ^ 63) mod 2 ^ 64 < 2 ^ 64"
    by simp_all
  then show ?thesis by (simp add: in64_def wrap64_def)
qed

lemma wrap64_add_left: "wrap64 (wrap64 x + y) = wrap64 (x + y)"
proof -
  have "wrap64 x + y + 2 ^ 63 = (x + 2 ^ 63) mod 2 ^ 64 + y"
    by (simp add: wrap64_def)
  then have "(wrap64 x + y + 2 ^ 63) mod 2 ^ 64 = (x + 2 ^ 63 + y) mod 2 ^ 64"
    by (simp only: mod_add_left_eq)
  then have "(wrap64 x + y + 2 ^ 63) mod 2 ^ 64 = (x + y + 2 ^ 63) mod 2 ^ 64"
    by (simp only: ac_simps)
  then show ?thesis by (simp only: wrap64_def [of "wrap64 x + y"] wrap64_def [of "x + y"])
qed

lemma add64_id [int64_simps]: "in64 (x + y) \<Longrightarrow> add64 x y = x + y"
  by (simp add: add64_def wrap64_id)

lemma sub64_id [int64_simps]: "in64 (x - y) \<Longrightarrow> sub64 x y = x - y"
  by (simp add: sub64_def wrap64_id)

lemma mul64_id [int64_simps]: "in64 (x * y) \<Longrightarrow> mul64 x y = x * y"
  by (simp add: mul64_def wrap64_id)

lemma sdiv_nonneg: "0 \<le> x \<Longrightarrow> 0 < y \<Longrightarrow> x sdiv y = x div (y :: int)"
  by (cases "x = 0") (simp_all add: signed_divide_int_def)

lemma div_le_dividend_int:
  assumes "0 \<le> x" "0 < y" shows "x div y \<le> (x :: int)"
proof -
  have "x div y \<le> x div 1" using assms by (intro zdiv_mono2) auto
  then show ?thesis by simp
qed

lemma div64_pos [int64_simps]:
  assumes "0 \<le> x" "0 < y" "x < 2 ^ 63"
  shows "div64 x y = x div y"
proof -
  have "0 \<le> x div y" using assms by (simp add: pos_imp_zdiv_nonneg_iff)
  moreover have "x div y \<le> x" using assms by (intro div_le_dividend_int) auto
  ultimately have "in64 (x div y)" using assms by (simp add: in64_def)
  then show ?thesis using assms by (simp add: div64_def sdiv_nonneg wrap64_id)
qed

lemma foldl_add64: "foldl add64 (wrap64 a) xs = wrap64 (a + sum_list xs)"
proof (induction xs arbitrary: a)
  case Nil
  show ?case by simp
next
  case (Cons x xs)
  have "add64 (wrap64 a) x = wrap64 (a + x)"
    by (simp add: add64_def wrap64_add_left)
  with Cons.IH [of "a + x"] show ?case by (simp add: ac_simps)
qed

text \<open>A running 64-bit sum wraps once, at the end.\<close>

lemma sum64_eq: "sum64 xs = wrap64 (sum_list xs)"
  using foldl_add64 [of 0 xs] by (simp add: sum64_def wrap64_id in64_def)

lemma sum64_id [int64_simps]: "in64 (sum_list xs) \<Longrightarrow> sum64 xs = sum_list xs"
  by (simp add: sum64_eq wrap64_id)

lemma sum_list_le_mult:
  "(\<And>x. x \<in> set xs \<Longrightarrow> x \<le> b) \<Longrightarrow> sum_list xs \<le> of_nat (length xs) * (b :: int)"
  by (induction xs) (auto simp: algebra_simps add_mono)

lemma sum_list_nonneg_member:
  fixes xs :: "int list"
  assumes "\<And>x. x \<in> set xs \<Longrightarrow> 0 \<le> x" "x \<in> set xs"
  shows "x \<le> sum_list xs"
  using assms
proof (induction xs)
  case (Cons y ys)
  then have "0 \<le> sum_list ys" by (simp add: sum_list_nonneg)
  moreover have "x \<in> set ys \<Longrightarrow> x \<le> sum_list ys" using Cons by simp
  moreover have "0 \<le> y" using Cons.prems(1) by simp
  ultimately show ?case using Cons.prems(2) by fastforce
qed simp

section \<open>Go maps\<close>

text \<open>
  A Go map is an association list with distinct keys. Iteration order in Go is
  unspecified; the model iterates in list order, and the lemmas about loops over a map
  speak of what does not depend on it.
\<close>

type_synonym ('k, 'v) gomap = "('k \<times> 'v) list"

definition gomap_ok :: "('k, 'v) gomap \<Rightarrow> bool" where
  "gomap_ok m \<longleftrightarrow> distinct (map fst m)"

abbreviation mget :: "('k, 'v) gomap \<Rightarrow> 'k \<Rightarrow> 'v option" where
  "mget m k \<equiv> map_of m k"

abbreviation mput :: "'k \<Rightarrow> 'v \<Rightarrow> ('k, 'v) gomap \<Rightarrow> ('k, 'v) gomap" where
  "mput k v m \<equiv> AList.update k v m"

abbreviation mdel :: "'k \<Rightarrow> ('k, 'v) gomap \<Rightarrow> ('k, 'v) gomap" where
  "mdel k m \<equiv> AList.delete k m"

text \<open>The interface of a map, and what its clients may rely on.\<close>

locale finite_map =
  fixes lookup :: "'m \<Rightarrow> 'k \<Rightarrow> 'v option"
    and put :: "'k \<Rightarrow> 'v \<Rightarrow> 'm \<Rightarrow> 'm"
    and del :: "'k \<Rightarrow> 'm \<Rightarrow> 'm"
    and empty :: 'm
    and ok :: "'m \<Rightarrow> bool"
  assumes lookup_empty: "lookup empty k = None"
    and lookup_put: "lookup (put k v m) k' = (if k' = k then Some v else lookup m k')"
    and lookup_del: "lookup (del k m) k' = (if k' = k then None else lookup m k')"
    and ok_empty: "ok empty"
    and ok_put: "ok m \<Longrightarrow> ok (put k v m)"
    and ok_del: "ok m \<Longrightarrow> ok (del k m)"
begin

lemma lookup_fold_put:
  "lookup (fold (\<lambda>(k, v). put k v) kvs m) k =
     (case map_of (rev kvs) k of None \<Rightarrow> lookup m k | Some v \<Rightarrow> Some v)"
proof (induction kvs arbitrary: m)
  case (Cons kv kvs)
  then show ?case
    by (cases kv) (auto simp: lookup_put map_add_def split: option.splits)
qed simp

lemma ok_fold_put: "ok m \<Longrightarrow> ok (fold (\<lambda>(k, v). put k v) kvs m)"
  by (induction kvs arbitrary: m) (auto simp: ok_put)

lemma put_del_lookup: "lookup (del k (put k v m)) k = None"
  by (simp add: lookup_del)

end

interpretation gm: finite_map "map_of" "AList.update" "AList.delete" "[]" gomap_ok
proof unfold_locales
  show "map_of (AList.update k v m) k' = (if k' = k then Some v else map_of m k')"
    for k v and m :: "('a \<times> 'b) list" and k'
    by (simp add: update_conv')
  show "map_of (AList.delete k m) k' = (if k' = k then None else map_of m k')"
    for k and m :: "('a \<times> 'b) list" and k'
    by (simp add: delete_conv')
  show "gomap_ok m \<Longrightarrow> gomap_ok (AList.update k v m)"
    for k v and m :: "('a \<times> 'b) list"
    by (simp add: gomap_ok_def distinct_update)
  show "gomap_ok m \<Longrightarrow> gomap_ok (AList.delete k m)"
    for k and m :: "('a \<times> 'b) list"
    by (simp add: gomap_ok_def distinct_delete)
qed (simp_all add: gomap_ok_def)

lemmas int64_eval = add64_def sub64_def mul64_def div64_def wrap64_def in64_def signed_divide_int_def

lemmas gomap_rules [gomap_simps] = gm.lookup_put gm.lookup_del

end
