(* ===== verification/Float64.thy ===== *)
theory Float64
  imports Prelude
begin

text \<open>
  Go's \<open>float64\<close>: IEEE 754 binary64 with round-to-nearest, ties to even. A finite value
  is the rational number it denotes; the sign of a zero is not kept, because no
  operation the program performs observes it. The conversions and the functions of
  package \<open>math\<close> that the program calls are here as well. The locale \<open>rounding\<close> is the
  contract the components rely on: rounding is monotone and is the identity on numbers
  of 53 significant bits.
\<close>

section \<open>Rounding\<close>

subsection \<open>The binary exponent of a rational\<close>

function bits :: "int \<Rightarrow> int" where
  "bits n = (if n \<le> 0 then 0 else 1 + bits (n div 2))"
  by pat_completeness auto
termination
  by (relation "measure nat") auto

declare bits.simps [simp del]

lemma bits_le_iff: "bits n \<le> int k \<longleftrightarrow> n < 2 ^ k"
proof (induction k arbitrary: n)
  case 0
  have "0 < n \<Longrightarrow> 0 \<le> bits (n div 2)"
    by (induction n rule: bits.induct) (subst bits.simps, auto simp: bits.simps [of "_ div 2"])
  then show ?case
    by (subst bits.simps) auto
next
  case (Suc k)
  have "n div 2 < 2 ^ k \<longleftrightarrow> n < 2 ^ Suc k" by auto
  moreover have "n \<le> 0 \<Longrightarrow> n < 2 ^ Suc k" by (rule le_less_trans [of _ 0]) simp_all
  ultimately show ?case using Suc [of "n div 2"] by (subst bits.simps) auto
qed

lemma bits_nonneg [simp]: "0 \<le> bits n"
  by (induction n rule: bits.induct) (subst bits.simps, auto)

definition ilog2 :: "rat \<Rightarrow> int" where
  "ilog2 x = (if 1 \<le> x then bits \<lfloor>x\<rfloor> - 1 else - bits (\<lceil>1 / x\<rceil> - 1))"

abbreviation pow2 :: "int \<Rightarrow> rat" where
  "pow2 e \<equiv> 2 powi e"

lemma pow2_pos [simp]: "0 < pow2 e"
  by (simp add: zero_less_power_int)

lemma pow2_le_iff [simp]: "pow2 a \<le> pow2 b \<longleftrightarrow> a \<le> b"
proof
  show "a \<le> b" if "pow2 a \<le> pow2 b"
  proof (rule ccontr)
    assume "\<not> a \<le> b"
    then have "pow2 b < pow2 a" by (intro power_int_strict_increasing) auto
    with that show False by simp
  qed
qed (simp add: power_int_increasing)

lemma pow2_nat: "0 \<le> e \<Longrightarrow> pow2 e = of_int (2 ^ nat e)"
  by (simp add: power_int_def)

lemma ilog2_iff:
  assumes "0 < x"
  shows "pow2 k \<le> x \<longleftrightarrow> k \<le> ilog2 x"
proof (cases "1 \<le> x")
  case True
  show ?thesis
  proof (cases "0 \<le> k")
    case k: True
    have "pow2 k \<le> x \<longleftrightarrow> 2 ^ nat k \<le> \<lfloor>x\<rfloor>"
      by (simp only: pow2_nat [OF k] le_floor_iff)
    also have "\<dots> \<longleftrightarrow> \<not> bits \<lfloor>x\<rfloor> \<le> int (nat k)" by (simp only: bits_le_iff not_less)
    finally show ?thesis using k True by (auto simp: ilog2_def)
  next
    case False
    then have "pow2 k \<le> pow2 0" by (simp del: power_int_0_right)
    moreover have "0 < bits \<lfloor>x\<rfloor>"
      using bits_le_iff [of "\<lfloor>x\<rfloor>" 0] True by (auto simp: not_le [symmetric])
    ultimately show ?thesis using False True by (auto simp: ilog2_def)
  qed
next
  case False
  show ?thesis
  proof (cases "k \<le> 0")
    case k: True
    have "pow2 k = 1 / pow2 (- k)" by (simp add: power_int_minus divide_inverse)
    moreover have "1 / pow2 (- k) \<le> x \<longleftrightarrow> 1 / x \<le> pow2 (- k)"
      using assms pow2_pos [of "- k"] by (simp only: pos_divide_le_eq mult.commute)
    ultimately have "pow2 k \<le> x \<longleftrightarrow> 1 / x \<le> pow2 (- k)" by simp
    also have "\<dots> \<longleftrightarrow> \<lceil>1 / x\<rceil> \<le> 2 ^ nat (- k)"
      using k by (subst pow2_nat) (simp_all only: ceiling_le_iff neg_0_le_iff_le)
    also have "\<dots> \<longleftrightarrow> bits (\<lceil>1 / x\<rceil> - 1) \<le> int (nat (- k))"
      by (simp only: bits_le_iff) auto
    finally show ?thesis using k False by (auto simp: ilog2_def)
  next
    case k: False
    then have "1 \<le> pow2 k" by simp
    moreover have "- bits (\<lceil>1 / x\<rceil> - 1) \<le> 0" by simp
    ultimately have "\<not> pow2 k \<le> x" "\<not> k \<le> - bits (\<lceil>1 / x\<rceil> - 1)" using k False by linarith+
    then show ?thesis using False by (simp add: ilog2_def)
  qed
qed

lemma ilog2_le: "0 < x \<Longrightarrow> pow2 (ilog2 x) \<le> x"
  by (simp add: ilog2_iff)

lemma ilog2_less: "0 < x \<Longrightarrow> x < pow2 (ilog2 x + 1)"
  using ilog2_iff [of x "ilog2 x + 1"] by auto

lemma ilog2_mono: "0 < x \<Longrightarrow> x \<le> y \<Longrightarrow> ilog2 x \<le> ilog2 y"
  using ilog2_iff [of y "ilog2 x"] ilog2_le [of x] by auto

subsection \<open>Round to nearest integer, ties to even\<close>

definition rne :: "rat \<Rightarrow> int" where
  "rne x = (let f = \<lfloor>x\<rfloor>; d = x - of_int f in
     if d < 1 / 2 then f else if 1 / 2 < d then f + 1 else if even f then f else f + 1)"

lemma rne_of_int [simp]: "rne (of_int n) = n"
  by (simp add: rne_def)

lemma rne_floor: "rne x = \<lfloor>x\<rfloor> \<or> rne x = \<lfloor>x\<rfloor> + 1"
  by (simp add: rne_def Let_def)

lemma rne_err: "\<bar>of_int (rne x) - x\<bar> \<le> 1 / 2"
proof -
  have "of_int \<lfloor>x\<rfloor> \<le> x" "x < of_int \<lfloor>x\<rfloor> + 1" by linarith+
  then show ?thesis unfolding rne_def Let_def abs_le_iff by (simp split: if_split) linarith
qed

lemma rne_mono: "x \<le> y \<Longrightarrow> rne x \<le> rne y"
proof -
  assume le: "x \<le> y"
  then have f: "\<lfloor>x\<rfloor> \<le> \<lfloor>y\<rfloor>" by (rule floor_mono)
  show ?thesis
  proof (cases "\<lfloor>x\<rfloor> = \<lfloor>y\<rfloor>")
    case True
    then show ?thesis using le by (auto simp: rne_def Let_def)
  next
    case False
    with f show ?thesis using rne_floor [of x] rne_floor [of y] by auto
  qed
qed

lemma rne_minus: "rne (- x) = - rne x"
proof (cases "x = of_int \<lfloor>x\<rfloor>")
  case True
  then show ?thesis by (metis of_int_minus rne_of_int)
next
  case False
  then have "\<lfloor>- x\<rfloor> = - \<lfloor>x\<rfloor> - 1" by (simp add: floor_minus ceiling_altdef)
  then show ?thesis by (auto simp: rne_def Let_def)
qed

subsection \<open>Binary64 rounding\<close>

definition exponent64 :: "rat \<Rightarrow> int" where
  "exponent64 x = max (ilog2 \<bar>x\<bar> - 52) (- 1074)"

definition rnd64 :: "rat \<Rightarrow> rat" where
  "rnd64 x = (if x = 0 then 0
     else of_int (rne (x / pow2 (exponent64 x))) * pow2 (exponent64 x))"

definition repr64 :: "rat \<Rightarrow> bool" where
  "repr64 x \<longleftrightarrow> (\<exists>m e. x = of_int m * pow2 e \<and> \<bar>m\<bar> \<le> 2 ^ 53 \<and> - 1074 \<le> e)"

lemma rnd64_0 [simp]: "rnd64 0 = 0"
  by (simp add: rnd64_def)

lemma rnd64_minus: "rnd64 (- x) = - rnd64 x"
  by (simp add: rnd64_def exponent64_def rne_minus)

lemma exponent64_minus [simp]: "exponent64 (- x) = exponent64 x"
  by (simp add: exponent64_def)

lemma pow2_divide: "pow2 a / pow2 b = pow2 (a - b)"
  by (simp add: power_int_diff)

lemma rnd64_ge_pow2:
  assumes "exponent64 x \<le> k" "pow2 k \<le> x"
  shows "pow2 k \<le> rnd64 x"
proof -
  let ?e = "exponent64 x"
  have x: "0 < x" using assms(2) pow2_pos [of k] by linarith
  have "pow2 k / pow2 ?e \<le> x / pow2 ?e" using assms(2) by (simp add: divide_right_mono)
  then have "of_int (2 ^ nat (k - ?e)) \<le> x / pow2 ?e"
    using assms(1) by (simp add: pow2_divide pow2_nat)
  then have "2 ^ nat (k - ?e) \<le> rne (x / pow2 ?e)" using rne_mono rne_of_int by metis
  then have "of_int (2 ^ nat (k - ?e)) \<le> (of_int (rne (x / pow2 ?e)) :: rat)"
    by (simp only: of_int_le_iff)
  then have "pow2 (k - ?e) * pow2 ?e \<le> of_int (rne (x / pow2 ?e)) * pow2 ?e"
    using assms(1) by (intro mult_right_mono) (simp_all add: pow2_nat)
  then show ?thesis using x by (simp add: rnd64_def power_int_diff)
qed

lemma rnd64_le_pow2:
  assumes "0 < x" "exponent64 x \<le> k" "x \<le> pow2 k"
  shows "rnd64 x \<le> pow2 k"
proof -
  let ?e = "exponent64 x"
  have "x / pow2 ?e \<le> pow2 k / pow2 ?e" using assms(3) by (simp add: divide_right_mono)
  then have "x / pow2 ?e \<le> of_int (2 ^ nat (k - ?e))"
    using assms(2) by (simp add: pow2_divide pow2_nat)
  then have "rne (x / pow2 ?e) \<le> 2 ^ nat (k - ?e)" using rne_mono rne_of_int by metis
  then have "(of_int (rne (x / pow2 ?e)) :: rat) \<le> of_int (2 ^ nat (k - ?e))"
    by (simp only: of_int_le_iff)
  then have "of_int (rne (x / pow2 ?e)) * pow2 ?e \<le> pow2 (k - ?e) * pow2 ?e"
    using assms(2) by (intro mult_right_mono) (simp_all add: pow2_nat)
  then show ?thesis using assms(1) by (simp add: rnd64_def power_int_diff)
qed

lemma rnd64_nonneg: "0 \<le> x \<Longrightarrow> 0 \<le> rnd64 x"
  using rne_mono [of 0 "x / pow2 (exponent64 x)"] rne_of_int [of 0] by (simp add: rnd64_def)

lemma rnd64_mono_pos:
  assumes "0 < x" "x \<le> y"
  shows "rnd64 x \<le> rnd64 y"
proof -
  have y: "0 < y" using assms by linarith
  have le: "exponent64 x \<le> exponent64 y"
    using ilog2_mono [OF assms] assms y by (simp add: exponent64_def)
  show ?thesis
  proof (cases "exponent64 x = exponent64 y")
    case True
    have "x / pow2 (exponent64 y) \<le> y / pow2 (exponent64 y)"
      using assms(2) by (simp add: divide_right_mono)
    then have "rne (x / pow2 (exponent64 y)) \<le> rne (y / pow2 (exponent64 y))"
      by (rule rne_mono)
    then show ?thesis using assms(1) y True by (simp add: rnd64_def)
  next
    case False
    let ?k = "ilog2 y"
    have ey: "exponent64 y = ?k - 52" using le False y by (auto simp: exponent64_def)
    have "ilog2 x + 1 \<le> ?k" using le False ey assms by (auto simp: exponent64_def)
    then have "pow2 (ilog2 x + 1) \<le> pow2 ?k" by simp
    with ilog2_less [OF assms(1)] have "x \<le> pow2 ?k" by linarith
    then have "rnd64 x \<le> pow2 ?k"
      using assms(1) le ey by (intro rnd64_le_pow2) auto
    also have "pow2 ?k \<le> rnd64 y"
      using ey ilog2_le [OF y] by (intro rnd64_ge_pow2) auto
    finally show ?thesis .
  qed
qed

lemma rnd64_mono: "x \<le> y \<Longrightarrow> rnd64 x \<le> rnd64 y"
proof -
  assume le: "x \<le> y"
  consider "0 < x" | "x \<le> 0" "0 \<le> y" | "y < 0" by linarith
  then show ?thesis
  proof cases
    case 1
    then show ?thesis using le by (rule rnd64_mono_pos)
  next
    case 2
    then show ?thesis
      using rnd64_nonneg [of "- x"] rnd64_nonneg [of y] by (simp add: rnd64_minus)
  next
    case 3
    then show ?thesis using le rnd64_mono_pos [of "- y" "- x"] by (simp add: rnd64_minus)
  qed
qed

lemma rnd64_multiple:
  assumes "x = of_int m * pow2 (exponent64 x)"
  shows "rnd64 x = x"
proof -
  have "x / pow2 (exponent64 x) = of_int m"
    using assms pow2_pos [of "exponent64 x"] by (metis nonzero_mult_div_cancel_right less_irrefl)
  then show ?thesis using assms by (auto simp: rnd64_def)
qed

lemma rnd64_repr:
  assumes "repr64 x"
  shows "rnd64 x = x"
proof (cases "x = 0")
  case False
  obtain m e where x: "x = of_int m * pow2 e" and m: "\<bar>m\<bar> \<le> 2 ^ 53" and e: "- 1074 \<le> e"
    using assms by (auto simp: repr64_def)
  let ?E = "exponent64 x"
  show ?thesis
  proof (cases "?E \<le> e")
    case True
    then have "pow2 e = of_int (2 ^ nat (e - ?E)) * pow2 ?E"
      using pow2_nat [of "e - ?E"] power_int_add [of "2::rat" "e - ?E" ?E] by simp
    then have "x = of_int (m * 2 ^ nat (e - ?E)) * pow2 ?E"
      using x by (metis mult.assoc of_int_mult)
    then show ?thesis by (rule rnd64_multiple)
  next
    case E: False
    then have k: "?E = ilog2 \<bar>x\<bar> - 52" using e by (auto simp: exponent64_def)
    have "pow2 (?E + 52) \<le> \<bar>x\<bar>" using ilog2_le [of "\<bar>x\<bar>"] False k by simp
    also have "\<bar>x\<bar> = of_int \<bar>m\<bar> * pow2 e" by (simp add: x abs_mult)
    finally have "pow2 (?E + 52 - e) \<le> of_int \<bar>m\<bar>"
      by (simp add: power_int_diff pos_divide_le_eq)
    then have ge: "2 ^ nat (?E + 52 - e) \<le> \<bar>m\<bar>"
      using E by (subst (asm) pow2_nat) (simp_all only: of_int_le_iff)
    then have "(2::int) ^ nat (?E + 52 - e) \<le> 2 ^ 53" using m by linarith
    then have "nat (?E + 52 - e) \<le> 53" by (rule power_le_imp_le_exp [rotated]) simp
    then have E1: "?E = e + 1" using E by linarith
    then have "nat (?E + 52 - e) = 53" by simp
    then have "\<bar>m\<bar> = 2 ^ 53" using ge m by simp
    then have "even \<bar>m\<bar>" by simp
    then obtain n where n: "m = 2 * n" by (auto elim: evenE)
    have "pow2 ?E = 2 * pow2 e" using E1 by (simp add: power_int_add)
    then have "x = of_int n * pow2 ?E" using x n by simp
    then show ?thesis by (rule rnd64_multiple)
  qed
qed simp

subsection \<open>Representable numbers\<close>

lemma repr64I: "x = of_int m * pow2 e \<Longrightarrow> \<bar>m\<bar> \<le> 2 ^ 53 \<Longrightarrow> - 1074 \<le> e \<Longrightarrow> repr64 x"
  by (auto simp: repr64_def)

lemma repr64_int: "\<bar>n\<bar> \<le> 2 ^ 53 \<Longrightarrow> repr64 (of_int n)"
  by (rule repr64I [of _ n 0]) auto

lemma repr64_half: "\<bar>n\<bar> \<le> 2 ^ 53 \<Longrightarrow> repr64 (of_int n / 2)"
  by (rule repr64I [of _ n "- 1"]) auto

text \<open>
  What the components rely on. \<open>grid\<close> is the set of numbers rounding leaves alone; the
  locale's lemmas say how far a rounded value can move relative to a point of the grid,
  and that the integer part of a rounded quotient of moderate integers is exact.
\<close>

locale rounding =
  fixes rnd :: "rat \<Rightarrow> rat"
    and grid :: "rat \<Rightarrow> bool"
  assumes mono: "x \<le> y \<Longrightarrow> rnd x \<le> rnd y"
    and exact: "grid x \<Longrightarrow> rnd x = x"
    and grid_dyadic: "\<bar>m\<bar> \<le> 2 ^ 53 \<Longrightarrow> k \<le> 1074 \<Longrightarrow> grid (of_int m / 2 ^ k)"
begin

lemma ge_grid: "grid g \<Longrightarrow> g \<le> x \<Longrightarrow> g \<le> rnd x"
  using mono [of g x] exact by simp

lemma le_grid: "grid g \<Longrightarrow> x \<le> g \<Longrightarrow> rnd x \<le> g"
  using mono [of x g] exact by simp

lemma exact_int: "\<bar>n\<bar> \<le> 2 ^ 53 \<Longrightarrow> rnd (of_int n) = of_int n"
  using grid_dyadic [of n 0] exact by simp

lemma nonneg: "0 \<le> x \<Longrightarrow> 0 \<le> rnd x"
  using ge_grid [of 0 x] grid_dyadic [of 0 0] by simp

text \<open>A grid point strictly above \<open>x\<close> by at least one step of the finer grid
  \<open>2\<close> to the power \<open>- k\<close> stays strictly above after rounding.\<close>

lemma less_dyadic:
  assumes "x + 1 / 2 ^ k \<le> of_int m / 2 ^ k" "\<bar>m\<bar> \<le> 2 ^ 53" "\<bar>m - 1\<bar> \<le> 2 ^ 53" "k \<le> 1074"
  shows "rnd x < of_int m / 2 ^ k"
proof -
  have "x \<le> of_int (m - 1) / 2 ^ k" using assms(1) by (simp add: diff_divide_distrib)
  then have "rnd x \<le> of_int (m - 1) / 2 ^ k"
    using assms(3,4) by (intro le_grid grid_dyadic)
  also have "\<dots> < of_int m / 2 ^ k" by (simp add: divide_strict_right_mono)
  finally show ?thesis .
qed

text \<open>Rounding a quotient of integers with a small divisor never reaches the next
  multiple of one half (\<open>h\<close> counts halves).\<close>

lemma quotient_less_half:
  fixes a b h :: int
  assumes "0 < b" "b \<le> 2 ^ 25" "\<bar>h\<bar> \<le> 2 ^ 26" "of_int a / of_int b < (of_int h / 2 :: rat)"
  shows "rnd (of_int a / of_int b) < of_int h / 2"
proof -
  have "(of_int a :: rat) < of_int h / 2 * of_int b"
    using assms(1,4) by (simp only: pos_divide_less_eq of_int_0_less_iff)
  then have "(of_int (2 * a) :: rat) < of_int (h * b)" by simp
  then have "2 * a < h * b" by (simp only: of_int_less_iff)
  then have "2 * a + 1 \<le> h * b" by simp
  then have "(of_int (2 * a + 1) :: rat) \<le> of_int (h * b)" by (simp only: of_int_le_iff)
  then have "of_int a / of_int b + 1 / (2 * of_int b) \<le> (of_int h / 2 :: rat)"
    using assms(1) by (simp add: field_simps)
  moreover have "(1 / 2 ^ 26 :: rat) \<le> 1 / (2 * of_int b)"
    using assms(1,2) by (simp add: field_simps)
  ultimately have "of_int a / of_int b + 1 / 2 ^ 26 \<le> (of_int (h * 2 ^ 25) / 2 ^ 26 :: rat)"
    by simp
  then have "rnd (of_int a / of_int b) < of_int (h * 2 ^ 25) / 2 ^ 26"
    using assms(3) by (rule_tac less_dyadic) (auto simp: abs_if split: if_splits)
  then show ?thesis by simp
qed

lemma quotient_ge_half:
  fixes a b h :: int
  assumes "\<bar>h\<bar> \<le> 2 ^ 26" "(of_int h / 2 :: rat) \<le> of_int a / of_int b"
  shows "of_int h / 2 \<le> rnd (of_int a / of_int b)"
  using assms grid_dyadic [of h 1] by (intro ge_grid) auto

lemma quotient_mono_strict:
  fixes x y :: rat
  assumes "0 \<le> x" "x + 1 / 2 ^ 39 \<le> y" "y \<le> 2 ^ 10"
  shows "rnd x < rnd y"
proof -
  define m where "m = \<lfloor>x * 2 ^ 40\<rfloor> + 1"
  have x0: "0 \<le> x * 2 ^ 40" using assms(1) by simp
  have m: "x * 2 ^ 40 < of_int m" "of_int m \<le> x * 2 ^ 40 + 1" unfolding m_def by linarith+
  have "x * 2 ^ 40 + 2 \<le> y * 2 ^ 40" using assms(2) by (simp add: field_simps)
  then have y: "of_int (m + 1) \<le> y * 2 ^ 40" using m by simp
  have "of_int (m + 1) \<le> (2 ^ 10 * 2 ^ 40 :: rat)"
    using y assms(3) by (meson mult_right_mono order.trans zero_le_numeral zero_le_power)
  then have "(of_int (m + 1) :: rat) \<le> of_int (2 ^ 50)" by simp
  then have hi: "m + 1 \<le> 2 ^ 50" by (simp only: of_int_le_iff)
  have lo: "0 < m" using x0 by (simp add: m_def add.commute add_pos_nonneg zero_le_floor)
  have g: "grid (of_int m / 2 ^ 40)" "grid (of_int (m + 1) / 2 ^ 40)"
    using hi lo by (intro grid_dyadic; simp)+
  have "rnd x \<le> of_int m / 2 ^ 40" using m by (intro le_grid g) (simp add: field_simps)
  also have "\<dots> < of_int (m + 1) / 2 ^ 40" by (simp add: divide_strict_right_mono)
  also have "\<dots> \<le> rnd y" using y by (intro ge_grid g) (simp add: field_simps)
  finally show ?thesis .
qed

lemma max_commute: "rnd (max x y) = max (rnd x) (rnd y)"
  using mono [of x y] mono [of y x] by (auto simp: max_def antisym)

lemma min_commute: "rnd (min x y) = min (rnd x) (rnd y)"
  using mono [of x y] mono [of y x] by (auto simp: min_def antisym)

lemma floor_quotient:
  fixes a b :: int
  assumes "0 \<le> a" "0 < b" "b \<le> 2 ^ 25" "a div b < 2 ^ 25"
  shows "\<lfloor>rnd (of_int a / of_int b)\<rfloor> = a div b"
proof -
  let ?q = "a div b"
  have q: "0 \<le> ?q" using assms by (simp add: pos_imp_zdiv_nonneg_iff)
  have f: "\<lfloor>of_int a / of_int b :: rat\<rfloor> = ?q" by (simp add: floor_divide_of_int_eq)
  have lo: "of_int (2 * ?q) / 2 \<le> rnd (of_int a / of_int b)"
    using f q assms(4) by (intro quotient_ge_half) (auto simp: le_floor_iff [symmetric])
  have "(of_int a / of_int b :: rat) < of_int ?q + 1"
    using f by (simp only: floor_eq_iff)
  moreover have "(of_int (2 * (?q + 1)) / 2 :: rat) = of_int ?q + 1" by simp
  ultimately have "(of_int a / of_int b :: rat) < of_int (2 * (?q + 1)) / 2" by (simp only:)
  then have "rnd (of_int a / of_int b) < of_int (2 * (?q + 1)) / 2"
    using assms q by (intro quotient_less_half) auto
  then show ?thesis using lo by (simp add: floor_eq_iff)
qed

end

interpretation b64: rounding rnd64 repr64
proof unfold_locales
  show "rnd64 x \<le> rnd64 y" if "x \<le> y" for x y using that by (rule rnd64_mono)
  show "rnd64 x = x" if "repr64 x" for x using that by (rule rnd64_repr)
  show "repr64 (of_int m / 2 ^ k)" if "\<bar>m\<bar> \<le> 2 ^ 53" "k \<le> 1074" for m k
    using that by (intro repr64I [of _ m "- int k"])
      (auto simp: power_int_minus power_int_of_nat divide_inverse)
qed

section \<open>The type float64\<close>

datatype float64 = F rat | PInf | NInf | NaN

definition fnorm :: "rat \<Rightarrow> float64" where
  "fnorm x = (let r = rnd64 x in
     if 2 ^ 1024 \<le> r then PInf else if r \<le> - (2 ^ 1024) then NInf else F r)"

fun fneg :: "float64 \<Rightarrow> float64" where
  "fneg (F x) = F (- x)"
| "fneg PInf = NInf"
| "fneg NInf = PInf"
| "fneg NaN = NaN"

fun fadd :: "float64 \<Rightarrow> float64 \<Rightarrow> float64" where
  "fadd (F x) (F y) = fnorm (x + y)"
| "fadd NaN _ = NaN"
| "fadd _ NaN = NaN"
| "fadd PInf NInf = NaN"
| "fadd NInf PInf = NaN"
| "fadd PInf _ = PInf"
| "fadd _ PInf = PInf"
| "fadd NInf _ = NInf"
| "fadd _ NInf = NInf"

definition fsub :: "float64 \<Rightarrow> float64 \<Rightarrow> float64" where
  "fsub x y = fadd x (fneg y)"

text \<open>The infinity with the sign of a number; \<open>NaN\<close> for zero times infinity.\<close>

definition finf :: "rat \<Rightarrow> float64" where
  "finf s = (if 0 < s then PInf else if s < 0 then NInf else NaN)"

fun fmul :: "float64 \<Rightarrow> float64 \<Rightarrow> float64" where
  "fmul (F x) (F y) = fnorm (x * y)"
| "fmul NaN _ = NaN"
| "fmul _ NaN = NaN"
| "fmul (F x) PInf = finf x"
| "fmul (F x) NInf = finf (- x)"
| "fmul PInf (F y) = finf y"
| "fmul NInf (F y) = finf (- y)"
| "fmul PInf PInf = PInf"
| "fmul NInf NInf = PInf"
| "fmul PInf NInf = NInf"
| "fmul NInf PInf = NInf"

text \<open>Every divisor the program uses is a converted integer or a finite constant, so
  a zero divisor is the positive zero.\<close>

fun fdiv :: "float64 \<Rightarrow> float64 \<Rightarrow> float64" where
  "fdiv (F x) (F y) = (if y = 0 then finf x else fnorm (x / y))"
| "fdiv NaN _ = NaN"
| "fdiv _ NaN = NaN"
| "fdiv (F x) _ = F 0"
| "fdiv PInf (F y) = (if 0 \<le> y then PInf else NInf)"
| "fdiv NInf (F y) = (if 0 \<le> y then NInf else PInf)"
| "fdiv _ _ = NaN"

fun fless :: "float64 \<Rightarrow> float64 \<Rightarrow> bool" where
  "fless (F x) (F y) = (x < y)"
| "fless NaN _ = False"
| "fless _ NaN = False"
| "fless NInf y = (y \<noteq> NInf)"
| "fless x PInf = (x \<noteq> PInf)"
| "fless _ _ = False"

fun fle :: "float64 \<Rightarrow> float64 \<Rightarrow> bool" where
  "fle (F x) (F y) = (x \<le> y)"
| "fle NaN _ = False"
| "fle _ NaN = False"
| "fle NInf _ = True"
| "fle _ PInf = True"
| "fle _ _ = False"

text \<open>Go's \<open>==\<close> on floats: a NaN equals nothing.\<close>

definition feq :: "float64 \<Rightarrow> float64 \<Rightarrow> bool" where
  "feq x y \<longleftrightarrow> x \<noteq> NaN \<and> x = y"

text \<open>\<open>math.Min\<close> and \<open>math.Max\<close>, and the built-in \<open>min\<close> and \<open>max\<close> on floats: a NaN
  argument makes the result NaN.\<close>

definition fmin :: "float64 \<Rightarrow> float64 \<Rightarrow> float64" where
  "fmin x y = (if x = NaN \<or> y = NaN then NaN else if fless y x then y else x)"

definition fmax :: "float64 \<Rightarrow> float64 \<Rightarrow> float64" where
  "fmax x y = (if x = NaN \<or> y = NaN then NaN else if fless x y then y else x)"

fun fabs :: "float64 \<Rightarrow> float64" where
  "fabs (F x) = F \<bar>x\<bar>"
| "fabs PInf = PInf"
| "fabs NInf = PInf"
| "fabs NaN = NaN"

text \<open>\<open>math.Round\<close>: to the nearest integer, halves away from zero.\<close>

definition round_away :: "rat \<Rightarrow> int" where
  "round_away x = (if 0 \<le> x then \<lfloor>x + 1 / 2\<rfloor> else - \<lfloor>- x + 1 / 2\<rfloor>)"

fun fround :: "float64 \<Rightarrow> float64" where
  "fround (F x) = F (of_int (round_away x))"
| "fround PInf = PInf"
| "fround NInf = NInf"
| "fround NaN = NaN"

definition float_of_int :: "int \<Rightarrow> float64" where
  "float_of_int n = fnorm (of_int n)"

text \<open>
  The conversion \<open>int64(f)\<close> truncates towards zero. For a NaN and for values out of
  range Go leaves the result to the implementation; the model takes amd64's, the most
  negative integer.
\<close>

definition trunc :: "rat \<Rightarrow> int" where
  "trunc x = (if 0 \<le> x then \<lfloor>x\<rfloor> else \<lceil>x\<rceil>)"

fun int_of_float :: "float64 \<Rightarrow> int64" where
  "int_of_float (F x) = (if in64 (trunc x) then trunc x else - (2 ^ 63))"
| "int_of_float _ = - (2 ^ 63)"

subsection \<open>Operations on values of moderate size\<close>

lemma two_pow_1024: "(2 ^ 1000 :: rat) < 2 ^ 1024"
  by (rule power_strict_increasing) simp_all

lemma fnorm_F [float_simps]:
  assumes "\<bar>x\<bar> \<le> 2 ^ 1000"
  shows "fnorm x = F (rnd64 x)"
proof -
  have g: "repr64 (2 ^ 1000)" by (rule repr64I [of _ 1 1000]) simp_all
  have "rnd64 x \<le> 2 ^ 1000" using assms g by (intro b64.le_grid) auto
  moreover have "rnd64 (- x) \<le> 2 ^ 1000" using assms g by (intro b64.le_grid) auto
  ultimately show ?thesis
    using two_pow_1024 by (auto simp: fnorm_def Let_def rnd64_minus)
qed

lemma fnorm_small:
  assumes "\<bar>x\<bar> \<le> 2 ^ 130"
  shows "fnorm x = F (rnd64 x)"
proof -
  have "(2 ^ 130 :: rat) \<le> 2 ^ 1000" by (rule power_increasing) simp_all
  then show ?thesis using assms by (intro fnorm_F) linarith
qed

lemma float_of_int_exact [float_simps]:
  assumes "\<bar>n\<bar> \<le> 2 ^ 53"
  shows "float_of_int n = F (of_int n)"
proof -
  have "\<bar>of_int n :: rat\<bar> \<le> of_int (2 ^ 53)" using assms by (metis of_int_abs of_int_le_iff)
  then have "fnorm (of_int n) = F (rnd64 (of_int n))" by (intro fnorm_small) simp
  then show ?thesis using b64.exact_int [OF assms] by (simp add: float_of_int_def)
qed

lemma fmul_ints [float_simps]:
  assumes "\<bar>a\<bar> \<le> 2 ^ 53" "\<bar>b\<bar> \<le> 2 ^ 53" "\<bar>a * b\<bar> \<le> 2 ^ 53"
  shows "fmul (float_of_int a) (float_of_int b) = F (of_int (a * b))"
proof -
  have "fmul (float_of_int a) (float_of_int b) = float_of_int (a * b)"
    using float_of_int_exact [OF assms(1)] float_of_int_exact [OF assms(2)]
    by (simp add: float_of_int_def)
  then show ?thesis using float_of_int_exact [OF assms(3)] by simp
qed

text \<open>A quotient of moderate integers is one rounding of the exact quotient.\<close>

lemma float_quotient:
  assumes "0 \<le> x" "x \<le> 2 ^ 50" "0 < y" "y \<le> 2 ^ 50"
  shows "fdiv (F (of_int x)) (float_of_int y) = F (rnd64 (of_int x / of_int y))"
proof -
  have "of_int x / of_int y \<le> (of_int x / 1 :: rat)"
    using assms by (intro divide_left_mono) auto
  also have "\<dots> \<le> of_int (2 ^ 50)" using assms(2) by (simp only: of_int_le_iff div_by_1)
  also have "(of_int (2 ^ 50) :: rat) \<le> 2 ^ 130" by simp
  finally have "\<bar>of_int x / of_int y :: rat\<bar> \<le> 2 ^ 130" using assms by simp
  then show ?thesis using assms by (simp add: float_of_int_exact fnorm_small)
qed

lemma fmin_F [float_simps]: "fmin (F x) (F y) = F (min x y)"
  by (auto simp: fmin_def)

lemma fmax_F [float_simps]: "fmax (F x) (F y) = F (max x y)"
  by (auto simp: fmax_def)

lemma fmin_PInf [float_simps]: "fmin PInf (F y) = F y"
  by (simp add: fmin_def)

lemma trunc_nonneg: "0 \<le> x \<Longrightarrow> trunc x = \<lfloor>x\<rfloor>"
  by (simp add: trunc_def)

lemma trunc_of_int [simp]: "trunc (of_int n) = n"
  by (simp add: trunc_def)

lemma round_away_of_int [simp]: "round_away (of_int n) = n"
  by (auto simp: round_away_def floor_unique)

lemma round_away_mono: "x \<le> y \<Longrightarrow> round_away x \<le> round_away y"
proof -
  assume le: "x \<le> y"
  consider "0 \<le> x" | "x < 0" "0 \<le> y" | "y < 0" by linarith
  then show ?thesis
  proof cases
    case 1
    then show ?thesis using le by (simp add: round_away_def floor_mono)
  next
    case 2
    then have "0 \<le> \<lfloor>- x + 1 / 2\<rfloor>" "0 \<le> \<lfloor>y + 1 / 2\<rfloor>" by (simp_all add: zero_le_floor)
    then have "- \<lfloor>- x + 1 / 2\<rfloor> \<le> \<lfloor>y + 1 / 2\<rfloor>" by linarith
    then show ?thesis using 2 by (simp add: round_away_def)
  next
    case 3
    then show ?thesis using le by (simp add: round_away_def floor_mono)
  qed
qed

text \<open>Rounding a quotient of moderate integers to an integer is not disturbed by the
  float division before it.\<close>

lemma round_away_quotient:
  fixes a b :: int
  assumes "0 \<le> a" "0 < b" "b \<le> 2 ^ 25" "a \<le> 2 ^ 24 * b"
  shows "round_away (rnd64 (of_int a / of_int b)) = round_away (of_int a / of_int b)"
proof -
  let ?x = "of_int a / of_int b :: rat"
  define k where "k = \<lfloor>?x + 1 / 2\<rfloor>"
  have x0: "0 \<le> ?x" using assms by simp
  have "of_int a \<le> (of_int (2 ^ 24 * b) :: rat)" using assms(4) by (simp only: of_int_le_iff)
  then have x1: "?x \<le> 2 ^ 24" using assms(2) by (simp add: pos_divide_le_eq)
  have k: "of_int k \<le> ?x + 1 / 2" "?x + 1 / 2 < of_int k + 1" unfolding k_def by linarith+
  have k0: "0 \<le> k" using x0 by (simp add: k_def zero_le_floor)
  have "(of_int k :: rat) < of_int (2 ^ 24 + 1)" using k(1) x1 by simp
  then have k1: "k < 2 ^ 24 + 1" by (simp only: of_int_less_iff)
  have e: "(of_int (2 * k - 1) / 2 :: rat) = of_int k - 1 / 2"
      "(of_int (2 * k + 1) / 2 :: rat) = of_int k + 1 / 2"
    by (simp_all add: diff_divide_distrib add_divide_distrib)
  have "of_int (2 * k - 1) / 2 \<le> ?x" "?x < of_int (2 * k + 1) / 2"
    unfolding e using k by linarith+
  then have "of_int (2 * k - 1) / 2 \<le> rnd64 ?x" "rnd64 ?x < of_int (2 * k + 1) / 2"
    using k0 k1 assms by (intro b64.quotient_ge_half b64.quotient_less_half; simp)+
  then have "\<lfloor>rnd64 ?x + 1 / 2\<rfloor> = k" unfolding e floor_eq_iff by linarith
  then show ?thesis using x0 b64.nonneg [OF x0] by (simp add: round_away_def k_def)
qed

lemma round_away_bounds: "x - 1 / 2 \<le> of_int (round_away x)" "of_int (round_away x) \<le> x + 1 / 2"
  unfolding round_away_def by (simp_all, linarith+)

subsection \<open>Evaluation on numerals\<close>

lemma bits_num [float_eval]:
  "bits 0 = 0" "bits 1 = 1"
  "bits (numeral (num.Bit0 k)) = 1 + bits (numeral k)"
  "bits (numeral (num.Bit1 k)) = 1 + bits (numeral k)"
  by (subst bits.simps, simp add: bits.simps [of 0])+

lemma pow2_num [float_eval]: "pow2 (- numeral k) = 1 / 2 ^ numeral k"
  using power_int_minus [of "2::rat" "numeral k"] by (simp add: inverse_eq_divide)

lemma floor_num [float_eval]:
  "\<lfloor>numeral a / numeral b :: rat\<rfloor> = numeral a div numeral b"
  "\<lfloor>1 / numeral b :: rat\<rfloor> = 1 div numeral b"
  "\<lfloor>- (numeral a / numeral b) :: rat\<rfloor> = - numeral a div numeral b"
  "\<lfloor>- (1 / numeral b) :: rat\<rfloor> = - 1 div numeral b"
  using floor_divide_of_int_eq [of "numeral a" "numeral b", where ?'a = rat]
    floor_divide_of_int_eq [of 1 "numeral b", where ?'a = rat]
    floor_divide_of_int_eq [of "- numeral a" "numeral b", where ?'a = rat]
    floor_divide_of_int_eq [of "- 1" "numeral b", where ?'a = rat]
  by simp_all

lemma ceiling_num [float_eval]:
  "\<lceil>numeral a / numeral b :: rat\<rceil> = - (- numeral a div numeral b)"
  "\<lceil>1 / numeral b :: rat\<rceil> = - (- 1 div numeral b)"
  by (simp_all add: ceiling_def floor_num)

lemmas float_defs [float_eval] =
  float_of_int_def fnorm_def rnd64_def exponent64_def ilog2_def rne_def
  round_away_def trunc_def fmin_def fmax_def feq_def finf_def fsub_def

subsection \<open>Rounding errors\<close>

lemma rnd64_err_exponent: "\<bar>rnd64 x - x\<bar> \<le> pow2 (exponent64 x) / 2"
proof (cases "x = 0")
  case False
  let ?e = "exponent64 x"
  have "rnd64 x - x = (of_int (rne (x / pow2 ?e)) - x / pow2 ?e) * pow2 ?e"
    using False by (simp add: rnd64_def left_diff_distrib)
  then have "\<bar>rnd64 x - x\<bar> = \<bar>of_int (rne (x / pow2 ?e)) - x / pow2 ?e\<bar> * pow2 ?e"
    by (simp add: abs_mult)
  also have "\<dots> \<le> 1 / 2 * pow2 ?e" by (intro mult_right_mono rne_err) simp
  finally show ?thesis by simp
qed simp

lemma rnd64_err: "\<bar>rnd64 x - x\<bar> \<le> \<bar>x\<bar> / 2 ^ 53 + 1 / 2 ^ 100"
proof (cases "x = 0")
  case False
  have p: "pow2 (a - int n) = pow2 a / 2 ^ n" for a n by (simp add: power_int_diff)
  have "pow2 (exponent64 x) \<le> pow2 (ilog2 \<bar>x\<bar> - int 52) + pow2 (- 1074)"
    using pow2_pos [of "ilog2 \<bar>x\<bar> - 52"] pow2_pos [of "- 1074"]
    by (auto simp: exponent64_def max_def less_imp_le)
  also have "\<dots> \<le> \<bar>x\<bar> / 2 ^ 52 + pow2 (- 1074)"
    unfolding p using ilog2_le [of "\<bar>x\<bar>"] False by (intro add_right_mono divide_right_mono) auto
  also have "pow2 (- 1074) \<le> pow2 (- 99)" by simp
  also have "pow2 (- 99) = 1 / 2 ^ 99" by (simp add: pow2_num)
  finally have "pow2 (exponent64 x) / 2 \<le> (\<bar>x\<bar> / 2 ^ 52 + 1 / 2 ^ 99) / 2" by simp
  then show ?thesis using rnd64_err_exponent [of x] by (simp add: add_divide_distrib)
qed simp

lemma rnd64_err_at:
  assumes "\<bar>x\<bar> \<le> 2 ^ k"
  shows "\<bar>rnd64 x - x\<bar> \<le> 2 ^ k / 2 ^ 53 + 1 / 2 ^ 100"
proof -
  have "\<bar>x\<bar> / 2 ^ 53 \<le> 2 ^ k / 2 ^ 53" using assms by (intro divide_right_mono) simp_all
  then show ?thesis using rnd64_err [of x] by linarith
qed

lemma of_int_le_rat: "n \<le> 2 ^ k \<Longrightarrow> (of_int n :: rat) \<le> 2 ^ k"
  by (simp only: of_int_le_numeral_power_cancel_iff)

lemma fnorm_moderate: "\<bar>x\<bar> \<le> 2 ^ 100 \<Longrightarrow> fnorm x = F (rnd64 x)"
  using fnorm_small [of x] power_increasing [of 100 130 "2 :: rat"] by linarith

end
