(* ===== verification/Policy.thy ===== *)
theory Policy
  imports Float64
begin

text \<open>
  The policy core, \<open>internal/policy/policy.go\<close>: from a node's allocatable CPU and the
  pods bound to it, one decision per managed pod. Quantities are milli-cores in 64-bit
  integers; the shares are computed in float64, as in the source.
\<close>

section \<open>Data\<close>

record PodInput =
  Key :: string
  RequestMilli :: int64
  BookedDeltaMilli :: int64
  CurrentLimitMilli :: int64
  Managed :: bool
  HoldsShare :: bool
  UserCapMilli :: int64
  LimitRangeCap :: int64
  AboveRequest :: bool

definition capMilli :: "PodInput \<Rightarrow> int64" where
  "capMilli p =
     (if UserCapMilli p \<le> 0 \<or> (LimitRangeCap p > 0 \<and> LimitRangeCap p < UserCapMilli p)
      then LimitRangeCap p else UserCapMilli p)"

record Config =
  MinBurstFloorMilli :: int64
  MaxMultiplier :: float64
  DeadbandGrow :: float64
  DeadbandShrink :: float64
  QuantumMilli :: int64

definition DefaultConfig :: Config where
  "DefaultConfig = \<lparr>MinBurstFloorMilli = 1000, MaxMultiplier = F 10,
     DeadbandGrow = fnorm (1 / 10), DeadbandShrink = fnorm (1 / 20), QuantumMilli = 10\<rparr>"

record Decision =
  DKey :: string
  TargetLimitMilli :: int64
  Apply :: bool
  Reason :: string

record NodeStats =
  AllocatableMilli :: int64
  TotalRequestsMilli :: int64
  ManagedRequestsMilli :: int64
  SlackMilli :: int64
  ManagedPods :: int
  Factor :: float64

section \<open>Operations\<close>

definition clampAndQuantize :: "int64 \<Rightarrow> int64 \<Rightarrow> int64 \<Rightarrow> int64 \<Rightarrow> Config \<Rightarrow> int64" where
  "clampAndQuantize raw req allocatable podCap cfg =
     (let hi = allocatable;
          hi = (if fless (F 0) (MaxMultiplier cfg)
                then min hi (int_of_float (fround (fmul (float_of_int req) (MaxMultiplier cfg))))
                else hi);
          hi = (if podCap > 0 then min hi podCap else hi);
          hi = (if hi < req then req else hi);
          raw = min (max raw req) hi;
          q = QuantumMilli cfg
      in if q \<le> 0 then raw
         else let target = mul64 (div64 (add64 raw (div64 q 2)) q) q;
                  target = (if target > hi then sub64 target q else target)
              in if target < req then req else target)"

definition reasonFor :: "int64 \<Rightarrow> int64 \<Rightarrow> string" where
  "reasonFor target current =
     (if current \<le> 0 then ''set''
      else if target > current then ''grow''
      else if target < current then ''shrink''
      else ''unchanged'')"

definition finalize :: "PodInput \<Rightarrow> int64 \<Rightarrow> string \<Rightarrow> Config \<Rightarrow> Decision" where
  "finalize p target0 reason0 cfg =
     (let lifted = AboveRequest p \<and> target0 \<le> RequestMilli p;
          q = max (QuantumMilli cfg) 1;
          next = mul64 (add64 (div64 (RequestMilli p) q) 1) q;
          target = (if lifted
                    then (if LimitRangeCap p > RequestMilli p then min next (LimitRangeCap p) else next)
                    else target0);
          reason = (if lifted then ''limit=request would make the pod Guaranteed'' else reason0);
          cur = CurrentLimitMilli p
      in if target = cur
         then \<lparr>DKey = Key p, TargetLimitMilli = target, Apply = False, Reason = ''unchanged''\<rparr>
         else if cur \<le> 0
         then \<lparr>DKey = Key p, TargetLimitMilli = target, Apply = True, Reason = reason\<rparr>
         else let band = (if target < cur then DeadbandShrink cfg else DeadbandGrow cfg);
                  frac = fdiv (fabs (float_of_int (sub64 target cur))) (float_of_int cur);
                  app = fle band frac
              in \<lparr>DKey = Key p, TargetLimitMilli = target, Apply = app,
                  Reason = (if app then reason else ''within-deadband'')\<rparr>)"

definition decide :: "PodInput \<Rightarrow> NodeStats \<Rightarrow> Config \<Rightarrow> Decision" where
  "decide p s cfg =
     (let req = RequestMilli p in
      if SlackMilli s \<le> 0 \<or> ManagedRequestsMilli s \<le> 0
      then finalize p (clampAndQuantize req req (AllocatableMilli s) (capMilli p) cfg)
             ''slack<=0: limit=request'' cfg
      else
        let proportional = fdiv (fmul (float_of_int (SlackMilli s)) (float_of_int req))
                             (float_of_int (ManagedRequestsMilli s));
            equalShare = fdiv (float_of_int (SlackMilli s)) (float_of_int (ManagedPods s));
            floor = fmin (float_of_int (MinBurstFloorMilli cfg)) equalShare;
            burst = fmax proportional floor;
            raw = add64 req (int_of_float (fround burst));
            target = clampAndQuantize raw req (AllocatableMilli s) (capMilli p) cfg
        in finalize p target (reasonFor target (CurrentLimitMilli p)) cfg)"

text \<open>The accumulation loop of \<open>Compute\<close>: total request, managed request, managed count.\<close>

fun tally :: "PodInput list \<Rightarrow> int64 \<times> int64 \<times> int \<Rightarrow> int64 \<times> int64 \<times> int" where
  "tally [] acc = acc"
| "tally (p # ps) (totalReq, managedReq, managedCount) =
     (let totalReq = add64 totalReq (add64 (RequestMilli p) (BookedDeltaMilli p))
      in if Managed p \<or> HoldsShare p
         then tally ps (totalReq, add64 managedReq (RequestMilli p), managedCount + 1)
         else tally ps (totalReq, managedReq, managedCount))"

definition Compute :: "int64 \<Rightarrow> PodInput list \<Rightarrow> Config \<Rightarrow> NodeStats \<times> Decision list" where
  "Compute allocatableMilli pods cfg =
     (let (totalReq, managedReq, managedCount) = tally pods (0, 0, 0);
          slack = sub64 allocatableMilli totalReq;
          stats = \<lparr>AllocatableMilli = allocatableMilli, TotalRequestsMilli = totalReq,
                   ManagedRequestsMilli = managedReq, SlackMilli = max slack 0,
                   ManagedPods = managedCount,
                   Factor = (if managedReq > 0 \<and> slack > 0
                             then fadd (F 1) (fdiv (float_of_int slack) (float_of_int managedReq))
                             else F 1)\<rparr>
      in (stats, map (\<lambda>p. decide p stats cfg) (filter Managed pods)))"

definition ComputeNode :: "int64 \<Rightarrow> PodInput list \<Rightarrow> Config \<Rightarrow> Decision list" where
  "ComputeNode allocatableMilli pods cfg = snd (Compute allocatableMilli pods cfg)"

section \<open>Aggregates\<close>

definition holds :: "PodInput \<Rightarrow> bool" where
  "holds p \<longleftrightarrow> Managed p \<or> HoldsShare p"

definition bookedMilli :: "PodInput \<Rightarrow> int" where
  "bookedMilli p = RequestMilli p + BookedDeltaMilli p"

lemma tally_eq:
  "tally ps (wrap64 t, wrap64 m, n) =
     (wrap64 (t + sum_list (map bookedMilli ps)),
      wrap64 (m + sum_list (map RequestMilli (filter holds ps))),
      n + int (length (filter holds ps)))"
proof (induction ps arbitrary: t m n)
  case (Cons p ps)
  have 1: "add64 (wrap64 t) (add64 (RequestMilli p) (BookedDeltaMilli p)) = wrap64 (t + bookedMilli p)"
    unfolding add64_def bookedMilli_def
    by (metis add.commute wrap64_add_left)
  have 2: "add64 (wrap64 m) (RequestMilli p) = wrap64 (m + RequestMilli p)"
    by (simp add: add64_def wrap64_add_left)
  show ?case
    using Cons.IH [of "t + bookedMilli p" "m + RequestMilli p" "n + 1"]
      Cons.IH [of "t + bookedMilli p" m n]
    by (auto simp: 1 2 Let_def holds_def ac_simps)
qed simp

lemma tally_zero:
  "tally ps (0, 0, 0) =
     (wrap64 (sum_list (map bookedMilli ps)),
      wrap64 (sum_list (map RequestMilli (filter holds ps))),
      int (length (filter holds ps)))"
  using tally_eq [of ps 0 0 0] by (simp add: wrap64_id in64_def)

text \<open>The aggregates \<open>Compute\<close> hands to every decision, without its loop.\<close>

definition statsOf :: "int64 \<Rightarrow> PodInput list \<Rightarrow> NodeStats" where
  "statsOf allocatable pods =
     (let totalReq = wrap64 (sum_list (map bookedMilli pods));
          managedReq = wrap64 (sum_list (map RequestMilli (filter holds pods)));
          slack = sub64 allocatable totalReq
      in \<lparr>AllocatableMilli = allocatable, TotalRequestsMilli = totalReq,
          ManagedRequestsMilli = managedReq, SlackMilli = max slack 0,
          ManagedPods = int (length (filter holds pods)),
          Factor = (if managedReq > 0 \<and> slack > 0
                    then fadd (F 1) (fdiv (float_of_int slack) (float_of_int managedReq))
                    else F 1)\<rparr>)"

lemma Compute_eq:
  "Compute a pods cfg = (statsOf a pods, map (\<lambda>p. decide p (statsOf a pods) cfg) (filter Managed pods))"
  by (simp add: Compute_def statsOf_def tally_zero Let_def)

lemma ComputeNode_eq:
  "ComputeNode a pods cfg = map (\<lambda>p. decide p (statsOf a pods) cfg) (filter Managed pods)"
  by (simp add: ComputeNode_def Compute_eq)

section \<open>Clamping and quantization\<close>

text \<open>The ceiling \<open>hi\<close> that \<open>clampAndQuantize\<close> works against.\<close>

definition clampHi :: "int64 \<Rightarrow> int64 \<Rightarrow> int64 \<Rightarrow> Config \<Rightarrow> int64" where
  "clampHi req allocatable podCap cfg =
     (let hi = (if fless (F 0) (MaxMultiplier cfg)
                then min allocatable (int_of_float (fround (fmul (float_of_int req) (MaxMultiplier cfg))))
                else allocatable);
          hi = (if podCap > 0 then min hi podCap else hi)
      in max hi req)"

lemma clampHi_ge: "req \<le> clampHi req a c cfg"
  by (simp add: clampHi_def Let_def)

lemma clampHi_le_alloc: "clampHi req a c cfg \<le> max req a"
  by (auto simp: clampHi_def Let_def)

lemma clampHi_le_cap: "0 < c \<Longrightarrow> clampHi req a c cfg \<le> max req c"
  by (auto simp: clampHi_def Let_def)

lemma clampHi_le_mult:
  "fless (F 0) (MaxMultiplier cfg) \<Longrightarrow>
   clampHi req a c cfg \<le> max req (int_of_float (fround (fmul (float_of_int req) (MaxMultiplier cfg))))"
  by (auto simp: clampHi_def Let_def)

definition quantizeWithin :: "int64 \<Rightarrow> int64 \<Rightarrow> int64 \<Rightarrow> int64 \<Rightarrow> int64" where
  "quantizeWithin r req hi q =
     (if q \<le> 0 then r
      else let t = mul64 (div64 (add64 r (div64 q 2)) q) q;
               t = (if t > hi then sub64 t q else t)
           in if t < req then req else t)"

lemma raise_eq_max: "(if x < y then y else x) = max x (y :: int)"
  by simp

lemma clampAndQuantize_eq:
  "clampAndQuantize raw req a c cfg =
     quantizeWithin (min (max raw req) (clampHi req a c cfg)) req (clampHi req a c cfg) (QuantumMilli cfg)"
  by (simp only: clampAndQuantize_def clampHi_def quantizeWithin_def Let_def raise_eq_max)

lemma quantize_arith:
  assumes "0 \<le> r" "r \<le> 2 ^ 61" "0 < q" "q \<le> 2 ^ 61"
  defines "t \<equiv> ((r + q div 2) div q) * q"
  shows "mul64 (div64 (add64 r (div64 q 2)) q) q = t"
    and "0 \<le> t" and "t \<le> r + q div 2" and "r + q div 2 - q < t" and "sub64 t q = t - q"
proof -
  have h2: "0 \<le> q div 2" "q div 2 \<le> 2 ^ 60" using assms(3,4) by auto
  have h1: "div64 q 2 = q div 2" using assms(3,4) by (intro div64_pos) auto
  have "in64 (r + q div 2)" using assms(1,2) h2 by (simp add: in64_def)
  then have a: "add64 r (div64 q 2) = r + q div 2" by (simp add: h1 add64_id)
  have d: "div64 (r + q div 2) q = (r + q div 2) div q"
    using assms(1-3) h2 by (intro div64_pos) auto
  have t: "t = r + q div 2 - (r + q div 2) mod q"
    by (simp add: t_def minus_mod_eq_div_mult)
  have m: "0 \<le> (r + q div 2) mod q" "(r + q div 2) mod q < q" using assms(3) by simp_all
  show t0: "0 \<le> t" using assms(1,3) h2 by (simp add: t_def pos_imp_zdiv_nonneg_iff)
  show t1: "t \<le> r + q div 2" and t2: "r + q div 2 - q < t" using t m by simp_all
  have i: "in64 t" "in64 (t - q)" using t0 t1 assms(1-4) h2 by (simp_all add: in64_def)
  show "mul64 (div64 (add64 r (div64 q 2)) q) q = t"
    unfolding a d using i(1) by (simp add: t_def mul64_id)
  show "sub64 t q = t - q" using i(2) by (rule sub64_id)
qed

text \<open>Nearest multiple of \<open>q\<close>, stepped back when it passes \<open>hi\<close>.\<close>

definition snap :: "int \<Rightarrow> int \<Rightarrow> int \<Rightarrow> int" where
  "snap r hi q = (let t = ((r + q div 2) div q) * q in if t > hi then t - q else t)"

lemma quantizeWithin_eq:
  assumes "0 \<le> r" "r \<le> 2 ^ 61" "q \<le> 2 ^ 61"
  shows "quantizeWithin r req hi q = (if q \<le> 0 then r else max (snap r hi q) req)"
proof (cases "q \<le> 0")
  case False
  then have "0 < q" by simp
  note a = quantize_arith [OF assms(1,2) this assms(3)]
  show ?thesis unfolding quantizeWithin_def snap_def Let_def a(1) a(5) raise_eq_max by (rule refl)
qed (simp add: quantizeWithin_def)

lemma snap_props:
  assumes "0 \<le> r" "r \<le> 2 ^ 61" "0 < q" "q \<le> 2 ^ 61" "r \<le> hi"
  shows "snap r hi q \<le> hi" "snap r hi q \<le> r + q div 2" "q dvd snap r hi q"
proof -
  define t where "t = ((r + q div 2) div q) * q"
  have "t \<le> r + q div 2" using quantize_arith(3) [OF assms(1-4)] by (simp add: t_def)
  moreover have "q div 2 < q" using assms(3) by simp
  moreover have "snap r hi q = (if t > hi then t - q else t)" by (simp add: snap_def t_def Let_def)
  moreover have "q dvd t" "q dvd t - q" by (simp_all add: t_def)
  ultimately show "snap r hi q \<le> hi" "snap r hi q \<le> r + q div 2" "q dvd snap r hi q"
    using assms(3,5) by auto
qed

lemma snap_mono:
  assumes "0 < q" "r \<le> r'" "hi \<le> hi'"
  shows "snap r hi q \<le> snap r' hi' q"
proof -
  let ?k = "(r + q div 2) div q" and ?k' = "(r' + q div 2) div q"
  have d: "?k \<le> ?k'" using assms by (intro zdiv_mono1) auto
  have "?k * q = ?k' * q \<or> ?k * q \<le> ?k' * q - q"
  proof (cases "?k = ?k'")
    case False
    then have "?k * q \<le> (?k' - 1) * q" using d assms(1) by (intro mult_right_mono) auto
    then show ?thesis by (simp add: left_diff_distrib)
  qed simp
  then show ?thesis using assms d by (auto simp: snap_def Let_def)
qed

lemma quantizeWithin_props:
  assumes "0 \<le> req" "req \<le> r" "r \<le> hi" "r \<le> 2 ^ 61" "q \<le> 2 ^ 61"
  shows "req \<le> quantizeWithin r req hi q" (is ?lo)
    and "quantizeWithin r req hi q \<le> hi" (is ?hi)
    and "0 < q \<Longrightarrow> q dvd quantizeWithin r req hi q \<or> quantizeWithin r req hi q = req" (is "_ \<Longrightarrow> ?grid")
    and "quantizeWithin r req hi q \<le> r + max 0 (q div 2)" (is ?up)
proof -
  have eq: "quantizeWithin r req hi q = (if q \<le> 0 then r else max (snap r hi q) req)"
    using assms by (intro quantizeWithin_eq) auto
  have s: "0 < q \<Longrightarrow> snap r hi q \<le> hi" "0 < q \<Longrightarrow> snap r hi q \<le> r + q div 2"
    "0 < q \<Longrightarrow> q dvd snap r hi q" using snap_props [of r q hi] assms by auto
  show ?lo ?hi unfolding eq using s(1) assms by auto
  show ?up unfolding eq using s(2) assms by auto
  show ?grid if "0 < q" unfolding eq using that s(3) by (simp add: max_def)
qed

lemma quantizeWithin_mono:
  assumes "0 \<le> r" "r \<le> r'" "r' \<le> 2 ^ 61" "q \<le> 2 ^ 61" "req \<le> req'" "hi \<le> hi'"
  shows "quantizeWithin r req hi q \<le> quantizeWithin r' req' hi' q"
proof -
  have "0 < q \<Longrightarrow> snap r hi q \<le> snap r' hi' q" using snap_mono assms by simp
  then show ?thesis using assms by (auto simp: quantizeWithin_eq)
qed

lemma clamp_props:
  assumes "0 \<le> req" "req \<le> 2 ^ 61" "a \<le> 2 ^ 61" "QuantumMilli cfg \<le> 2 ^ 61"
  shows "req \<le> clampAndQuantize raw req a c cfg"
    and "clampAndQuantize raw req a c cfg \<le> clampHi req a c cfg"
    and "0 < QuantumMilli cfg \<Longrightarrow>
         QuantumMilli cfg dvd clampAndQuantize raw req a c cfg \<or> clampAndQuantize raw req a c cfg = req"
    and "clampAndQuantize raw req a c cfg \<le> max raw req + max 0 (QuantumMilli cfg div 2)"
proof -
  let ?hi = "clampHi req a c cfg"
  let ?r = "min (max raw req) ?hi"
  have r: "req \<le> ?r" "?r \<le> ?hi" "?r \<le> 2 ^ 61"
    using clampHi_ge [of req a c cfg] clampHi_le_alloc [of req a c cfg] assms by auto
  note q = quantizeWithin_props [OF assms(1) r assms(4)]
  show "req \<le> clampAndQuantize raw req a c cfg" using q(1) by (simp add: clampAndQuantize_eq)
  show "clampAndQuantize raw req a c cfg \<le> ?hi" using q(2) by (simp add: clampAndQuantize_eq)
  show "0 < QuantumMilli cfg \<Longrightarrow>
      QuantumMilli cfg dvd clampAndQuantize raw req a c cfg \<or> clampAndQuantize raw req a c cfg = req"
    using q(3) by (simp add: clampAndQuantize_eq)
  show "clampAndQuantize raw req a c cfg \<le> max raw req + max 0 (QuantumMilli cfg div 2)"
    unfolding clampAndQuantize_eq by (rule order.trans [OF q(4)]) simp
qed

section \<open>Single decisions\<close>

text \<open>The target after \<open>finalize\<close>'s lift above the request.\<close>

definition liftTarget :: "PodInput \<Rightarrow> int64 \<Rightarrow> Config \<Rightarrow> int64" where
  "liftTarget p t cfg =
     (if AboveRequest p \<and> t \<le> RequestMilli p
      then (let q = max (QuantumMilli cfg) 1;
                next = mul64 (add64 (div64 (RequestMilli p) q) 1) q
            in if LimitRangeCap p > RequestMilli p then min next (LimitRangeCap p) else next)
      else t)"

text \<open>The deadband verdict on a lifted target.\<close>

definition verdict :: "PodInput \<Rightarrow> int64 \<Rightarrow> string \<Rightarrow> Config \<Rightarrow> Decision" where
  "verdict p target reason cfg =
     (let cur = CurrentLimitMilli p in
      if target = cur
      then \<lparr>DKey = Key p, TargetLimitMilli = target, Apply = False, Reason = ''unchanged''\<rparr>
      else if cur \<le> 0
      then \<lparr>DKey = Key p, TargetLimitMilli = target, Apply = True, Reason = reason\<rparr>
      else let band = (if target < cur then DeadbandShrink cfg else DeadbandGrow cfg);
               frac = fdiv (fabs (float_of_int (sub64 target cur))) (float_of_int cur);
               app = fle band frac
           in \<lparr>DKey = Key p, TargetLimitMilli = target, Apply = app,
               Reason = (if app then reason else ''within-deadband'')\<rparr>)"

lemma finalize_eq:
  "finalize p t r cfg = verdict p (liftTarget p t cfg)
     (if AboveRequest p \<and> t \<le> RequestMilli p
      then ''limit=request would make the pod Guaranteed'' else r) cfg"
  by (simp only: finalize_def verdict_def liftTarget_def Let_def)

lemma verdict_fields [simp]:
  "DKey (verdict p t r cfg) = Key p" "TargetLimitMilli (verdict p t r cfg) = t"
  by (simp_all add: verdict_def Let_def)

lemma verdict_unchanged:
  "t = CurrentLimitMilli p \<Longrightarrow> \<not> Apply (verdict p t r cfg) \<and> Reason (verdict p t r cfg) = ''unchanged''"
  by (simp add: verdict_def)

lemma finalize_DKey [simp]: "DKey (finalize p t r cfg) = Key p"
  by (simp add: finalize_eq)

lemma finalize_target: "TargetLimitMilli (finalize p t r cfg) = liftTarget p t cfg"
  by (simp add: finalize_eq)

lemma finalize_unchanged:
  "liftTarget p t cfg = CurrentLimitMilli p \<Longrightarrow>
   \<not> Apply (finalize p t r cfg) \<and> Reason (finalize p t r cfg) = ''unchanged''"
  by (simp add: finalize_eq verdict_unchanged)

lemma liftTarget_above:
  assumes "AboveRequest p" "0 \<le> RequestMilli p" "RequestMilli p \<le> 2 ^ 61" "QuantumMilli cfg \<le> 2 ^ 61"
  shows "RequestMilli p < liftTarget p t cfg"
    and "liftTarget p t cfg \<le> max t (RequestMilli p + max (QuantumMilli cfg) 1)"
    and "RequestMilli p < LimitRangeCap p \<Longrightarrow> t \<le> LimitRangeCap p \<Longrightarrow> liftTarget p t cfg \<le> LimitRangeCap p"
    and "max (QuantumMilli cfg) 1 dvd liftTarget p t cfg \<or> liftTarget p t cfg = t
         \<or> liftTarget p t cfg = LimitRangeCap p"
proof -
  let ?r = "RequestMilli p" and ?q = "max (QuantumMilli cfg) 1"
  let ?n = "(?r div ?q + 1) * ?q"
  have q: "0 < ?q" "?q \<le> 2 ^ 61" using assms(4) by auto
  have d: "div64 ?r ?q = ?r div ?q" using assms q by (intro div64_pos) auto
  have b: "0 \<le> ?r div ?q" "?r div ?q \<le> ?r"
    using assms q by (simp_all add: pos_imp_zdiv_nonneg_iff div_le_dividend_int)
  have m: "?r div ?q * ?q = ?r - ?r mod ?q" by (simp add: minus_mod_eq_div_mult)
  have n: "?r < ?n" "?n \<le> ?r + ?q"
    using m pos_mod_bound [OF q(1), of ?r] pos_mod_sign [OF q(1), of ?r]
    by (simp_all add: distrib_right)
  have i: "in64 (?r div ?q + 1)" "in64 ?n" using b n assms q by (simp_all add: in64_def)
  then have e: "mul64 (add64 (div64 ?r ?q) 1) ?q = ?n"
    by (simp add: d add64_id mul64_id del: max_def)
  have dv: "?q dvd ?n" by simp
  show "?r < liftTarget p t cfg"
    unfolding liftTarget_def Let_def e using n assms(1) by auto
  show "liftTarget p t cfg \<le> max t (?r + ?q)"
    unfolding liftTarget_def Let_def e using n by auto
  show "?r < LimitRangeCap p \<Longrightarrow> t \<le> LimitRangeCap p \<Longrightarrow> liftTarget p t cfg \<le> LimitRangeCap p"
    unfolding liftTarget_def Let_def e by auto
  show "?q dvd liftTarget p t cfg \<or> liftTarget p t cfg = t \<or> liftTarget p t cfg = LimitRangeCap p"
    unfolding liftTarget_def Let_def e using dv by (auto simp: min_def)
qed

text \<open>The burst request before clamping, as \<open>decide\<close> computes it.\<close>

definition rawTarget :: "PodInput \<Rightarrow> NodeStats \<Rightarrow> Config \<Rightarrow> int64" where
  "rawTarget p s cfg =
     (if SlackMilli s \<le> 0 \<or> ManagedRequestsMilli s \<le> 0 then RequestMilli p
      else add64 (RequestMilli p) (int_of_float (fround
        (fmax (fdiv (fmul (float_of_int (SlackMilli s)) (float_of_int (RequestMilli p)))
                    (float_of_int (ManagedRequestsMilli s)))
              (fmin (float_of_int (MinBurstFloorMilli cfg))
                    (fdiv (float_of_int (SlackMilli s)) (float_of_int (ManagedPods s))))))))"

definition clampTarget :: "PodInput \<Rightarrow> NodeStats \<Rightarrow> Config \<Rightarrow> int64" where
  "clampTarget p s cfg =
     clampAndQuantize (rawTarget p s cfg) (RequestMilli p) (AllocatableMilli s) (capMilli p) cfg"

definition decideReason :: "PodInput \<Rightarrow> NodeStats \<Rightarrow> Config \<Rightarrow> string" where
  "decideReason p s cfg =
     (if SlackMilli s \<le> 0 \<or> ManagedRequestsMilli s \<le> 0 then ''slack<=0: limit=request''
      else reasonFor (clampTarget p s cfg) (CurrentLimitMilli p))"

lemma decide_eq: "decide p s cfg = finalize p (clampTarget p s cfg) (decideReason p s cfg) cfg"
  by (simp only: decide_def clampTarget_def rawTarget_def decideReason_def Let_def split: if_split) simp

lemma decide_target: "TargetLimitMilli (decide p s cfg) = liftTarget p (clampTarget p s cfg) cfg"
  by (simp add: decide_eq finalize_target)

text \<open>The target depends neither on the enforced limit nor on how the pod is managed.\<close>

lemma target_frame:
  "clampTarget (p\<lparr>CurrentLimitMilli := c\<rparr>) s cfg = clampTarget p s cfg"
  "liftTarget (p\<lparr>CurrentLimitMilli := c\<rparr>) t cfg = liftTarget p t cfg"
  by (simp_all add: clampTarget_def rawTarget_def capMilli_def liftTarget_def Let_def)

lemma statsOf_fields [simp]: "AllocatableMilli (statsOf a pods) = a"
  by (simp add: statsOf_def Let_def)

lemma statsOf_cong:
  "map bookedMilli pods = map bookedMilli pods' \<Longrightarrow>
   map RequestMilli (filter holds pods) = map RequestMilli (filter holds pods') \<Longrightarrow>
   statsOf a pods = statsOf a pods'"
  unfolding statsOf_def by (metis length_map)

end
