(* ===== verification/PolicyProps.thy ===== *)
theory PolicyProps
  imports Policy
begin

text \<open>
  What the policy guarantees: the shape and the bounds of its decisions, that the float
  arithmetic computes exactly the formula of the design document on nodes of up to
  \<open>2 ^ 24\<close> milli-cores, the deadband, stability under its own decisions, independence of
  which pods are in backoff, monotonicity, and how much CPU a node promises in total.
\<close>

section \<open>The formula of the design document\<close>

definition specBurst :: "int \<Rightarrow> int \<Rightarrow> int \<Rightarrow> int \<Rightarrow> int \<Rightarrow> rat" where
  "specBurst S req M N fl =
     max (of_int (S * req) / of_int M) (min (of_int fl) (of_int S / of_int N))"

definition specSlack :: "int \<Rightarrow> PodInput list \<Rightarrow> int" where
  "specSlack a pods = a - sum_list (map bookedMilli pods)"

definition specManaged :: "PodInput list \<Rightarrow> int" where
  "specManaged pods = sum_list (map RequestMilli (filter holds pods))"

definition specRaw :: "int \<Rightarrow> PodInput list \<Rightarrow> int \<Rightarrow> PodInput \<Rightarrow> int" where
  "specRaw a pods fl p =
     (if specSlack a pods \<le> 0 \<or> specManaged pods \<le> 0 then RequestMilli p
      else RequestMilli p + round_away (specBurst (specSlack a pods) (RequestMilli p)
             (specManaged pods) (int (length (filter holds pods))) fl))"

definition node_ok :: "int \<Rightarrow> PodInput list \<Rightarrow> Config \<Rightarrow> bool" where
  "node_ok a pods cfg \<longleftrightarrow>
     0 \<le> a \<and> a \<le> 2 ^ 24 \<and>
     0 \<le> MinBurstFloorMilli cfg \<and> MinBurstFloorMilli cfg \<le> 2 ^ 24 \<and>
     list_all (\<lambda>p. 0 \<le> RequestMilli p \<and> 0 \<le> bookedMilli p) pods \<and>
     sum_list (map bookedMilli pods) \<le> 2 ^ 61 \<and>
     specManaged pods \<le> 2 ^ 24 \<and> int (length pods) \<le> 2 ^ 24"

lemma node_okD:
  assumes "node_ok a pods cfg"
  shows "0 \<le> a" "a \<le> 2 ^ 24" "0 \<le> MinBurstFloorMilli cfg" "MinBurstFloorMilli cfg \<le> 2 ^ 24"
    "p \<in> set pods \<Longrightarrow> 0 \<le> RequestMilli p" "0 \<le> sum_list (map bookedMilli pods)"
    "sum_list (map bookedMilli pods) \<le> 2 ^ 61" "0 \<le> specManaged pods" "specManaged pods \<le> 2 ^ 24"
    "int (length (filter holds pods)) \<le> 2 ^ 24"
    "p \<in> set pods \<Longrightarrow> holds p \<Longrightarrow> RequestMilli p \<le> specManaged pods"
proof -
  have r: "0 \<le> RequestMilli p \<and> 0 \<le> bookedMilli p" if "p \<in> set pods" for p
    using assms that by (auto simp: node_ok_def list_all_iff)
  show "0 \<le> sum_list (map bookedMilli pods)" "0 \<le> specManaged pods"
    using r by (auto simp: specManaged_def intro!: sum_list_nonneg)
  show "RequestMilli p \<le> specManaged pods" if "p \<in> set pods" "holds p"
    unfolding specManaged_def using r that by (intro sum_list_nonneg_member) auto
  have "int (length (filter holds pods)) \<le> int (length pods)" by simp
  then show "int (length (filter holds pods)) \<le> 2 ^ 24"
    using assms unfolding node_ok_def by linarith
qed (use assms in \<open>auto simp: node_ok_def list_all_iff\<close>)

lemma statsOf_spec:
  assumes "node_ok a pods cfg"
  shows "ManagedRequestsMilli (statsOf a pods) = specManaged pods"
    and "SlackMilli (statsOf a pods) = max (specSlack a pods) 0"
    and "ManagedPods (statsOf a pods) = int (length (filter holds pods))"
    and "specSlack a pods \<le> 2 ^ 24"
proof -
  note ok = node_okD [OF assms]
  have m: "wrap64 (specManaged pods) = specManaged pods"
    using ok(8,9) by (intro wrap64_id) (simp add: in64_def)
  have t: "wrap64 (sum_list (map bookedMilli pods)) = sum_list (map bookedMilli pods)"
    using ok(6,7) by (intro wrap64_id) (simp add: in64_def)
  have s: "sub64 a (sum_list (map bookedMilli pods)) = specSlack a pods"
    using ok(1,2,6,7) by (simp add: specSlack_def sub64_id in64_def)
  show "ManagedRequestsMilli (statsOf a pods) = specManaged pods"
    using m by (simp add: statsOf_def Let_def specManaged_def)
  show "SlackMilli (statsOf a pods) = max (specSlack a pods) 0"
    using s t by (simp add: statsOf_def Let_def)
  show "ManagedPods (statsOf a pods) = int (length (filter holds pods))"
    by (simp add: statsOf_def Let_def)
  show "specSlack a pods \<le> 2 ^ 24" using ok(2,6) by (simp add: specSlack_def)
qed

text \<open>On moderate inputs each float operation of \<open>decide\<close> is a single rounding of an
  exact quotient, and the rounding to whole milli-cores hides it.\<close>

lemma burst_exact:
  assumes "0 < S" "S \<le> 2 ^ 24" "0 \<le> r" "r \<le> M" "0 < M" "M \<le> 2 ^ 24" "0 < N" "N \<le> 2 ^ 24"
    "0 \<le> fl" "fl \<le> 2 ^ 24"
  shows "int_of_float (fround
     (fmax (fdiv (fmul (float_of_int S) (float_of_int r)) (float_of_int M))
           (fmin (float_of_int fl) (fdiv (float_of_int S) (float_of_int N)))))
     = round_away (specBurst S r M N fl)"
    and "0 \<le> round_away (specBurst S r M N fl)" and "round_away (specBurst S r M N fl) \<le> S"
proof -
  let ?p = "of_int (S * r) / of_int M :: rat" and ?e = "of_int S / of_int N :: rat"
  let ?b = "specBurst S r M N fl"
  have Sr: "S * r \<le> 2 ^ 24 * 2 ^ 24" using assms by (intro mult_mono) auto
  have prod: "fmul (float_of_int S) (float_of_int r) = F (of_int (S * r))"
    using assms Sr by (intro fmul_ints) auto
  have p: "fdiv (F (of_int (S * r))) (float_of_int M) = F (rnd64 ?p)"
    using assms Sr by (intro float_quotient) auto
  have e: "fdiv (float_of_int S) (float_of_int N) = F (rnd64 ?e)"
    using assms float_quotient [of S N] by (simp add: float_of_int_exact)
  have fl: "float_of_int fl = F (rnd64 (of_int fl))"
    using assms by (simp add: float_of_int_exact b64.exact_int)
  have b: "fmax (F (rnd64 ?p)) (fmin (F (rnd64 (of_int fl))) (F (rnd64 ?e))) = F (rnd64 ?b)"
    by (simp add: fmin_F fmax_F specBurst_def b64.max_commute b64.min_commute)
  have le: "S * r \<le> 2 ^ 24 * M" using assms by (intro mult_mono) auto
  have cases: "?b = ?p \<or> ?b = of_int fl / of_int 1 \<or> ?b = ?e"
    by (auto simp: specBurst_def max_def min_def)
  have ra: "round_away (rnd64 ?b) = round_away ?b"
    using cases le assms round_away_quotient [of "S * r" M] round_away_quotient [of fl 1]
      round_away_quotient [of S N] by (auto simp: mult_le_cancel_left)
  have "?p \<le> of_int S" using assms by (simp add: pos_divide_le_eq mult_left_mono)
  moreover have "?e \<le> of_int S" using assms by (simp add: pos_divide_le_eq)
  ultimately have "?b \<le> of_int S" by (simp add: specBurst_def)
  then show S: "round_away ?b \<le> S" using round_away_mono [of ?b "of_int S"] by simp
  have "0 \<le> ?b" using assms by (simp add: specBurst_def le_max_iff_disj)
  then show Z: "0 \<le> round_away ?b" using round_away_mono [of "of_int 0" ?b] round_away_of_int [of 0] by simp
  have "in64 (round_away ?b)" using S Z assms by (simp add: in64_def)
  then show "int_of_float (fround
     (fmax (fdiv (fmul (float_of_int S) (float_of_int r)) (float_of_int M))
           (fmin (float_of_int fl) (fdiv (float_of_int S) (float_of_int N))))) = round_away ?b"
    unfolding prod p e fl b by (simp add: ra)
qed

lemma rawTarget_spec:
  assumes ok: "node_ok a pods cfg" and p: "p \<in> set pods" "holds p"
  shows "rawTarget p (statsOf a pods) cfg = specRaw a pods (MinBurstFloorMilli cfg) p"
    and "RequestMilli p \<le> specRaw a pods (MinBurstFloorMilli cfg) p"
    and "specRaw a pods (MinBurstFloorMilli cfg) p \<le> RequestMilli p + max 0 (specSlack a pods)"
proof -
  note k = node_okD [OF ok] and st = statsOf_spec [OF ok]
  let ?S = "specSlack a pods" and ?M = "specManaged pods" and ?N = "int (length (filter holds pods))"
  let ?fl = "MinBurstFloorMilli cfg" and ?r = "RequestMilli p"
  have r: "0 \<le> ?r" "?r \<le> ?M" using k(5,11) p by auto
  have N: "0 < ?N" using p by (auto simp: filter_empty_conv)
  have all: "rawTarget p (statsOf a pods) cfg = specRaw a pods ?fl p \<and>
      ?r \<le> specRaw a pods ?fl p \<and> specRaw a pods ?fl p \<le> ?r + max 0 ?S"
  proof (cases "?S \<le> 0 \<or> ?M \<le> 0")
    case True
    then show ?thesis by (auto simp: rawTarget_def specRaw_def st(1,2))
  next
    case False
    then have pos: "0 < ?S" "0 < ?M" by auto
    note b = burst_exact [OF pos(1) st(4) r pos(2) k(9) N k(10) k(3,4)]
    have "in64 (?r + round_away (specBurst ?S ?r ?M ?N ?fl))"
      using b(2,3) r k(9) st(4) by (simp add: in64_def)
    then show ?thesis
      using b False pos unfolding rawTarget_def specRaw_def st(1-3)
      by (simp add: add64_id)
  qed
  then show "rawTarget p (statsOf a pods) cfg = specRaw a pods ?fl p"
    "?r \<le> specRaw a pods ?fl p" "specRaw a pods ?fl p \<le> ?r + max 0 ?S" by auto
qed

text \<open>Comparing a rounded percentage with a rounded quotient is comparing integers.\<close>

lemma percent_compare:
  fixes pct d c :: int
  assumes "0 \<le> pct" "pct \<le> 100" "0 \<le> d" "0 < c" "c \<le> 2 ^ 30"
  shows "rnd64 (of_int pct / of_int 100) \<le> rnd64 (of_int d / of_int c) \<longleftrightarrow> pct * c \<le> 100 * d"
proof -
  show ?thesis
  proof (cases "pct * c \<le> 100 * d")
    case True
    then have "(of_int (pct * c) :: rat) \<le> of_int (100 * d)" by (simp only: of_int_le_iff)
    then have "(of_int pct / of_int 100 :: rat) \<le> of_int d / of_int c"
      using assms(4) by (simp add: field_simps)
    then show ?thesis using True b64.mono by blast
  next
    case False
    then have "100 * d + 1 \<le> pct * c" by simp
    then have "(of_int (100 * d + 1) :: rat) \<le> of_int (pct * c)" by (simp only: of_int_le_iff)
    then have "of_int d / of_int c + 1 / (100 * of_int c) \<le> (of_int pct / of_int 100 :: rat)"
      using assms(4) by (simp add: field_simps)
    moreover have "(1 / 2 ^ 39 :: rat) \<le> 1 / (100 * of_int c)"
      using assms(4,5) by (intro divide_left_mono) auto
    ultimately have "of_int d / of_int c + 1 / 2 ^ 39 \<le> (of_int pct / of_int 100 :: rat)"
      by linarith
    then have "rnd64 (of_int d / of_int c) < rnd64 (of_int pct / of_int 100)"
      using assms by (intro b64.quotient_mono_strict) auto
    then show ?thesis using False by simp
  qed
qed

section \<open>Properties\<close>

text \<open>One decision per managed pod, in input order: the keys of the decisions are the
  keys of the managed pods.\<close>

theorem compute_one_decision_per_managed_pod:
  "map DKey (ComputeNode a pods cfg) = map Key (filter Managed pods)"
  by (simp add: ComputeNode_eq decide_eq)

text \<open>C1. On a node of at most \<open>2 ^ 24\<close> milli-cores the targets are exactly those of the
  design document's formula \<open>request + max (S * request / M) (min floor (S / N))\<close>,
  computed over the rationals and rounded to whole milli-cores, then clamped, quantized
  and lifted: the float64 arithmetic never shows.\<close>

theorem compute_refines_design_formula:
  assumes "node_ok a pods cfg"
  shows "map TargetLimitMilli (ComputeNode a pods cfg) =
    map (\<lambda>p. liftTarget p (clampAndQuantize (specRaw a pods (MinBurstFloorMilli cfg) p)
                 (RequestMilli p) a (capMilli p) cfg) cfg) (filter Managed pods)"
  using rawTarget_spec(1) [OF assms]
  by (auto simp: ComputeNode_eq decide_target clampTarget_def holds_def)

definition podA :: PodInput where
  "podA = \<lparr>Key = ''ns/a'', RequestMilli = 500, BookedDeltaMilli = 0, CurrentLimitMilli = 0,
     Managed = True, HoldsShare = False, UserCapMilli = 0, LimitRangeCap = 0, AboveRequest = False\<rparr>"

definition podB :: PodInput where
  "podB = podA\<lparr>Key := ''ns/b'', RequestMilli := 1505, UserCapMilli := 4000, CurrentLimitMilli := 2000\<rparr>"

definition podC :: PodInput where
  "podC = podA\<lparr>Key := ''ns/c'', RequestMilli := 6000, BookedDeltaMilli := 100, AboveRequest := True,
     LimitRangeCap := 6004\<rparr>"

lemmas sample_pods = podA_def podB_def podC_def

lemma node_ok_sample: "node_ok 16000 [podA, podB, podC] DefaultConfig"
  by (simp add: node_ok_def sample_pods DefaultConfig_def bookedMilli_def specManaged_def holds_def)

theorem compute_refines_design_formula_witness:
  "map TargetLimitMilli (ComputeNode 16000 [podA, podB, podC] DefaultConfig) =
    map (\<lambda>p. liftTarget p (clampAndQuantize (specRaw 16000 [podA, podB, podC] 1000 p)
                 (RequestMilli p) 16000 (capMilli p) DefaultConfig) DefaultConfig)
      [podA, podB, podC]"
  using compute_refines_design_formula [OF node_ok_sample]
  by (simp add: sample_pods DefaultConfig_def)

lemma zip_ComputeNode:
  "zip (filter Managed pods) (ComputeNode a pods cfg) =
     map (\<lambda>p. (p, decide p (statsOf a pods) cfg)) (filter Managed pods)"
  by (simp add: ComputeNode_eq zip_map2 zip_same_conv_map)

lemma decision_of:
  "(p, d) \<in> set (zip (filter Managed pods) (ComputeNode a pods cfg)) \<Longrightarrow>
   p \<in> set pods \<and> Managed p \<and> TargetLimitMilli d = liftTarget p (clampTarget p (statsOf a pods) cfg) cfg"
  by (auto simp: zip_ComputeNode decide_target)

lemma decision_member:
  "p \<in> set pods \<Longrightarrow> Managed p \<Longrightarrow>
   (p, decide p (statsOf a pods) cfg) \<in> set (zip (filter Managed pods) (ComputeNode a pods cfg))"
  by (auto simp: zip_ComputeNode)

lemma capMilli_le:
  "0 < UserCapMilli p \<Longrightarrow> capMilli p \<le> UserCapMilli p \<and> 0 < capMilli p"
  "0 < LimitRangeCap p \<Longrightarrow> capMilli p \<le> LimitRangeCap p \<and> 0 < capMilli p"
  by (auto simp: capMilli_def)

lemma clampTarget_bounds:
  fixes pods :: "PodInput list"
  assumes "0 \<le> RequestMilli p" "RequestMilli p \<le> 2 ^ 61" "a \<le> 2 ^ 61" "QuantumMilli cfg \<le> 2 ^ 61"
  defines "t \<equiv> clampTarget p (statsOf a pods) cfg"
  shows "RequestMilli p \<le> t" "t \<le> max (RequestMilli p) a"
    "0 < UserCapMilli p \<Longrightarrow> t \<le> max (RequestMilli p) (UserCapMilli p)"
    "0 < LimitRangeCap p \<Longrightarrow> t \<le> max (RequestMilli p) (LimitRangeCap p)"
    "fless (F 0) (MaxMultiplier cfg) \<Longrightarrow> t \<le> max (RequestMilli p)
       (int_of_float (fround (fmul (float_of_int (RequestMilli p)) (MaxMultiplier cfg))))"
    "0 < QuantumMilli cfg \<Longrightarrow> QuantumMilli cfg dvd t \<or> t = RequestMilli p"
proof -
  let ?r = "RequestMilli p" and ?c = "capMilli p"
  note cl = clamp_props [OF assms(1-4), of "rawTarget p (statsOf a pods) cfg" ?c]
  have t: "?r \<le> t" "t \<le> clampHi ?r a ?c cfg" using cl by (simp_all add: t_def clampTarget_def)
  show "?r \<le> t" by fact
  show "t \<le> max ?r a" using t clampHi_le_alloc order.trans by blast
  show "0 < UserCapMilli p \<Longrightarrow> t \<le> max ?r (UserCapMilli p)"
    using t clampHi_le_cap [of ?c ?r a cfg] capMilli_le(1) [of p] by auto
  show "0 < LimitRangeCap p \<Longrightarrow> t \<le> max ?r (LimitRangeCap p)"
    using t clampHi_le_cap [of ?c ?r a cfg] capMilli_le(2) [of p] by auto
  show "fless (F 0) (MaxMultiplier cfg) \<Longrightarrow>
      t \<le> max ?r (int_of_float (fround (fmul (float_of_int ?r) (MaxMultiplier cfg))))"
    using t clampHi_le_mult order.trans by blast
  show "0 < QuantumMilli cfg \<Longrightarrow> QuantumMilli cfg dvd t \<or> t = ?r"
    using cl(3) by (simp add: t_def clampTarget_def)
qed

text \<open>The least bound a pod's caps leave: its request, and one quantum more for a pod that
  has to stay strictly above its request.\<close>

definition liftRoom :: "PodInput \<Rightarrow> Config \<Rightarrow> int" where
  "liftRoom p cfg = RequestMilli p + (if AboveRequest p then max (QuantumMilli cfg) 1 else 0)"

lemma liftTarget_bounds:
  assumes "0 \<le> RequestMilli p" "RequestMilli p \<le> 2 ^ 61" "QuantumMilli cfg \<le> 2 ^ 61" "RequestMilli p \<le> t"
  shows "RequestMilli p \<le> liftTarget p t cfg"
    "AboveRequest p \<Longrightarrow> RequestMilli p < liftTarget p t cfg"
    "t \<le> max (RequestMilli p) c \<Longrightarrow> liftTarget p t cfg \<le> max (liftRoom p cfg) c"
    "RequestMilli p < LimitRangeCap p \<Longrightarrow> t \<le> LimitRangeCap p \<Longrightarrow> liftTarget p t cfg \<le> LimitRangeCap p"
proof -
  have "AboveRequest p \<Longrightarrow> RequestMilli p < liftTarget p t cfg \<and>
      liftTarget p t cfg \<le> max t (liftRoom p cfg) \<and>
      (RequestMilli p < LimitRangeCap p \<longrightarrow> t \<le> LimitRangeCap p \<longrightarrow> liftTarget p t cfg \<le> LimitRangeCap p)"
    using liftTarget_above(1-3) [OF _ assms(1-3), of t] by (simp add: liftRoom_def)
  moreover have "\<not> AboveRequest p \<Longrightarrow> liftTarget p t cfg = t \<and> liftRoom p cfg = RequestMilli p"
    by (simp add: liftTarget_def liftRoom_def)
  moreover have "RequestMilli p \<le> liftRoom p cfg" unfolding liftRoom_def by auto
  ultimately show "RequestMilli p \<le> liftTarget p t cfg"
    "AboveRequest p \<Longrightarrow> RequestMilli p < liftTarget p t cfg"
    "t \<le> max (RequestMilli p) c \<Longrightarrow> liftTarget p t cfg \<le> max (liftRoom p cfg) c"
    "RequestMilli p < LimitRangeCap p \<Longrightarrow> t \<le> LimitRangeCap p \<Longrightarrow> liftTarget p t cfg \<le> LimitRangeCap p"
    using assms(4) by (cases "AboveRequest p"; auto)+
qed

text \<open>C6. The caps, for every managed pod: its target is at most the node's allocatable CPU,
  the pod's own cap and request times \<open>maxMultiplier\<close>, except that no cap pushes it below
  its request and that a pod which has to stay above its request may exceed a cap that leaves
  it no room, by at most one quantum above the request. A LimitRange cap above the request is
  never exceeded, by a lifted pod neither.\<close>

theorem target_within_caps:
  assumes "(p, d) \<in> set (zip (filter Managed pods) (ComputeNode a pods cfg))"
    and "0 \<le> RequestMilli p" "RequestMilli p \<le> 2 ^ 61" "a \<le> 2 ^ 61" "QuantumMilli cfg \<le> 2 ^ 61"
  shows "TargetLimitMilli d \<le> max (liftRoom p cfg) a \<and>
    (UserCapMilli p > 0 \<longrightarrow> TargetLimitMilli d \<le> max (liftRoom p cfg) (UserCapMilli p)) \<and>
    (LimitRangeCap p > RequestMilli p \<longrightarrow> TargetLimitMilli d \<le> LimitRangeCap p) \<and>
    (LimitRangeCap p > 0 \<longrightarrow> TargetLimitMilli d \<le> max (liftRoom p cfg) (LimitRangeCap p)) \<and>
    (fless (F 0) (MaxMultiplier cfg) \<longrightarrow> TargetLimitMilli d \<le> max (liftRoom p cfg)
       (int_of_float (fround (fmul (float_of_int (RequestMilli p)) (MaxMultiplier cfg)))))"
proof -
  note b = clampTarget_bounds [OF assms(2-5), of pods]
  note l = liftTarget_bounds(3,4) [OF assms(2,3,5) b(1)]
  have "RequestMilli p < LimitRangeCap p \<Longrightarrow> clampTarget p (statsOf a pods) cfg \<le> LimitRangeCap p"
    using b(4) assms(2) by simp
  then show ?thesis using decision_of [OF assms(1)] l b(2-5) by simp
qed

lemma sample_decision:
  "(podB, decide podB (statsOf 16000 [podA, podB, podC]) DefaultConfig) \<in>
     set (zip (filter Managed [podA, podB, podC]) (ComputeNode 16000 [podA, podB, podC] DefaultConfig))"
  "(podC, decide podC (statsOf 16000 [podA, podB, podC]) DefaultConfig) \<in>
     set (zip (filter Managed [podA, podB, podC]) (ComputeNode 16000 [podA, podB, podC] DefaultConfig))"
  by (rule decision_member, simp, simp add: sample_pods)+

theorem target_within_caps_witness:
  "TargetLimitMilli (decide podB (statsOf 16000 [podA, podB, podC]) DefaultConfig) \<le> 4000"
  using target_within_caps [OF sample_decision(1)]
  by (simp add: sample_pods DefaultConfig_def liftRoom_def)

text \<open>C7. The floor, for every managed pod: its target is never below its request. A pod that
  would become Guaranteed at its request gets a limit strictly above the request, at most its
  LimitRange cap whenever that cap leaves any room, and at most one quantum above the request
  where the node has no more.\<close>

theorem target_above_request:
  assumes "(p, d) \<in> set (zip (filter Managed pods) (ComputeNode a pods cfg))"
    and "0 \<le> RequestMilli p" "RequestMilli p \<le> 2 ^ 61" "a \<le> 2 ^ 61" "QuantumMilli cfg \<le> 2 ^ 61"
  shows "RequestMilli p \<le> TargetLimitMilli d \<and>
    (AboveRequest p \<longrightarrow> RequestMilli p < TargetLimitMilli d \<and>
      (RequestMilli p < LimitRangeCap p \<longrightarrow> TargetLimitMilli d \<le> LimitRangeCap p) \<and>
      TargetLimitMilli d \<le> max a (RequestMilli p + max (QuantumMilli cfg) 1))"
proof -
  note b = clampTarget_bounds [OF assms(2-5), of pods]
  note l = liftTarget_bounds [OF assms(2,3,5) b(1)]
  have "RequestMilli p < LimitRangeCap p \<Longrightarrow> clampTarget p (statsOf a pods) cfg \<le> LimitRangeCap p"
    using b(4) assms(2) by simp
  then show ?thesis using decision_of [OF assms(1)] l(1,2,4) l(3) [OF b(2)]
    by (auto simp: liftRoom_def)
qed

theorem target_above_request_witness:
  "6000 < TargetLimitMilli (decide podC (statsOf 16000 [podA, podB, podC]) DefaultConfig) \<and>
   TargetLimitMilli (decide podC (statsOf 16000 [podA, podB, podC]) DefaultConfig) \<le> 6004"
  using target_above_request [OF sample_decision(2)] by (simp add: sample_pods DefaultConfig_def)

text \<open>Every target is a multiple of the quantum, or the request itself, or the
  LimitRange cap of a lifted pod.\<close>

theorem target_on_grid:
  assumes "(p, d) \<in> set (zip (filter Managed pods) (ComputeNode a pods cfg))"
    and "0 < QuantumMilli cfg" "QuantumMilli cfg \<le> 2 ^ 61"
    and "0 \<le> RequestMilli p" "RequestMilli p \<le> 2 ^ 61" "a \<le> 2 ^ 61"
  shows "QuantumMilli cfg dvd TargetLimitMilli d \<or> TargetLimitMilli d = RequestMilli p \<or>
    (AboveRequest p \<and> TargetLimitMilli d = LimitRangeCap p)"
proof -
  let ?t = "clampTarget p (statsOf a pods) cfg"
  have g: "QuantumMilli cfg dvd ?t \<or> ?t = RequestMilli p"
    using clampTarget_bounds(6) assms by simp
  have m: "max (QuantumMilli cfg) 1 = QuantumMilli cfg" using assms(2) by simp
  show ?thesis
  proof (cases "AboveRequest p")
    case True
    then show ?thesis
      using liftTarget_above(4) [of p cfg ?t] assms g decision_of [OF assms(1)] unfolding m by auto
  next
    case False
    then show ?thesis using g decision_of [OF assms(1)] by (simp add: liftTarget_def)
  qed
qed

theorem target_on_grid_witness:
  "10 dvd TargetLimitMilli (decide podB (statsOf 16000 [podA, podB, podC]) DefaultConfig) \<or>
   TargetLimitMilli (decide podB (statsOf 16000 [podA, podB, podC]) DefaultConfig) = 1505"
  using target_on_grid [OF sample_decision(1)] by (simp add: sample_pods DefaultConfig_def)

text \<open>C35. On a node whose pods book all of its CPU, every managed pod's target is its
  request, up to rounding to the quantum and the lift above the request.\<close>

theorem overcommitted_node_collapses:
  assumes "(p, d) \<in> set (zip (filter Managed pods) (ComputeNode a pods cfg))"
    and "in64 (sum_list (map bookedMilli pods))" "in64 (a - sum_list (map bookedMilli pods))"
    and "a \<le> sum_list (map bookedMilli pods)"
    and "0 \<le> RequestMilli p" "RequestMilli p \<le> 2 ^ 61" "a \<le> 2 ^ 61" "QuantumMilli cfg \<le> 2 ^ 61"
  shows "RequestMilli p \<le> TargetLimitMilli d \<and>
    TargetLimitMilli d \<le> RequestMilli p +
      (if AboveRequest p then max (QuantumMilli cfg) 1 else max 0 (QuantumMilli cfg div 2))"
proof -
  let ?s = "statsOf a pods" and ?r = "RequestMilli p" and ?q = "QuantumMilli cfg"
  let ?t = "clampTarget p ?s cfg"
  have "SlackMilli ?s \<le> 0"
    using assms(2-4) by (simp add: statsOf_def Let_def wrap64_id sub64_id)
  then have "rawTarget p ?s cfg = ?r" by (simp add: rawTarget_def)
  then have t: "?r \<le> ?t" "?t \<le> ?r + max 0 (?q div 2)"
    using clamp_props [OF assms(5-8), of ?r "capMilli p"] by (simp_all add: clampTarget_def)
  show ?thesis
  proof (cases "AboveRequest p")
    case True
    have "?r + max 0 (?q div 2) \<le> ?r + max ?q 1" by auto
    with True show ?thesis
      using liftTarget_above(1,2) [OF True assms(5,6,8), of ?t] t decision_of [OF assms(1)] by auto
  next
    case False
    then show ?thesis using t decision_of [OF assms(1)] by (simp add: liftTarget_def)
  qed
qed

theorem overcommitted_node_collapses_witness:
  "TargetLimitMilli (decide podB (statsOf 8000 [podA, podB, podC]) DefaultConfig) \<le> 1510"
proof -
  have "(podB, decide podB (statsOf 8000 [podA, podB, podC]) DefaultConfig) \<in>
      set (zip (filter Managed [podA, podB, podC]) (ComputeNode 8000 [podA, podB, podC] DefaultConfig))"
    by (rule decision_member, simp, simp add: sample_pods)
  from overcommitted_node_collapses [OF this] show ?thesis
    by (simp add: sample_pods DefaultConfig_def bookedMilli_def in64_def)
qed

text \<open>C31. The deadband: with thresholds given in whole percents, as the HeadroomConfig
  gives them, a change of an enforced limit is applied exactly when it is at least that
  percentage of the limit. The integer comparison decides; no float noise at the boundary.\<close>

theorem deadband_is_exact:
  assumes "DeadbandGrow cfg = fdiv (float_of_int grow) (F 100)" "0 \<le> grow" "grow \<le> 100"
    and "DeadbandShrink cfg = fdiv (float_of_int shrink) (F 100)" "0 \<le> shrink" "shrink \<le> 100"
    and "0 < CurrentLimitMilli p" "CurrentLimitMilli p \<le> 2 ^ 30"
    and "0 \<le> TargetLimitMilli (decide p s cfg)" "TargetLimitMilli (decide p s cfg) \<le> 2 ^ 30"
  shows "Apply (decide p s cfg) \<longleftrightarrow>
    TargetLimitMilli (decide p s cfg) \<noteq> CurrentLimitMilli p \<and>
    (if TargetLimitMilli (decide p s cfg) < CurrentLimitMilli p then shrink else grow) * CurrentLimitMilli p
      \<le> 100 * \<bar>TargetLimitMilli (decide p s cfg) - CurrentLimitMilli p\<bar>"
proof -
  let ?t = "TargetLimitMilli (decide p s cfg)" and ?c = "CurrentLimitMilli p"
  define pct where "pct = (if ?t < ?c then shrink else grow)"
  define band where "band = (if ?t < ?c then DeadbandShrink cfg else DeadbandGrow cfg)"
  have pct: "0 \<le> pct" "pct \<le> 100" using assms by (simp_all add: pct_def)
  have "band = fdiv (float_of_int pct) (F 100)"
    by (simp add: band_def pct_def assms(1,4))
  then have b: "band = F (rnd64 (of_int pct / of_int 100))"
    using pct float_quotient [of pct 100] by (simp add: float_of_int_exact)
  have sub: "sub64 ?t ?c = ?t - ?c" using assms by (intro sub64_id) (simp add: in64_def)
  have f: "fdiv (fabs (float_of_int (sub64 ?t ?c))) (float_of_int ?c)
      = F (rnd64 (of_int \<bar>?t - ?c\<bar> / of_int ?c))"
    using assms float_quotient [of "\<bar>?t - ?c\<bar>" ?c] unfolding sub
    by (simp add: float_of_int_exact)
  have cmp: "rnd64 (of_int pct / of_int 100) \<le> rnd64 (of_int \<bar>?t - ?c\<bar> / of_int ?c)
      \<longleftrightarrow> pct * ?c \<le> 100 * \<bar>?t - ?c\<bar>"
    using pct assms by (intro percent_compare) auto
  have "Apply (decide p s cfg) \<longleftrightarrow> ?t \<noteq> ?c \<and>
      fle band (fdiv (fabs (float_of_int (sub64 ?t ?c))) (float_of_int ?c))"
    using assms(7) unfolding decide_target decide_eq finalize_eq band_def
    by (simp add: verdict_def Let_def)
  then show ?thesis unfolding f b using cmp by (simp add: pct_def)
qed

definition percentConfig :: Config where
  "percentConfig = DefaultConfig\<lparr>DeadbandGrow := fdiv (float_of_int 10) (F 100),
     DeadbandShrink := fdiv (float_of_int 5) (F 100)\<rparr>"

theorem deadband_is_exact_witness:
  "Apply (decide podB (statsOf 16000 [podA, podB, podC]) percentConfig) \<longleftrightarrow>
    TargetLimitMilli (decide podB (statsOf 16000 [podA, podB, podC]) percentConfig) \<noteq> 2000 \<and>
    (if TargetLimitMilli (decide podB (statsOf 16000 [podA, podB, podC]) percentConfig) < 2000
     then 5 else 10) * 2000
      \<le> 100 * \<bar>TargetLimitMilli (decide podB (statsOf 16000 [podA, podB, podC]) percentConfig) - 2000\<bar>"
proof -
  have c: "CurrentLimitMilli podB = 2000" by (simp add: sample_pods)
  have "0 \<le> TargetLimitMilli (decide podB (statsOf 16000 [podA, podB, podC]) percentConfig)"
    "TargetLimitMilli (decide podB (statsOf 16000 [podA, podB, podC]) percentConfig) \<le> 2 ^ 30"
    using clampTarget_bounds(1,2) [of podB 16000 percentConfig "[podA, podB, podC]"]
    unfolding decide_target by (simp_all add: liftTarget_def sample_pods percentConfig_def DefaultConfig_def)
  then show ?thesis
    using deadband_is_exact [of percentConfig 10 5 podB "statsOf 16000 [podA, podB, podC]"]
    unfolding c by (simp add: percentConfig_def)
qed

text \<open>Stability: once every managed pod carries its target as its enforced limit,
  recomputing the node applies nothing and calls every decision unchanged.\<close>

definition settle :: "int64 \<Rightarrow> PodInput list \<Rightarrow> Config \<Rightarrow> PodInput list" where
  "settle a pods cfg = map (\<lambda>p. if Managed p
     then p\<lparr>CurrentLimitMilli := TargetLimitMilli (decide p (statsOf a pods) cfg)\<rparr> else p) pods"

lemma filter_set_limits:
  "filter Managed (map (\<lambda>p. if Managed p then p\<lparr>CurrentLimitMilli := f p\<rparr> else p) ps) =
     map (\<lambda>p. p\<lparr>CurrentLimitMilli := f p\<rparr>) (filter Managed ps)"
  by (induction ps) auto

lemma settle_stats: "statsOf a (settle a pods cfg) = statsOf a pods"
  by (rule statsOf_cong)
    (auto simp: settle_def comp_def bookedMilli_def holds_def filter_map if_distrib
       intro!: map_cong filter_cong arg_cong [where f = "map RequestMilli"])

theorem settled_node_is_quiet:
  "map (\<lambda>d. (Apply d, Reason d)) (ComputeNode a (settle a pods cfg) cfg) =
     map (\<lambda>p. (False, ''unchanged'')) (filter Managed pods)"
proof -
  have m: "filter Managed (settle a pods cfg) =
      map (\<lambda>p. p\<lparr>CurrentLimitMilli := TargetLimitMilli (decide p (statsOf a pods) cfg)\<rparr>) (filter Managed pods)"
    unfolding settle_def by (rule filter_set_limits)
  show ?thesis
    unfolding ComputeNode_eq settle_stats m
    by (auto simp: decide_target decide_eq [of "_\<lparr>CurrentLimitMilli := _\<rparr>"] target_frame finalize_unchanged)
qed

text \<open>C22. Which pods are in backoff changes nothing for the others: moving the managed pods
  with a key in \<open>B\<close> to holding their share leaves exactly the decisions of the rest.\<close>

definition backOff :: "string set \<Rightarrow> PodInput list \<Rightarrow> PodInput list" where
  "backOff B pods = map (\<lambda>p. if Managed p \<and> Key p \<in> B
     then p\<lparr>Managed := False, HoldsShare := True\<rparr> else p) pods"

lemma backOff_stats: "statsOf a (backOff B pods) = statsOf a pods"
proof (rule statsOf_cong)
  show "map bookedMilli (backOff B pods) = map bookedMilli pods"
    by (auto simp: backOff_def bookedMilli_def)
  show "map RequestMilli (filter holds (backOff B pods)) = map RequestMilli (filter holds pods)"
    unfolding backOff_def by (induction pods) (auto simp: holds_def)
qed

theorem backoff_leaves_neighbours_alone:
  "ComputeNode a (backOff B pods) cfg =
     map snd (filter (\<lambda>(p, d). Key p \<notin> B) (zip (filter Managed pods) (ComputeNode a pods cfg)))"
proof -
  have "filter Managed (backOff B pods) = filter (\<lambda>p. Key p \<notin> B) (filter Managed pods)"
    unfolding backOff_def by (induction pods) auto
  then show ?thesis
    by (simp add: ComputeNode_eq backOff_stats zip_map2 zip_same_conv_map filter_map comp_def)
qed

section \<open>Incentives and totals\<close>

lemma multiplier_mono:
  assumes "0 \<le> m" "m \<le> 100" "0 \<le> r" "r \<le> r'" "r' \<le> 2 ^ 24"
  shows "int_of_float (fround (fmul (float_of_int r) (F m)))
    \<le> int_of_float (fround (fmul (float_of_int r') (F m)))"
proof -
  have v: "int_of_float (fround (fmul (float_of_int x) (F m))) = round_away (rnd64 (of_int x * m))"
    if x: "0 \<le> x" "x \<le> 2 ^ 24" for x
  proof -
    have "(of_int x :: rat) \<le> of_int (2 ^ 24)" using x(2) by (simp only: of_int_le_iff)
    then have "of_int x * m \<le> of_int (2 ^ 24) * 100"
      using assms(1,2) by (intro mult_mono) simp_all
    then have xm: "0 \<le> of_int x * m" "of_int x * m \<le> of_int (2 ^ 31)" using x assms by simp_all
    have g: "repr64 (of_int (2 ^ 31))" by (rule repr64_int) simp
    have r: "0 \<le> rnd64 (of_int x * m)" "rnd64 (of_int x * m) \<le> of_int (2 ^ 31)"
      using b64.nonneg [OF xm(1)] b64.le_grid [OF g xm(2)] .
    then have "round_away (of_int 0) \<le> round_away (rnd64 (of_int x * m))"
      "round_away (rnd64 (of_int x * m)) \<le> round_away (of_int (2 ^ 31))"
      by (intro round_away_mono; simp)+
    then have "in64 (round_away (rnd64 (of_int x * m)))"
      by (simp only: round_away_of_int in64_def) simp
    moreover have "\<bar>of_int x * m\<bar> \<le> 2 ^ 130" using xm by simp
    ultimately show ?thesis using x by (simp add: float_of_int_exact fnorm_small)
  qed
  have "of_int r * m \<le> of_int r' * m" using assms by (intro mult_right_mono) auto
  then show ?thesis using assms by (simp add: v round_away_mono b64.mono)
qed

lemma specRaw_mono:
  assumes "node_ok a pods cfg" "RequestMilli p \<le> RequestMilli p'"
  shows "specRaw a pods fl p \<le> specRaw a pods fl p'"
proof (cases "specSlack a pods \<le> 0 \<or> specManaged pods \<le> 0")
  case False
  let ?S = "specSlack a pods" and ?M = "specManaged pods" and ?N = "int (length (filter holds pods))"
  have "(of_int (?S * RequestMilli p) :: rat) \<le> of_int (?S * RequestMilli p')"
    using False assms(2) by (simp only: of_int_le_iff) (simp add: mult_left_mono)
  then have "specBurst ?S (RequestMilli p) ?M ?N fl \<le> specBurst ?S (RequestMilli p') ?M ?N fl"
    using False unfolding specBurst_def
    by (intro max.mono divide_right_mono order.refl) auto
  then show ?thesis using False assms(2) round_away_mono by (simp add: specRaw_def add_mono)
qed (use assms in \<open>simp add: specRaw_def\<close>)

text \<open>The incentive: of two managed pods on a node with the same cap, the one with the
  larger request never gets the smaller limit.\<close>

theorem larger_request_larger_limit:
  assumes "node_ok a pods cfg" "QuantumMilli cfg \<le> 2 ^ 61"
    and "MaxMultiplier cfg = F m" "0 \<le> m" "m \<le> 100"
    and "(p, d) \<in> set (zip (filter Managed pods) (ComputeNode a pods cfg))"
    and "(p', d') \<in> set (zip (filter Managed pods) (ComputeNode a pods cfg))"
    and "\<not> AboveRequest p" "\<not> AboveRequest p'" "capMilli p = capMilli p'"
    and "RequestMilli p \<le> RequestMilli p'"
  shows "TargetLimitMilli d \<le> TargetLimitMilli d'"
proof -
  let ?r = "RequestMilli p" and ?r' = "RequestMilli p'" and ?c = "capMilli p'" and ?fl = "MinBurstFloorMilli cfg"
  note k = node_okD [OF assms(1)]
  have p: "p \<in> set pods" "holds p" "p' \<in> set pods" "holds p'"
    using decision_of [OF assms(6)] decision_of [OF assms(7)] by (auto simp: holds_def)
  have r: "0 \<le> ?r" "?r \<le> 2 ^ 24" "0 \<le> ?r'" "?r' \<le> 2 ^ 24" using k(5,9,11) p by fastforce+
  let ?h = "clampHi ?r a ?c cfg" and ?h' = "clampHi ?r' a ?c cfg"
  have h: "?h \<le> ?h'"
    unfolding clampHi_def assms(3) using multiplier_mono [OF assms(4,5) r(1) assms(11) r(4)] assms(11)
    by (auto simp: Let_def)
  have h61: "?h' \<le> 2 ^ 61" using clampHi_le_alloc [of ?r' a ?c cfg] r k(2) by simp
  note raw = rawTarget_spec(1,2) [OF assms(1) p(1,2)] rawTarget_spec(1,2) [OF assms(1) p(3,4)]
  have "clampAndQuantize (specRaw a pods ?fl p) ?r a ?c cfg \<le> clampAndQuantize (specRaw a pods ?fl p') ?r' a ?c cfg"
    unfolding clampAndQuantize_eq
    using specRaw_mono [OF assms(1,11), of ?fl] raw(2,4) h h61 r assms(2,11)
      clampHi_ge [of ?r a ?c cfg] clampHi_ge [of ?r' a ?c cfg]
    by (intro quantizeWithin_mono) auto
  then show ?thesis
    using decision_of [OF assms(6)] decision_of [OF assms(7)] assms(8-10) raw(1,3)
    by (simp add: liftTarget_def clampTarget_def)
qed

theorem larger_request_larger_limit_witness:
  "TargetLimitMilli (decide podA (statsOf 16000 [podA, podC\<lparr>AboveRequest := False, LimitRangeCap := 0\<rparr>]) DefaultConfig)
    \<le> TargetLimitMilli (decide (podC\<lparr>AboveRequest := False, LimitRangeCap := 0\<rparr>)
         (statsOf 16000 [podA, podC\<lparr>AboveRequest := False, LimitRangeCap := 0\<rparr>]) DefaultConfig)"
proof -
  let ?ps = "[podA, podC\<lparr>AboveRequest := False, LimitRangeCap := 0\<rparr>]"
  have ok: "node_ok 16000 ?ps DefaultConfig"
    by (simp add: node_ok_def sample_pods DefaultConfig_def bookedMilli_def specManaged_def holds_def)
  have m: "(p, decide p (statsOf 16000 ?ps) DefaultConfig)
      \<in> set (zip (filter Managed ?ps) (ComputeNode 16000 ?ps DefaultConfig))" if "p \<in> set ?ps" for p
    using that by (intro decision_member) (auto simp: sample_pods)
  show ?thesis
    by (rule larger_request_larger_limit [OF ok _ _ _ _ m m, where m = 10])
      (simp_all add: sample_pods DefaultConfig_def capMilli_def)
qed

text \<open>What a node promises. A managed pod's target exceeds its request by at most its
  proportional share plus the slack-aware floor, plus rounding.\<close>

lemma specRaw_le:
  assumes "node_ok a pods cfg" "holds p" "p \<in> set pods" "0 < specSlack a pods" "0 < specManaged pods"
  shows "of_int (specRaw a pods fl p) \<le> (of_int (RequestMilli p)
    + of_int (specSlack a pods) * (of_int (RequestMilli p) / of_int (specManaged pods))
    + max 0 (min (of_int fl) (of_int (specSlack a pods) / of_int (int (length (filter holds pods))))) + 1 / 2 :: rat)"
proof -
  let ?S = "specSlack a pods" and ?M = "specManaged pods" and ?N = "int (length (filter holds pods))"
  let ?p = "of_int (?S * RequestMilli p) / of_int ?M :: rat" and ?f = "min (of_int fl) (of_int ?S / of_int ?N) :: rat"
  have "0 \<le> RequestMilli p" using node_okD(5) [OF assms(1,3)] .
  then have "0 \<le> ?p" using assms(4,5) by simp
  then have "specBurst ?S (RequestMilli p) ?M ?N fl \<le> ?p + max 0 ?f" by (simp add: specBurst_def)
  then show ?thesis
    using round_away_bounds(2) [of "specBurst ?S (RequestMilli p) ?M ?N fl"] assms(4,5)
    by (simp add: specRaw_def)
qed

lemma sum_list_share:
  "(\<Sum>x\<leftarrow>xs. f x + c * g x + (b + h x)) = sum_list (map f xs) + c * sum_list (map g xs)
     + (of_nat (length xs) * b + (\<Sum>x\<leftarrow>xs. h x :: rat))"
  by (induction xs) (simp_all add: algebra_simps)

lemma of_int_sum_list_map: "of_int (sum_list (map f xs)) = (\<Sum>x\<leftarrow>xs. of_int (f x) :: rat)"
  by (induction xs) simp_all

lemma sum_list_map_divide: "(\<Sum>x\<leftarrow>xs. f x / c) = sum_list (map f xs) / (c :: rat)"
  by (induction xs) (simp_all add: add_divide_distrib)

lemma length_filter_imp: "(\<And>x. P x \<Longrightarrow> Q x) \<Longrightarrow> length (filter P xs) \<le> length (filter Q xs)"
  by (induction xs) (auto simp: le_Suc_eq)

lemma sum_list_filter_le:
  fixes f :: "'a \<Rightarrow> int"
  assumes "\<And>x. x \<in> set xs \<Longrightarrow> 0 \<le> f x" "\<And>x. x \<in> set xs \<Longrightarrow> P x \<Longrightarrow> Q x"
  shows "sum_list (map f (filter P xs)) \<le> sum_list (map f (filter Q xs))"
  using assms
proof (induction xs)
  case (Cons x xs)
  then have "sum_list (map f (filter P xs)) \<le> sum_list (map f (filter Q xs))" by simp
  with Cons.prems show ?case by (fastforce intro: add_increasing)
qed simp

text \<open>Twice what rounding may add to a pod's share: half a milli-core, and half a quantum or
  the whole quantum of a pod lifted above its request.\<close>

definition roundingRoom :: "PodInput \<Rightarrow> Config \<Rightarrow> int" where
  "roundingRoom p cfg =
     1 + (if AboveRequest p then 2 * max (QuantumMilli cfg) 1 else max 0 (QuantumMilli cfg))"

lemma target_le_share:
  assumes ok: "node_ok a pods cfg" and q: "QuantumMilli cfg \<le> 2 ^ 61"
    and p: "p \<in> set pods" "Managed p"
    and pos: "0 < specSlack a pods" "0 < specManaged pods"
  shows "of_int (TargetLimitMilli (decide p (statsOf a pods) cfg)) \<le> (of_int (RequestMilli p)
    + of_int (specSlack a pods) * (of_int (RequestMilli p) / of_int (specManaged pods))
    + (min (of_int (MinBurstFloorMilli cfg)) (of_int (specSlack a pods) / of_int (int (length (filter holds pods))))
       + of_int (roundingRoom p cfg) / 2) :: rat)"
proof -
  let ?fl = "MinBurstFloorMilli cfg" and ?Q = "max 0 (QuantumMilli cfg)"
  let ?f = "min (of_int ?fl) (of_int (specSlack a pods) / of_int (int (length (filter holds pods)))) :: rat"
  have h: "holds p" using p by (simp add: holds_def)
  note k = node_okD [OF ok] and raw = rawTarget_spec [OF ok p(1) h]
  have r: "0 \<le> RequestMilli p" "RequestMilli p \<le> 2 ^ 61" using k(5,9,11) p(1) h by fastforce+
  have "clampTarget p (statsOf a pods) cfg \<le> specRaw a pods ?fl p + max 0 (QuantumMilli cfg div 2)"
    using clamp_props(4) [OF r _ q, of a "specRaw a pods ?fl p" "capMilli p"] k(2) raw(1,2)
    by (simp add: clampTarget_def max_absorb1)
  then have c: "2 * clampTarget p (statsOf a pods) cfg \<le> 2 * specRaw a pods ?fl p + ?Q" by auto
  have "2 * liftTarget p (clampTarget p (statsOf a pods) cfg) cfg
      \<le> 2 * specRaw a pods ?fl p + roundingRoom p cfg - 1"
  proof (cases "AboveRequest p")
    case True
    then show ?thesis
      using liftTarget_above(2) [OF True r q, of "clampTarget p (statsOf a pods) cfg"] c raw(2)
      by (simp add: roundingRoom_def max_def split: if_splits)
  next
    case False
    then show ?thesis using c by (simp add: liftTarget_def roundingRoom_def)
  qed
  then have "(of_int (2 * liftTarget p (clampTarget p (statsOf a pods) cfg) cfg) :: rat)
      \<le> of_int (2 * specRaw a pods ?fl p + roundingRoom p cfg - 1)"
    by (simp only: of_int_le_iff)
  moreover have "0 \<le> ?f" using k(3) pos by simp
  ultimately show ?thesis
    using specRaw_le [OF ok h p(1) pos, of ?fl] unfolding decide_target by simp
qed

text \<open>C15. A node with slack promises its managed pods, together, at most the requests of the
  pods holding a share, plus the slack once proportionally and at most once more through the
  burst floor (and no more than the floor per pod), plus rounding: half a milli-core for each
  pod, and half a quantum, or a whole one for a pod that has to stay above its request.\<close>

theorem node_commitment_bounded:
  assumes "node_ok a pods cfg" "QuantumMilli cfg \<le> 2 ^ 61"
    and "0 < specSlack a pods" "0 < specManaged pods"
  shows "2 * sum_list (map TargetLimitMilli (ComputeNode a pods cfg)) \<le>
    2 * (specManaged pods + specSlack a pods
         + min (specSlack a pods) (int (length (filter Managed pods)) * MinBurstFloorMilli cfg))
    + (\<Sum>p\<leftarrow>filter Managed pods.
         1 + (if AboveRequest p then 2 * max (QuantumMilli cfg) 1 else max 0 (QuantumMilli cfg)))"
proof -
  let ?ps = "filter Managed pods" and ?S = "specSlack a pods" and ?M = "specManaged pods"
  let ?n = "int (length ?ps)" and ?N = "int (length (filter holds pods))"
  let ?fl = "MinBurstFloorMilli cfg" and ?b = "\<lambda>p. of_int (roundingRoom p cfg) / 2 :: rat"
  let ?f = "min (of_int ?fl) (of_int ?S / of_int ?N) :: rat"
  let ?R = "sum_list (map RequestMilli ?ps)" and ?Q = "\<Sum>p\<leftarrow>?ps. roundingRoom p cfg"
  note k = node_okD [OF assms(1)]
  have R: "?R \<le> ?M" "0 \<le> ?R"
    unfolding specManaged_def using k(5) by (auto intro!: sum_list_filter_le sum_list_nonneg simp: holds_def)
  have nN: "?n \<le> ?N" using length_filter_imp [of Managed holds pods] by (simp add: holds_def)
  have "of_int (sum_list (map TargetLimitMilli (ComputeNode a pods cfg))) =
      (\<Sum>p\<leftarrow>?ps. of_int (TargetLimitMilli (decide p (statsOf a pods) cfg)) :: rat)"
    by (simp add: ComputeNode_eq comp_def of_int_sum_list_map)
  also have "\<dots> \<le> (\<Sum>p\<leftarrow>?ps. of_int (RequestMilli p) + of_int ?S * (of_int (RequestMilli p) / of_int ?M) + (?f + ?b p))"
    by (intro sum_list_mono target_le_share [OF assms(1,2) _ _ assms(3,4)]) auto
  also have "\<dots> = of_int ?R + of_int ?S * (of_int ?R / of_int ?M) + (of_int ?n * ?f + of_int ?Q / 2)"
    unfolding sum_list_share of_int_sum_list_map sum_list_map_divide of_int_of_nat_eq by (rule refl)
  finally have le: "of_int (sum_list (map TargetLimitMilli (ComputeNode a pods cfg)))
      \<le> of_int ?R + of_int ?S * (of_int ?R / of_int ?M) + (of_int ?n * ?f + of_int ?Q / 2)" .
  have R1: "(of_int ?R :: rat) \<le> of_int ?M" using R(1) by (simp only: of_int_le_iff)
  have "of_int ?R / of_int ?M \<le> (1 :: rat)" using R1 assms(4) by simp
  then have share: "of_int ?S * (of_int ?R / of_int ?M) \<le> (of_int ?S :: rat)"
    using assms(3) by (intro mult_left_le) auto
  have "of_int ?n / of_int ?N \<le> (1 :: rat)" using nN by (simp add: divide_le_eq)
  then have "of_int ?n * (of_int ?S / of_int ?N) \<le> (of_int ?S :: rat)"
    using assms(3) mult_left_le [of "of_int ?n / of_int ?N" "of_int ?S :: rat"] by (simp add: field_simps)
  then have fl: "of_int ?n * ?f \<le> (of_int (min ?S (?n * ?fl)) :: rat)"
    by (simp add: min_mult_distrib_left of_int_min min_le_iff_disj)
  have "(of_int (2 * sum_list (map TargetLimitMilli (ComputeNode a pods cfg))) :: rat) \<le>
      of_int (2 * (?M + ?S + min ?S (?n * ?fl)) + ?Q)"
    using le R1 share fl by (simp add: algebra_simps)
  then show ?thesis by (simp only: of_int_le_iff roundingRoom_def)
qed

theorem node_commitment_bounded_witness:
  "2 * sum_list (map TargetLimitMilli (ComputeNode 16000 [podA, podB, podC] DefaultConfig))
    \<le> 2 * (8005 + 7895 + 3000) + (11 + 11 + 21)"
  using node_commitment_bounded [OF node_ok_sample]
  by (simp add: sample_pods DefaultConfig_def bookedMilli_def specManaged_def specSlack_def holds_def)

end
