(* ===== verification/Quantity.thy ===== *)
theory Quantity
  imports Float64
begin

text \<open>
  Kubernetes quantities (\<open>vendor/k8s.io/apimachinery/pkg/api/resource\<close>): a 64-bit
  mantissa with a decimal scale, falling back to an arbitrary-precision decimal
  (\<open>vendor/gopkg.in/inf.v0\<close>) when an addition overflows. The display format and the
  cached string of a quantity are left out: no decision reads them.
\<close>

section \<open>Representation\<close>

record int64Amount =
  amtValue :: int64
  amtScale :: int

record Dec =
  decUnscaled :: int
  decScale :: int

datatype Quantity = IntQ int64Amount | DecQ Dec

definition mostNegative :: int64 where
  "mostNegative = - (2 ^ 63)"

section \<open>Checked 64-bit arithmetic\<close>

definition int64Add :: "int64 \<Rightarrow> int64 \<Rightarrow> int64 \<times> bool" where
  "int64Add a b =
     (let c = add64 a b in
      if a > 0 \<and> b > 0 then (if c < 0 then (0, False) else (c, True))
      else if a < 0 \<and> b < 0 then
        (if c > 0 then (0, False)
         else if a = mostNegative \<and> b = mostNegative then (0, False) else (c, True))
      else (c, True))"

definition int64MultiplyScale :: "int64 \<Rightarrow> int64 \<Rightarrow> int64 \<times> bool" where
  "int64MultiplyScale a b =
     (if a = 0 \<or> a = 1 then (mul64 a b, True)
      else if a = mostNegative \<and> b \<noteq> 1 then (0, False)
      else let c = mul64 a b in (c, div64 c b = a))"

definition int64MultiplyScale10 :: "int64 \<Rightarrow> int64 \<times> bool" where
  "int64MultiplyScale10 a =
     (if a = 0 \<or> a = 1 then (mul64 a 10, True)
      else if a = mostNegative then (0, False)
      else let c = mul64 a 10 in (c, div64 c 10 = a))"

definition int64MultiplyScale100 :: "int64 \<Rightarrow> int64 \<times> bool" where
  "int64MultiplyScale100 a =
     (if a = 0 \<or> a = 1 then (mul64 a 100, True)
      else if a = mostNegative then (0, False)
      else let c = mul64 a 100 in (c, div64 c 100 = a))"

definition int64MultiplyScale1000 :: "int64 \<Rightarrow> int64 \<times> bool" where
  "int64MultiplyScale1000 a =
     (if a = 0 \<or> a = 1 then (mul64 a 1000, True)
      else if a = mostNegative then (0, False)
      else let c = mul64 a 1000 in (c, div64 c 1000 = a))"

fun scaleUpLoop :: "nat \<Rightarrow> int64 \<Rightarrow> int64 \<times> bool" where
  "scaleUpLoop 0 v = (v, True)"
| "scaleUpLoop (Suc n) v =
     (case int64MultiplyScale v 10 of
        (v', ok) \<Rightarrow> if ok then scaleUpLoop n v' else (0, False))"

definition positiveScaleInt64 :: "int64 \<Rightarrow> int \<Rightarrow> int64 \<times> bool" where
  "positiveScaleInt64 base scale =
     (if scale = 0 then (base, True)
      else if scale = 1 then int64MultiplyScale10 base
      else if scale = 2 then int64MultiplyScale100 base
      else if scale = 3 then int64MultiplyScale1000 base
      else if scale = 6 then int64MultiplyScale base 1000000
      else if scale = 9 then int64MultiplyScale base 1000000000
      else scaleUpLoop (nat scale) base)"

fun scaleDownLoop :: "int64 \<Rightarrow> nat \<Rightarrow> int64 \<Rightarrow> bool \<Rightarrow> int64 \<times> bool" where
  "scaleDownLoop base 0 v fraction =
     (if fraction then (if base > 0 then add64 v 1 else sub64 v 1) else v, \<not> fraction)"
| "scaleDownLoop base (Suc n) v fraction =
     (let fraction = (fraction \<or> v smod 10 \<noteq> 0);
          v = div64 v 10
      in if v = 0 then (if fraction then (if base > 0 then 1 else - 1, False) else (0, True))
         else scaleDownLoop base n v fraction)"

definition negativeScaleInt64 :: "int64 \<Rightarrow> int \<Rightarrow> int64 \<times> bool" where
  "negativeScaleInt64 base scale =
     (if scale = 0 then (base, True) else scaleDownLoop base (nat scale) base False)"

definition divideByScaleInt64 :: "int64 \<Rightarrow> int \<Rightarrow> int64 \<times> int64 \<times> bool" where
  "divideByScaleInt64 base scale =
     (if scale = 0 then (base, 0, True)
      else if scale \<ge> 18 then (0, base, False)
      else (div64 base (10 ^ nat scale), base smod (10 ^ nat scale), True))"

section \<open>Decimals\<close>

definition upscale :: "Dec \<Rightarrow> Dec \<Rightarrow> int \<times> int \<times> int" where
  "upscale x y =
     (let s = max (decScale x) (decScale y)
      in (decUnscaled x * 10 ^ nat (s - decScale x), decUnscaled y * 10 ^ nat (s - decScale y), s))"

definition Dec_Add :: "Dec \<Rightarrow> Dec \<Rightarrow> Dec" where
  "Dec_Add x y = (case upscale x y of (a, b, s) \<Rightarrow> \<lparr>decUnscaled = a + b, decScale = s\<rparr>)"

definition Dec_Cmp :: "Dec \<Rightarrow> Dec \<Rightarrow> int" where
  "Dec_Cmp x y = (case upscale x y of (a, b, s) \<Rightarrow> sgn (a - b))"

text \<open>\<open>math.Pow10\<close>: two table lookups and one multiplication or division.\<close>

definition Pow10 :: "int \<Rightarrow> float64" where
  "Pow10 n =
     (if 0 \<le> n \<and> n \<le> 308 then
        fmul (fnorm (10 ^ nat (n div 32 * 32))) (fnorm (10 ^ nat (n mod 32)))
      else if - 323 \<le> n \<and> n \<le> 0 then
        fdiv (fnorm (1 / 10 ^ nat (- n div 32 * 32))) (fnorm (10 ^ nat (- n mod 32)))
      else if n > 0 then PInf else F 0)"

text \<open>\<open>big.Int\<close>'s division is Euclidean for \<open>DivMod\<close>, which on a positive divisor is
  HOL's \<open>div\<close> and \<open>mod\<close>.\<close>

definition scaledValue :: "int \<Rightarrow> int \<Rightarrow> int \<Rightarrow> int64" where
  "scaledValue unscaled scale newScale =
     (let dif = scale - newScale in
      if dif = 0 then wrap64 unscaled
      else if dif < 0 then mul64 (wrap64 unscaled) (int_of_float (Pow10 (- dif)))
      else if unscaled < MaxInt64 \<and> dif < 19 then
        (let divide = int_of_float (Pow10 dif);
             result = div64 (wrap64 unscaled) divide
         in if wrap64 unscaled smod divide \<noteq> 0 then add64 result 1 else result)
      else
        (let divisor = 10 ^ nat dif
         in if unscaled mod divisor \<noteq> 0 then add64 (wrap64 (unscaled div divisor)) 1
            else wrap64 (unscaled div divisor)))"

section \<open>Operations on quantities\<close>

definition AsScaledInt64 :: "int64Amount \<Rightarrow> int \<Rightarrow> int64 \<times> bool" where
  "AsScaledInt64 a scale =
     (if amtScale a < scale then (fst (negativeScaleInt64 (amtValue a) (scale - amtScale a)), True)
      else positiveScaleInt64 (amtValue a) (amtScale a - scale))"

definition amtAsDec :: "int64Amount \<Rightarrow> Dec" where
  "amtAsDec a = \<lparr>decUnscaled = amtValue a, decScale = - amtScale a\<rparr>"

fun AsDec :: "Quantity \<Rightarrow> Dec" where
  "AsDec (IntQ a) = amtAsDec a"
| "AsDec (DecQ d) = d"

definition ScaledValue :: "Quantity \<Rightarrow> int \<Rightarrow> int64" where
  "ScaledValue q scale =
     (case q of
        IntQ a \<Rightarrow> fst (AsScaledInt64 a scale)
      | DecQ d \<Rightarrow> scaledValue (decUnscaled d) (decScale d) (- scale))"

definition MilliValue :: "Quantity \<Rightarrow> int64" where
  "MilliValue q = ScaledValue q (- 3)"

definition NewMilliQuantity :: "int64 \<Rightarrow> Quantity" where
  "NewMilliQuantity v = IntQ \<lparr>amtValue = v, amtScale = - 3\<rparr>"

definition zeroQ :: Quantity where
  "zeroQ = IntQ \<lparr>amtValue = 0, amtScale = 0\<rparr>"

definition Sign :: "Quantity \<Rightarrow> int" where
  "Sign q = (case q of IntQ a \<Rightarrow> sgn (amtValue a) | DecQ d \<Rightarrow> sgn (decUnscaled d))"

definition cmp64 :: "int64 \<Rightarrow> int64 \<Rightarrow> int" where
  "cmp64 a b = (if a = b then 0 else if a < b then - 1 else 1)"

definition amtCmp :: "int64Amount \<Rightarrow> int64Amount \<Rightarrow> int" where
  "amtCmp a b =
     (if amtScale a = amtScale b then cmp64 (amtValue a) (amtValue b)
      else if amtScale a > amtScale b then
        (case divideByScaleInt64 (amtValue b) (amtScale a - amtScale b) of
           (result, remainder, exact) \<Rightarrow>
             if \<not> exact then Dec_Cmp (amtAsDec a) (amtAsDec b)
             else if result = amtValue a then (if remainder = 0 then 0 else if remainder > 0 then - 1 else 1)
             else cmp64 (amtValue a) result)
      else
        (case divideByScaleInt64 (amtValue a) (amtScale b - amtScale a) of
           (result, remainder, exact) \<Rightarrow>
             if \<not> exact then Dec_Cmp (amtAsDec a) (amtAsDec b)
             else if result = amtValue b then (if remainder = 0 then 0 else if remainder > 0 then 1 else - 1)
             else cmp64 result (amtValue b)))"

definition Cmp :: "Quantity \<Rightarrow> Quantity \<Rightarrow> int" where
  "Cmp q y =
     (case (q, y) of
        (IntQ a, IntQ b) \<Rightarrow> amtCmp a b
      | _ \<Rightarrow> Dec_Cmp (AsDec q) (AsDec y))"

definition amtAdd :: "int64Amount \<Rightarrow> int64Amount \<Rightarrow> int64Amount option" where
  "amtAdd a b =
     (if amtValue b = 0 then Some a
      else if amtValue a = 0 then Some b
      else if amtScale a = amtScale b then
        (case int64Add (amtValue a) (amtValue b) of
           (c, ok) \<Rightarrow> if ok then Some (a\<lparr>amtValue := c\<rparr>) else None)
      else if amtScale a > amtScale b then
        (case positiveScaleInt64 (amtValue a) (amtScale a - amtScale b) of
           (c, ok) \<Rightarrow> if \<not> ok then None
             else (case int64Add c (amtValue b) of
                (c, ok) \<Rightarrow> if ok then Some \<lparr>amtValue = c, amtScale = amtScale b\<rparr> else None))
      else
        (case positiveScaleInt64 (amtValue b) (amtScale b - amtScale a) of
           (c, ok) \<Rightarrow> if \<not> ok then None
             else (case int64Add (amtValue a) c of
                (c, ok) \<Rightarrow> if ok then Some (a\<lparr>amtValue := c\<rparr>) else None)))"

definition Add :: "Quantity \<Rightarrow> Quantity \<Rightarrow> Quantity" where
  "Add q y =
     (case (q, y) of
        (IntQ a, IntQ b) \<Rightarrow>
          (case amtAdd a b of Some c \<Rightarrow> IntQ c | None \<Rightarrow> DecQ (Dec_Add (amtAsDec a) (amtAsDec b)))
      | _ \<Rightarrow> DecQ (Dec_Add (AsDec q) (AsDec y)))"

definition AsApproximateFloat64 :: "Quantity \<Rightarrow> float64" where
  "AsApproximateFloat64 q =
     (let (base, exponent) =
        (case q of IntQ a \<Rightarrow> (float_of_int (amtValue a), amtScale a)
         | DecQ d \<Rightarrow> (float_of_int (decUnscaled d), - decScale d))
      in if exponent = 0 then base else fmul base (Pow10 exponent))"

section \<open>The number a quantity stands for\<close>

fun qrat :: "Quantity \<Rightarrow> rat" where
  "qrat (IntQ a) = of_int (amtValue a) * 10 powi amtScale a"
| "qrat (DecQ d) = of_int (decUnscaled d) * 10 powi (- decScale d)"

fun quantity_ok :: "Quantity \<Rightarrow> bool" where
  "quantity_ok (IntQ a) \<longleftrightarrow> in64 (amtValue a)"
| "quantity_ok (DecQ d) \<longleftrightarrow> True"

lemma wrap64_shift: "\<exists>k. wrap64 x = x + k * 2 ^ 64"
proof -
  have "(x + 2 ^ 63) mod 2 ^ 64 = x + 2 ^ 63 - (x + 2 ^ 63) div 2 ^ 64 * 2 ^ 64"
    by (rule minus_div_mult_eq_mod [symmetric])
  then have "wrap64 x = x + (- ((x + 2 ^ 63) div 2 ^ 64)) * 2 ^ 64" by (simp add: wrap64_def)
  then show ?thesis by blast
qed

lemma sdiv_close:
  assumes "0 < (b :: int)"
  shows "\<bar>c - b * (c sdiv b)\<bar> < b"
proof (cases "0 \<le> c")
  case True
  have "c - b * (c div b) = c mod b" by (simp add: minus_mult_div_eq_mod)
  then show ?thesis using True assms by (simp add: sdiv_nonneg)
next
  case False
  then have "c sdiv b = - ((- c) div b)" using assms by (simp add: signed_divide_int_def)
  then have "c - b * (c sdiv b) = - ((- c) - b * ((- c) div b))" by simp
  also have "\<dots> = - ((- c) mod b)" by (simp add: minus_mult_div_eq_mod)
  finally show ?thesis using assms by simp
qed

lemma sdiv_abs_le:
  assumes "1 \<le> (b :: int)" shows "\<bar>c sdiv b\<bar> \<le> \<bar>c\<bar>"
proof -
  have "\<bar>c\<bar> div b \<le> \<bar>c\<bar>" "0 \<le> \<bar>c\<bar> div b" using assms div_le_dividend_int [of "\<bar>c\<bar>" b]
    by (auto simp: pos_imp_zdiv_nonneg_iff)
  then show ?thesis using assms by (auto simp: signed_divide_int_def abs_mult sgn_if)
qed

lemma div64_id:
  assumes "in64 c" "2 \<le> b" shows "div64 c b = c sdiv b"
proof -
  have "\<bar>c sdiv b\<bar> < 2 ^ 63"
  proof (cases "c = - (2 ^ 63)")
    case True
    have "(2 ^ 63 :: int) div b \<le> 2 ^ 63 div 2" using assms(2) by (intro zdiv_mono2) auto
    moreover have "0 \<le> (2 ^ 63 :: int) div b" using assms(2) by (simp add: pos_imp_zdiv_nonneg_iff)
    ultimately show ?thesis using True assms(2) by (simp add: signed_divide_int_def)
  next
    case False
    then show ?thesis using sdiv_abs_le [of b c] assms by (auto simp: in64_def)
  qed
  then show ?thesis by (simp add: div64_def wrap64_id in64_def abs_less_iff)
qed

lemma int64Add_sound:
  assumes "in64 a" "in64 b" "int64Add a b = (c, True)"
  shows "c = a + b" "in64 c"
proof -
  have c: "c = add64 a b"
    using assms(3) by (auto simp: int64Add_def Let_def split: if_splits)
  then show "in64 c" by (simp add: add64_def)
  have "in64 (a + b)"
  proof (rule ccontr)
    assume n: "\<not> in64 (a + b)"
    obtain k where k: "add64 a b = a + b + k * 2 ^ 64" using wrap64_shift by (auto simp: add64_def)
    have i: "in64 (add64 a b)" by (simp add: add64_def)
    show False
    proof (cases "0 < a \<and> 0 < b")
      case True
      then have big: "2 ^ 63 \<le> a + b" "a + b < 2 ^ 64" using n assms(1,2) by (auto simp: in64_def)
      then have "k = - 1" using k i by (auto simp: in64_def)
      then show False using assms(3) True k big by (auto simp: int64Add_def Let_def split: if_splits)
    next
      case False
      then have neg: "a < 0" "b < 0" using n assms(1,2) by (auto simp: in64_def)
      then have big: "a + b < - (2 ^ 63)" "- (2 ^ 64) \<le> a + b" using n assms(1,2) by (auto simp: in64_def)
      then have "k = 1" using k i by (auto simp: in64_def)
      then have "add64 a b = 0" using assms(3) neg k big by (auto simp: int64Add_def Let_def split: if_splits)
      then have "a = mostNegative" "b = mostNegative"
        using \<open>k = 1\<close> k assms(1,2) by (auto simp: in64_def mostNegative_def)
      then show False using assms(3) neg by (auto simp: int64Add_def Let_def split: if_splits)
    qed
  qed
  then show "c = a + b" using c by (simp add: add64_id)
qed

lemma int64MultiplyScale_sound:
  assumes "in64 a" "2 \<le> b" "b \<le> 10 ^ 9" "int64MultiplyScale a b = (c, True)"
  shows "c = a * b" "in64 c"
proof -
  have c: "c = mul64 a b"
    using assms(2,4) by (auto simp: int64MultiplyScale_def Let_def split: if_splits)
  then show i: "in64 c" by (simp add: mul64_def)
  show "c = a * b"
  proof (cases "a = 0 \<or> a = 1")
    case True
    then have "in64 (a * b)" using assms(2,3) by (auto simp: in64_def)
    then show ?thesis using c by (simp add: mul64_id)
  next
    case False
    then have "div64 (mul64 a b) b = a"
      using assms(2,4) by (auto simp: int64MultiplyScale_def Let_def split: if_splits)
    then have "c sdiv b = a" using c i assms(2) div64_id by simp
    then have "\<bar>c - b * a\<bar> < b" using sdiv_close [of b c] assms(2) by simp
    moreover obtain k where "c = a * b + k * 2 ^ 64" using wrap64_shift c by (auto simp: mul64_def)
    ultimately show ?thesis using assms(3) by (auto simp: algebra_simps)
  qed
qed

lemma int64MultiplyScale_10_100_1000:
  "int64MultiplyScale10 a = int64MultiplyScale a 10"
  "int64MultiplyScale100 a = int64MultiplyScale a 100"
  "int64MultiplyScale1000 a = int64MultiplyScale a 1000"
  by (simp_all only: int64MultiplyScale10_def int64MultiplyScale100_def int64MultiplyScale1000_def
      int64MultiplyScale_def) simp_all

lemma scaleUpLoop_sound:
  "in64 v \<Longrightarrow> scaleUpLoop n v = (c, True) \<Longrightarrow> c = v * 10 ^ n \<and> in64 c"
proof (induction n arbitrary: v)
  case (Suc n)
  obtain v' where m: "int64MultiplyScale v 10 = (v', True)" and l: "scaleUpLoop n v' = (c, True)"
    using Suc.prems(2) by (auto split: prod.splits if_splits)
  have "v' = v * 10" "in64 v'" using int64MultiplyScale_sound [OF Suc.prems(1) _ _ m] by auto
  then show ?case using Suc.IH [OF _ l] by (auto simp: mult.assoc)
qed simp

lemma positiveScaleInt64_sound:
  assumes "in64 v" "0 \<le> s" "positiveScaleInt64 v s = (c, True)"
  shows "c = v * 10 ^ nat s" "in64 c"
proof -
  have mul: "c = v * b \<and> in64 c" if "int64MultiplyScale v b = (c, True)" "2 \<le> b" "b \<le> 10 ^ 9" for b
    using int64MultiplyScale_sound [OF assms(1) that(2,3,1)] by simp
  have "c = v * 10 ^ nat s \<and> in64 c"
    using assms mul [of 10] mul [of 100] mul [of 1000] mul [of 1000000] mul [of 1000000000]
      scaleUpLoop_sound [OF assms(1), of "nat s" c]
    by (auto simp: positiveScaleInt64_def int64MultiplyScale_10_100_1000 split: if_splits)
  then show "c = v * 10 ^ nat s" "in64 c" by auto
qed

lemma powi_split: "t \<le> s \<Longrightarrow> (10 :: rat) powi s = 10 powi t * of_int (10 ^ nat (s - t))"
proof -
  assume "t \<le> s"
  then have "(10 :: rat) powi (s - t) = of_int (10 ^ nat (s - t))" by (simp add: power_int_def)
  moreover have "(10 :: rat) powi s = 10 powi t * 10 powi (s - t)" by (simp flip: power_int_add)
  ultimately show ?thesis by simp
qed

lemma powi_pos [simp]: "0 < (10 :: rat) powi e"
  by (simp add: zero_less_power_int)

lemma mult_powi_nonneg: "0 \<le> (of_int a * 10 powi e :: rat) \<longleftrightarrow> 0 \<le> a"
proof -
  have "\<not> (10 :: rat) powi e \<le> 0" using powi_pos [of e] by linarith
  then show ?thesis by (auto simp: zero_le_mult_iff)
qed

lemma qrat_AsDec [simp]: "qrat (DecQ (AsDec q)) = qrat q" "qrat (DecQ (amtAsDec a)) = qrat (IntQ a)"
  by (cases q) (simp_all add: amtAsDec_def)

lemma upscale_value:
  assumes "upscale x y = (a, b, s)"
  shows "qrat (DecQ x) = of_int a * 10 powi (- s)" "qrat (DecQ y) = of_int b * 10 powi (- s)"
proof -
  have s: "s = max (decScale x) (decScale y)" using assms by (simp add: upscale_def Let_def)
  have "(10 :: rat) powi (- decScale z) = 10 powi (- s) * of_int (10 ^ nat (s - decScale z))"
    if "decScale z \<le> s" for z using that powi_split [of "- s" "- decScale z"] by simp
  from this [of x] this [of y] assms s
  show "qrat (DecQ x) = of_int a * 10 powi (- s)" "qrat (DecQ y) = of_int b * 10 powi (- s)"
    by (auto simp: upscale_def Let_def)
qed

lemma Dec_Add_value: "qrat (DecQ (Dec_Add x y)) = qrat (DecQ x) + qrat (DecQ y)"
proof (cases "upscale x y")
  case (fields a b s)
  then show ?thesis using upscale_value [OF fields] by (simp add: Dec_Add_def algebra_simps)
qed

definition cmpRat :: "rat \<Rightarrow> rat \<Rightarrow> int" where
  "cmpRat x y = (if x = y then 0 else if x < y then - 1 else 1)"

lemma cmpRat_scale: "0 < p \<Longrightarrow> cmpRat (of_int a * p) (of_int b * p) = cmp64 a b"
  by (auto simp: cmpRat_def cmp64_def)

lemma cmp64_sgn: "cmp64 a b = sgn (a - b)"
  by (auto simp: cmp64_def)

lemma Dec_Cmp_value: "Dec_Cmp x y = cmpRat (qrat (DecQ x)) (qrat (DecQ y))"
proof (cases "upscale x y")
  case (fields a b s)
  have "Dec_Cmp x y = cmp64 a b" by (simp add: Dec_Cmp_def fields cmp64_sgn)
  then show ?thesis unfolding upscale_value [OF fields] by (simp add: cmpRat_scale)
qed

text \<open>Comparing with the truncated quotient first, as \<open>int64Amount.Cmp\<close> does.\<close>

lemma trunc_cmp:
  fixes a b D :: int
  assumes "0 < D"
  shows "cmp64 (a * D) b = (if b sdiv D = a
    then (if b smod D = 0 then 0 else if b smod D > 0 then - 1 else 1) else cmp64 a (b sdiv D))"
proof -
  have m: "b smod D = b - b sdiv D * D" by (simp only: minus_sdiv_mult_eq_smod)
  have c: "\<bar>b smod D\<bar> < D" using sdiv_close [OF assms, of b] by (simp add: m mult.commute)
  have lt: "a * D < b" if "a < b sdiv D"
  proof -
    have "(a + 1) * D \<le> b sdiv D * D" using that assms by (intro mult_right_mono) auto
    then show ?thesis using m c by (simp add: algebra_simps)
  qed
  have gt: "b < a * D" if "b sdiv D < a"
  proof -
    have "(b sdiv D + 1) * D \<le> a * D" using that assms by (intro mult_right_mono) auto
    then show ?thesis using m c by (simp add: algebra_simps)
  qed
  have eq: "b = a * D + b smod D" if "b sdiv D = a" using m that by simp
  consider "a < b sdiv D" | "b sdiv D = a" | "b sdiv D < a" by linarith
  then show ?thesis
  proof cases
    case 1
    then show ?thesis using lt [OF 1] by (simp add: cmp64_def)
  next
    case 2
    then show ?thesis using eq [OF 2] by (auto simp: cmp64_def)
  next
    case 3
    then show ?thesis using gt [OF 3] by (simp add: cmp64_def)
  qed
qed

lemma cmp64_swap: "cmp64 a b = - cmp64 b a"
  by (simp add: cmp64_def)

lemma amtCmp_value:
  assumes "in64 (amtValue a)" "in64 (amtValue b)"
  shows "amtCmp a b = cmpRat (qrat (IntQ a)) (qrat (IntQ b))"
proof -
  let ?dec = "Dec_Cmp (amtAsDec a) (amtAsDec b)"
  have dec: "?dec = cmpRat (qrat (IntQ a)) (qrat (IntQ b))" by (simp only: Dec_Cmp_value qrat_AsDec)
  have step: "cmpRat (qrat (IntQ x)) (qrat (IntQ y)) = cmp64 (amtValue x * 10 ^ nat d) (amtValue y)"
    if "amtScale y < amtScale x" "d = amtScale x - amtScale y" for x y d
  proof -
    have "qrat (IntQ x) = of_int (amtValue x * 10 ^ nat d) * 10 powi amtScale y"
      using powi_split [of "amtScale y" "amtScale x"] that by (simp add: mult.assoc mult.commute)
    then show ?thesis by (simp only: qrat.simps cmpRat_scale powi_pos)
  qed
  have ten: "2 \<le> (10 :: int) ^ nat d" if "0 < d" for d
    using that self_le_power [of "10 :: int" "nat d"] by simp
  consider "amtScale a = amtScale b" | "amtScale b < amtScale a" | "amtScale a < amtScale b" by linarith
  then show ?thesis
  proof cases
    case 1
    then show ?thesis by (simp add: amtCmp_def cmpRat_scale)
  next
    case 2
    define d where "d = amtScale a - amtScale b"
    have "0 < d" using 2 by (simp add: d_def)
    then show ?thesis
      using 2 dec step [OF 2 d_def] trunc_cmp [of "10 ^ nat d" "amtValue a" "amtValue b"]
        div64_id [OF assms(2) ten [OF \<open>0 < d\<close>]]
      by (simp add: amtCmp_def divideByScaleInt64_def flip: d_def)
  next
    case 3
    define d where "d = amtScale b - amtScale a"
    have "0 < d" using 3 by (simp add: d_def)
    have swap: "cmpRat x y = - cmpRat y x" for x y by (simp add: cmpRat_def)
    have "cmpRat (qrat (IntQ a)) (qrat (IntQ b)) = - cmp64 (amtValue b * 10 ^ nat d) (amtValue a)"
      using step [OF 3 d_def] swap [of "qrat (IntQ a)"] by simp
    then show ?thesis
      using 3 dec trunc_cmp [of "10 ^ nat d" "amtValue b" "amtValue a"]
        div64_id [OF assms(1) ten [OF \<open>0 < d\<close>]] cmp64_swap [of _ "amtValue b"] \<open>0 < d\<close>
      by (simp add: amtCmp_def divideByScaleInt64_def flip: d_def)
  qed
qed

lemma Cmp_value: "quantity_ok x \<Longrightarrow> quantity_ok y \<Longrightarrow> Cmp x y = cmpRat (qrat x) (qrat y)"
proof -
  assume ok: "quantity_ok x" "quantity_ok y"
  have "Dec_Cmp (AsDec x) (AsDec y) = cmpRat (qrat x) (qrat y)"
    by (simp only: Dec_Cmp_value qrat_AsDec)
  then show ?thesis
    using ok amtCmp_value by (cases x; cases y) (simp_all add: Cmp_def del: qrat.simps)
qed

lemma amtAdd_sound:
  assumes "in64 (amtValue a)" "in64 (amtValue b)" "amtAdd a b = Some c"
  shows "qrat (IntQ c) = qrat (IntQ a) + qrat (IntQ b)" "in64 (amtValue c)"
proof -
  consider "amtValue b = 0" | "amtValue b \<noteq> 0" "amtValue a = 0"
    | "amtValue b \<noteq> 0" "amtValue a \<noteq> 0" "amtScale a = amtScale b"
    | "amtValue b \<noteq> 0" "amtValue a \<noteq> 0" "amtScale b < amtScale a"
    | "amtValue b \<noteq> 0" "amtValue a \<noteq> 0" "amtScale a < amtScale b" by linarith
  then have "qrat (IntQ c) = qrat (IntQ a) + qrat (IntQ b) \<and> in64 (amtValue c)"
  proof cases
    case 3
    then obtain v where "int64Add (amtValue a) (amtValue b) = (v, True)" "c = a\<lparr>amtValue := v\<rparr>"
      using assms(3) by (auto simp: amtAdd_def split: prod.splits if_splits)
    then show ?thesis using int64Add_sound [OF assms(1,2)] 3 by (auto simp: algebra_simps)
  next
    case 4
    then obtain u v where p: "positiveScaleInt64 (amtValue a) (amtScale a - amtScale b) = (u, True)"
      and s: "int64Add u (amtValue b) = (v, True)" and c: "c = \<lparr>amtValue = v, amtScale = amtScale b\<rparr>"
      using assms(3) by (auto simp: amtAdd_def split: prod.splits if_splits)
    have u: "u = amtValue a * 10 ^ nat (amtScale a - amtScale b)" "in64 u"
      using positiveScaleInt64_sound [OF assms(1) _ p] 4 by auto
    show ?thesis
      using int64Add_sound [OF u(2) assms(2) s] u c powi_split [of "amtScale b" "amtScale a"] 4
      by (simp add: algebra_simps)
  next
    case 5
    then obtain u v where p: "positiveScaleInt64 (amtValue b) (amtScale b - amtScale a) = (u, True)"
      and s: "int64Add (amtValue a) u = (v, True)" and c: "c = a\<lparr>amtValue := v\<rparr>"
      using assms(3) by (auto simp: amtAdd_def split: prod.splits if_splits)
    have u: "u = amtValue b * 10 ^ nat (amtScale b - amtScale a)" "in64 u"
      using positiveScaleInt64_sound [OF assms(2) _ p] 5 by auto
    show ?thesis
      using int64Add_sound [OF assms(1) u(2) s] u c powi_split [of "amtScale a" "amtScale b"] 5
      by (simp add: algebra_simps)
  qed (use assms in \<open>auto simp: amtAdd_def\<close>)
  then show "qrat (IntQ c) = qrat (IntQ a) + qrat (IntQ b)" "in64 (amtValue c)" by auto
qed

lemma Add_value:
  assumes "quantity_ok x" "quantity_ok y"
  shows "qrat (Add x y) = qrat x + qrat y" "quantity_ok (Add x y)"
proof -
  have "qrat (Add x y) = qrat x + qrat y \<and> quantity_ok (Add x y)"
  proof (cases "\<exists>a b c. x = IntQ a \<and> y = IntQ b \<and> amtAdd a b = Some c")
    case True
    then obtain a b c where "x = IntQ a" "y = IntQ b" "amtAdd a b = Some c" by blast
    then show ?thesis using amtAdd_sound [of a b c] assms by (simp add: Add_def)
  next
    case False
    then have "Add x y = DecQ (Dec_Add (AsDec x) (AsDec y))"
      by (cases x; cases y) (auto simp: Add_def split: option.splits)
    then show ?thesis by (simp only: Dec_Add_value qrat_AsDec quantity_ok.simps)
  qed
  then show "qrat (Add x y) = qrat x + qrat y" "quantity_ok (Add x y)" by auto
qed

section \<open>Milli-cores of a quantity\<close>

lemma mult_sdiv: "0 \<le> a \<Longrightarrow> 0 < b \<Longrightarrow> a * b sdiv b = (a :: int)"
  by (simp add: sdiv_nonneg)

lemma int64MultiplyScale_complete:
  assumes "0 \<le> a" "2 \<le> b" "in64 (a * b)"
  shows "int64MultiplyScale a b = (a * b, True)"
proof -
  have "div64 (a * b) b = a" using assms by (simp add: div64_id mult_sdiv)
  then show ?thesis
    using assms by (simp add: int64MultiplyScale_def mostNegative_def mul64_id Let_def)
qed

lemma in64_smaller: "0 \<le> x \<Longrightarrow> x \<le> y \<Longrightarrow> in64 y \<Longrightarrow> in64 x"
  by (auto simp: in64_def)

lemma scaleUpLoop_complete:
  "0 \<le> v \<Longrightarrow> in64 (v * 10 ^ n) \<Longrightarrow> scaleUpLoop n v = (v * 10 ^ n, True)"
proof (induction n arbitrary: v)
  case (Suc n)
  have "v * 10 \<le> v * 10 * 10 ^ n" using Suc.prems(1) mult_left_mono [of 1 "10 ^ n" "v * 10"] by simp
  then have "in64 (v * 10)" using Suc.prems in64_smaller [of "v * 10" "v * 10 * 10 ^ n"]
    by (simp add: mult.assoc)
  then have "int64MultiplyScale v 10 = (v * 10, True)"
    using Suc.prems(1) by (intro int64MultiplyScale_complete) auto
  then show ?case using Suc.IH [of "v * 10"] Suc.prems by (simp add: mult.assoc)
qed simp

lemma positiveScaleInt64_complete:
  assumes "0 \<le> v" "0 \<le> s" "in64 (v * 10 ^ nat s)"
  shows "positiveScaleInt64 v s = (v * 10 ^ nat s, True)"
proof -
  have m: "int64MultiplyScale v b = (v * b, True)" if "10 ^ nat s = b" "2 \<le> b" for b
    using int64MultiplyScale_complete [OF assms(1) that(2)] assms(3) that(1) by simp
  show ?thesis
    using scaleUpLoop_complete [OF assms(1,3)] m [of 10] m [of 100] m [of 1000] m [of 1000000] m [of 1000000000]
    by (auto simp: positiveScaleInt64_def int64MultiplyScale_10_100_1000)
qed

definition cdiv :: "int \<Rightarrow> int \<Rightarrow> int" where
  "cdiv v D = (if D dvd v then v div D else v div D + 1)"

lemma cdiv_ceiling: "0 < D \<Longrightarrow> cdiv v D = \<lceil>of_int v / of_int D :: rat\<rceil>"
proof -
  assume D: "0 < D"
  have "\<lceil>of_int v / of_int D :: rat\<rceil> = - (- v div D)" by (simp add: ceiling_divide_eq_div)
  also have "\<dots> = cdiv v D" using D by (simp add: cdiv_def zdiv_zminus1_eq_if dvd_eq_mod_eq_0)
  finally show ?thesis by simp
qed

lemma smod_zero_iff: "(v smod D = 0) = (D dvd (v :: int))"
  by (simp add: signed_modulo_int_def sgn_if dvd_eq_mod_eq_0 [symmetric])

lemma scaleDownLoop_value:
  assumes "0 < base"
  shows "0 \<le> v \<Longrightarrow> v < 2 ^ 63 \<Longrightarrow> (f \<Longrightarrow> v \<le> 2 ^ 60) \<Longrightarrow>
    fst (scaleDownLoop base n v f) = (if f \<or> \<not> 10 ^ n dvd v then v div 10 ^ n + 1 else v div 10 ^ n)"
proof (induction n arbitrary: v f)
  case 0
  have "f \<Longrightarrow> add64 v 1 = v + 1" using 0 by (intro add64_id) (auto simp: in64_def)
  then show ?case using assms by simp
next
  case (Suc n)
  let ?f = "f \<or> \<not> 10 dvd v"
  have d: "div64 v 10 = v div 10" using Suc.prems by (intro div64_pos) auto
  have q: "v div 10 ^ Suc n = v div 10 div 10 ^ n" by (simp add: zdiv_zmult2_eq)
  have dv: "10 ^ Suc n dvd v \<longleftrightarrow> 10 dvd v \<and> 10 ^ n dvd v div 10"
    by (metis dvd_mult_left dvd_mult_div_cancel dvd_times_left_cancel_iff power_Suc
        zero_neq_numeral dvd_triv_left dvd_div_iff_mult mult.commute)
  show ?case
  proof (cases "v div 10 = 0")
    case True
    then have "10 dvd v \<Longrightarrow> v = 0" using Suc.prems(1) by auto
    then show ?thesis using True assms d q dv by (auto simp: Let_def smod_zero_iff)
  next
    case False
    have b: "0 \<le> v div 10" "v div 10 < 2 ^ 63" "v div 10 \<le> 2 ^ 60" using Suc.prems(1,2) by auto
    have "fst (scaleDownLoop base (Suc n) v f) = fst (scaleDownLoop base n (v div 10) ?f)"
      using False by (simp add: d Let_def smod_zero_iff)
    then show ?thesis using Suc.IH [OF b(1,2), of ?f] b(3) unfolding q dv by auto
  qed
qed

lemma negativeScaleInt64_value:
  assumes "0 \<le> v" "v < 2 ^ 63" "0 < s"
  shows "fst (negativeScaleInt64 v s) = cdiv v (10 ^ nat s)"
proof (cases "v = 0")
  case True
  obtain n where "nat s = Suc n" using assms(3) by (metis Suc_pred zero_less_nat_eq)
  then show ?thesis
    using True assms(3) by (simp add: negativeScaleInt64_def cdiv_def smod_zero_iff div64_def wrap64_def)
next
  case False
  then show ?thesis
    using assms scaleDownLoop_value [of v v False "nat s"] by (simp add: negativeScaleInt64_def cdiv_def)
qed

lemma fnorm_pow10:
  assumes "n \<le> 22"
  shows "fnorm (10 ^ n) = F (10 ^ n)"
proof -
  have "(5 :: int) ^ n \<le> 5 ^ 22" using assms by (intro power_increasing) auto
  then have "\<bar>(5 :: int) ^ n\<bar> \<le> 2 ^ 53" by simp
  moreover have "(10 :: rat) ^ n = of_int (5 ^ n) * pow2 (int n)"
    by (simp add: power_int_def flip: power_mult_distrib)
  ultimately have "repr64 (10 ^ n)" by (intro repr64I [of _ "5 ^ n" "int n"]) auto
  then have "rnd64 (10 ^ n) = 10 ^ n" by (rule rnd64_repr)
  moreover have "(10 :: rat) ^ n \<le> 10 ^ 22" using assms by (intro power_increasing) auto
  ultimately show ?thesis by (subst fnorm_small) auto
qed

lemma Pow10_exact:
  assumes "0 \<le> n" "n \<le> 22"
  shows "Pow10 n = F (10 ^ nat n)"
proof -
  have "n div 32 = 0" "n mod 32 = n" using assms by auto
  moreover have "fnorm (10 ^ nat n) = F (10 ^ nat n)" using assms by (intro fnorm_pow10) auto
  moreover have "fnorm 1 = F 1" using fnorm_pow10 [of 0] by simp
  ultimately show ?thesis using assms by (simp add: Pow10_def)
qed

lemma int_of_Pow10:
  assumes "0 \<le> n" "n \<le> 18"
  shows "int_of_float (Pow10 n) = 10 ^ nat n"
proof -
  have "(10 :: int) ^ nat n \<le> 10 ^ 18" using assms by (intro power_increasing) auto
  then have "10 ^ nat n < (2 ^ 63 :: int)" by simp
  moreover have "- (2 ^ 63) \<le> (10 :: int) ^ nat n" by (rule order.trans [of _ 0]) auto
  ultimately have "in64 (10 ^ nat n)" by (simp only: in64_def)
  then show ?thesis using assms trunc_of_int [of "10 ^ nat n"] by (simp add: Pow10_exact)
qed

text \<open>A scale coarser and one finer than a milli-unit.\<close>

lemma scaledValue_up:
  assumes "0 \<le> u" "of_int u * 10 powi (3 - s) \<le> (of_int MaxInt64 :: rat)" and s: "s < 3"
  shows "scaledValue u s 3 = \<lceil>of_int u * 10 powi (3 - s) :: rat\<rceil>"
proof -
  define d where "d = 3 - s"
  have d: "0 < d" using s by (simp add: d_def)
  have v: "of_int u * 10 powi (3 - s) = (of_int (u * 10 ^ nat d) :: rat)"
    using d by (simp add: power_int_def flip: d_def)
  then have le: "u * 10 ^ nat d \<le> MaxInt64" using assms(2) by (simp only: of_int_le_iff)
  show ?thesis
  proof (cases "u = 0")
    case True
    then show ?thesis using s by (simp add: scaledValue_def mul64_def wrap64_id in64_def)
  next
    case False
    then have u: "1 \<le> u" using assms(1) by simp
    have "10 ^ nat d \<le> u * 10 ^ nat d" using u mult_right_mono [of 1 u "10 ^ nat d"] by simp
    also have "\<dots> < 10 ^ 19" using le by (simp add: MaxInt64_def)
    finally have p: "(10 :: int) ^ nat d < 10 ^ 19" .
    then have "nat d < 19" by (rule power_less_imp_less_exp [rotated]) simp
    then have e: "int_of_float (Pow10 d) = 10 ^ nat d" using d by (intro int_of_Pow10) auto
    have uu: "u \<le> u * 10 ^ nat d" using u mult_left_mono [of 1 "10 ^ nat d" u] by simp
    have "in64 u" using u by (intro in64I order.trans [OF uu le]) simp
    moreover have "in64 (u * 10 ^ nat d)" using u le by (intro in64I) auto
    ultimately have "scaledValue u s 3 = u * 10 ^ nat d"
      using s e by (simp add: scaledValue_def mul64_id wrap64_id d_def)
    then show ?thesis by (simp only: v ceiling_of_int)
  qed
qed

lemma scaledValue_down:
  assumes "0 \<le> u" "of_int u * 10 powi (3 - s) \<le> (of_int MaxInt64 :: rat)" and s: "3 < s"
  shows "scaledValue u s 3 = \<lceil>of_int u * 10 powi (3 - s) :: rat\<rceil>"
proof -
  define d where "d = s - 3"
  have d: "0 < d" using s by (simp add: d_def)
  have "(10 :: rat) powi (3 - s) = 1 / of_int (10 ^ nat d)"
    using d power_int_minus [of "10 :: rat" d] by (simp add: power_int_def d_def inverse_eq_divide)
  then have v: "of_int u * 10 powi (3 - s) = (of_int u / of_int (10 ^ nat d) :: rat)" by simp
  then have c: "\<lceil>of_int u * 10 powi (3 - s) :: rat\<rceil> = cdiv u (10 ^ nat d)"
    using cdiv_ceiling [of "10 ^ nat d" u] by simp
  have "cdiv u (10 ^ nat d) \<le> MaxInt64"
    using assms(2) by (simp add: c [symmetric] ceiling_le_iff)
  moreover have q: "0 \<le> u div 10 ^ nat d" using assms(1) by (simp add: pos_imp_zdiv_nonneg_iff)
  ultimately have i: "in64 (u div 10 ^ nat d)" "in64 (cdiv u (10 ^ nat d))"
    by (auto simp: cdiv_def in64_def MaxInt64_def split: if_splits)
  have "scaledValue u s 3 = cdiv u (10 ^ nat d)"
  proof (cases "u < MaxInt64 \<and> d < 19")
    case True
    then have "in64 u" using assms(1) by (simp add: in64_def MaxInt64_def)
    moreover have "int_of_float (Pow10 d) = 10 ^ nat d" using True d by (intro int_of_Pow10) auto
    moreover have "div64 u (10 ^ nat d) = u div 10 ^ nat d"
      using True assms(1) by (intro div64_pos) (auto simp: MaxInt64_def)
    moreover have "\<not> 10 ^ nat d dvd u \<Longrightarrow> add64 (u div 10 ^ nat d) 1 = u div 10 ^ nat d + 1"
      using i(2) by (intro add64_id) (simp add: cdiv_def)
    ultimately show ?thesis
      using True d by (simp add: scaledValue_def wrap64_id cdiv_def smod_zero_iff Let_def flip: d_def)
  next
    case False
    have "\<not> 10 ^ nat d dvd u \<Longrightarrow> add64 (u div 10 ^ nat d) 1 = u div 10 ^ nat d + 1"
      using i(2) by (intro add64_id) (simp add: cdiv_def)
    then show ?thesis
      using False d i(1) by (auto simp: scaledValue_def wrap64_id cdiv_def dvd_eq_mod_eq_0 Let_def simp flip: d_def)
  qed
  then show ?thesis by (simp only: c)
qed

lemma scaledValue_value:
  assumes "0 \<le> u" "of_int u * 10 powi (3 - s) \<le> (of_int MaxInt64 :: rat)"
  shows "scaledValue u s 3 = \<lceil>of_int u * 10 powi (3 - s) :: rat\<rceil>"
proof -
  consider "s = 3" | "s < 3" | "3 < s" by linarith
  then show ?thesis
  proof cases
    case 1
    then have "in64 u" using assms by (simp add: in64_def MaxInt64_def)
    then show ?thesis using 1 by (simp add: scaledValue_def wrap64_id)
  next
    case 2
    then show ?thesis using assms by (intro scaledValue_up)
  next
    case 3
    then show ?thesis using assms by (intro scaledValue_down)
  qed
qed

lemma MilliValue_value:
  assumes "quantity_ok q" "0 \<le> qrat q" "qrat q * 1000 \<le> of_int MaxInt64"
  shows "MilliValue q = \<lceil>qrat q * 1000\<rceil>"
proof (cases q)
  case (DecQ d)
  have "qrat q * 1000 = of_int (decUnscaled d) * 10 powi (3 - decScale d)"
    using DecQ by (simp add: power_int_diff power_int_minus field_simps)
  moreover have "0 \<le> decUnscaled d"
    using assms(2) DecQ by (simp add: mult_powi_nonneg)
  ultimately show ?thesis
    using scaledValue_value [of "decUnscaled d" "decScale d"] assms(3) DecQ
    by (simp only: MilliValue_def ScaledValue_def Quantity.case minus_minus)
next
  case (IntQ a)
  let ?v = "amtValue a" and ?s = "amtScale a"
  have v: "0 \<le> ?v" "?v < 2 ^ 63"
    using assms(1,2) IntQ by (auto simp: mult_powi_nonneg in64_def)
  have e: "qrat q * 1000 = of_int ?v * 10 powi (?s + 3)"
    using IntQ by (simp add: power_int_add)
  show ?thesis
  proof (cases "?s < - 3")
    case True
    define d where "d = - 3 - ?s"
    have d: "0 < d" using True by (simp add: d_def)
    have "(10 :: rat) powi (?s + 3) = 1 / of_int (10 ^ nat d)"
      using d power_int_minus [of "10 :: rat" d]
      by (simp add: power_int_def d_def inverse_eq_divide add.commute)
    then have "\<lceil>qrat q * 1000\<rceil> = cdiv ?v (10 ^ nat d)"
      using cdiv_ceiling [of "10 ^ nat d" ?v] by (simp add: e)
    then show ?thesis
      using True IntQ v negativeScaleInt64_value [OF v d]
      by (simp add: MilliValue_def ScaledValue_def AsScaledInt64_def d_def)
  next
    case False
    define d where "d = ?s + 3"
    have d: "0 \<le> d" using False by (simp add: d_def)
    have r: "qrat q * 1000 = of_int (?v * 10 ^ nat d)"
      using d by (simp add: e power_int_def flip: d_def)
    then have "?v * 10 ^ nat d \<le> MaxInt64" using assms(3) by (simp only: of_int_le_iff)
    then have "in64 (?v * 10 ^ nat d)" using v by (intro in64I) auto
    then have "fst (positiveScaleInt64 ?v d) = ?v * 10 ^ nat d"
      using positiveScaleInt64_complete [OF v(1) d] by simp
    then show ?thesis
      using False IntQ unfolding r ceiling_of_int
      by (simp add: MilliValue_def ScaledValue_def AsScaledInt64_def d_def add.commute)
  qed
qed

lemma MilliValue_NewMilliQuantity [simp]: "MilliValue (NewMilliQuantity v) = v"
  by (simp add: MilliValue_def ScaledValue_def NewMilliQuantity_def AsScaledInt64_def positiveScaleInt64_def)

lemma MilliValue_zeroQ [simp]: "MilliValue zeroQ = 0"
  by (simp add: MilliValue_def ScaledValue_def zeroQ_def AsScaledInt64_def positiveScaleInt64_def
      int64MultiplyScale1000_def mul64_def wrap64_def)

lemma quantity_simps [simp]:
  "qrat zeroQ = 0" "quantity_ok zeroQ" "qrat (NewMilliQuantity v) = of_int v / 1000"
  "quantity_ok (NewMilliQuantity v) = in64 v"
  by (simp_all add: zeroQ_def NewMilliQuantity_def in64_def)

end
