(* ===== verification/KubeTypes.thy ===== *)
theory KubeTypes
  imports Quantity
begin

text \<open>
  The Kubernetes objects the program reads, reduced to the fields it reads
  (\<open>vendor/k8s.io/api/core/v1\<close>, \<open>vendor/k8s.io/apimachinery\<close>), label selectors with
  their validation, and the configuration API (\<open>api/v1alpha1\<close>). A nil pointer or a map
  whose nilness the code tests is an option; the metadata, spec and status of a pod are
  one record.
\<close>

section \<open>Core objects\<close>

type_synonym ResourceList = "(string, Quantity) gomap"

definition ResourceCPU :: string where
  "ResourceCPU = ''cpu''"

definition ResourceMemory :: string where
  "ResourceMemory = ''memory''"

text \<open>Ranging over, or looking up in, a nil map is ranging over the empty one.\<close>

definition entries :: "ResourceList option \<Rightarrow> ResourceList" where
  "entries m = (case m of None \<Rightarrow> [] | Some l \<Rightarrow> l)"

definition resourceNamed :: "string \<Rightarrow> ResourceList option \<Rightarrow> Quantity" where
  "resourceNamed n m = (case mget (entries m) n of Some q \<Rightarrow> q | None \<Rightarrow> zeroQ)"

definition Cpu :: "ResourceList option \<Rightarrow> Quantity" where
  "Cpu m = resourceNamed ResourceCPU m"

definition Memory :: "ResourceList option \<Rightarrow> Quantity" where
  "Memory m = resourceNamed ResourceMemory m"

record ResourceRequirements =
  Requests :: "ResourceList option"
  Limits :: "ResourceList option"

record ContainerResizePolicy =
  rpResourceName :: string
  rpRestartPolicy :: string

record Container =
  cName :: string
  cResources :: ResourceRequirements
  cRestartPolicy :: "string option"
  cResizePolicy :: "ContainerResizePolicy list"

record ContainerStatus =
  csName :: string
  csAllocatedResources :: "ResourceList option"
  csResources :: "ResourceRequirements option"

record PodCondition =
  pcType :: string
  pcReason :: string

record OwnerReference =
  refAPIVersion :: string
  refKind :: string
  refName :: string
  refUID :: string
  refController :: "bool option"
  refBlockOwnerDeletion :: "bool option"

record Pod =
  pNamespace :: string
  pName :: string
  pGenerateName :: string
  pUID :: string
  pLabels :: "(string, string) gomap"
  pAnnotations :: "(string, string) gomap"
  pOwnerReferences :: "OwnerReference list"
  pNodeName :: string
  pContainers :: "Container list"
  pInitContainers :: "Container list"
  pResources :: "ResourceRequirements option"
  pOverhead :: "ResourceList option"
  pPhase :: string
  pQOSClass :: string
  pConditions :: "PodCondition list"
  pContainerStatuses :: "ContainerStatus list"
  pInitContainerStatuses :: "ContainerStatus list"
  pStatusResources :: "ResourceRequirements option"
  pStatusAllocated :: "ResourceList option"

record Node =
  nName :: string
  nLabels :: "(string, string) gomap"
  nAllocatable :: "ResourceList option"
  nOperatingSystem :: string

record Namespace =
  nsName :: string
  nsLabels :: "(string, string) gomap"

record LimitRangeItem =
  lrType :: string
  lrMax :: ResourceList
  lrMaxLimitRequestRatio :: ResourceList

record LimitRange =
  lrNamespace :: string
  lrLimits :: "LimitRangeItem list"

text \<open>A missing key of a string map reads as the empty string.\<close>

definition strGet :: "(string, string) gomap \<Rightarrow> string \<Rightarrow> string" where
  "strGet m k = (case mget m k of Some v \<Rightarrow> v | None \<Rightarrow> '''')"

definition podKey :: "Pod \<Rightarrow> string" where
  "podKey pod = pNamespace pod @ ''/'' @ pName pod"

definition isRestartableInitContainer :: "Container \<Rightarrow> bool" where
  "isRestartableInitContainer c \<longleftrightarrow> cRestartPolicy c = Some ''Always''"

text \<open>The first owner reference marked as the controller.\<close>

definition GetControllerOf :: "Pod \<Rightarrow> OwnerReference option" where
  "GetControllerOf pod = find (\<lambda>r. refController r = Some True) (pOwnerReferences pod)"

section \<open>Errors of the API server\<close>

datatype apiError = NotFound string | Conflict string | Forbidden string | NoMatch string | OtherError string

fun errorText :: "apiError \<Rightarrow> string" where
  "errorText (NotFound m) = m"
| "errorText (Conflict m) = m"
| "errorText (Forbidden m) = m"
| "errorText (NoMatch m) = m"
| "errorText (OtherError m) = m"

section \<open>Label selectors\<close>

record LabelSelectorRequirement =
  selKey :: string
  selOperator :: string
  selValues :: "string list"

record LabelSelector =
  MatchLabels :: "(string, string) gomap"
  MatchExpressions :: "LabelSelectorRequirement list"

datatype selOp = OpEquals | OpIn | OpNotIn | OpExists | OpDoesNotExist

record Requirement =
  reqKey :: string
  reqOp :: selOp
  reqValues :: "string list"

definition isLower :: "char \<Rightarrow> bool" where
  "isLower c \<longleftrightarrow> c \<in> set ''abcdefghijklmnopqrstuvwxyz''"

definition isUpper :: "char \<Rightarrow> bool" where
  "isUpper c \<longleftrightarrow> c \<in> set ''ABCDEFGHIJKLMNOPQRSTUVWXYZ''"

definition isDigit :: "char \<Rightarrow> bool" where
  "isDigit c \<longleftrightarrow> c \<in> set ''0123456789''"

definition isAlnum :: "char \<Rightarrow> bool" where
  "isAlnum c \<longleftrightarrow> isLower c \<or> isUpper c \<or> isDigit c"

text \<open>The regular expression \<open>([A-Za-z0-9][-A-Za-z0-9_.]*)?[A-Za-z0-9]\<close>.\<close>

definition matchesQualifiedName :: "string \<Rightarrow> bool" where
  "matchesQualifiedName s \<longleftrightarrow> s \<noteq> [] \<and> isAlnum (hd s) \<and> isAlnum (last s)
     \<and> list_all (\<lambda>c. isAlnum c \<or> c \<in> set ''-_.'') s"

text \<open>The regular expression \<open>[a-z0-9]([-a-z0-9]*[a-z0-9])?\<close>.\<close>

definition matchesDNSLabel :: "string \<Rightarrow> bool" where
  "matchesDNSLabel s \<longleftrightarrow> s \<noteq> [] \<and> (isLower (hd s) \<or> isDigit (hd s)) \<and> (isLower (last s) \<or> isDigit (last s))
     \<and> list_all (\<lambda>c. isLower c \<or> isDigit c \<or> c = CHR ''-'') s"

fun splitOn :: "char \<Rightarrow> string \<Rightarrow> string list" where
  "splitOn sep [] = [[]]"
| "splitOn sep (c # cs) =
     (if c = sep then [] # splitOn sep cs
      else case splitOn sep cs of [] \<Rightarrow> [[c]] | p # ps \<Rightarrow> (c # p) # ps)"

definition IsDNS1123Subdomain :: "string \<Rightarrow> bool" where
  "IsDNS1123Subdomain s \<longleftrightarrow> length s \<le> 253 \<and> list_all matchesDNSLabel (splitOn (CHR ''.'') s)"

definition IsLabelKey :: "string \<Rightarrow> bool" where
  "IsLabelKey s =
     (case splitOn (CHR ''/'') s of
        [name] \<Rightarrow> name \<noteq> [] \<and> length name \<le> 63 \<and> matchesQualifiedName name
      | [prefix, name] \<Rightarrow> prefix \<noteq> [] \<and> IsDNS1123Subdomain prefix
          \<and> name \<noteq> [] \<and> length name \<le> 63 \<and> matchesQualifiedName name
      | _ \<Rightarrow> False)"

definition IsLabelValue :: "string \<Rightarrow> bool" where
  "IsLabelValue s \<longleftrightarrow> length s \<le> 63 \<and> (s = [] \<or> matchesQualifiedName s)"

definition NewRequirement :: "string \<Rightarrow> selOp \<Rightarrow> string list \<Rightarrow> Requirement option" where
  "NewRequirement key op vals =
     (if IsLabelKey key
        \<and> (case op of OpIn \<Rightarrow> vals \<noteq> [] | OpNotIn \<Rightarrow> vals \<noteq> []
           | OpEquals \<Rightarrow> length vals = 1
           | OpExists \<Rightarrow> vals = [] | OpDoesNotExist \<Rightarrow> vals = [])
        \<and> list_all IsLabelValue vals
      then Some \<lparr>reqKey = key, reqOp = op, reqValues = vals\<rparr> else None)"

definition Requirement_Matches :: "Requirement \<Rightarrow> (string, string) gomap \<Rightarrow> bool" where
  "Requirement_Matches r ls =
     (case reqOp r of
        OpIn \<Rightarrow> (case mget ls (reqKey r) of None \<Rightarrow> False | Some v \<Rightarrow> v \<in> set (reqValues r))
      | OpEquals \<Rightarrow> (case mget ls (reqKey r) of None \<Rightarrow> False | Some v \<Rightarrow> v \<in> set (reqValues r))
      | OpNotIn \<Rightarrow> (case mget ls (reqKey r) of None \<Rightarrow> True | Some v \<Rightarrow> v \<notin> set (reqValues r))
      | OpExists \<Rightarrow> mget ls (reqKey r) \<noteq> None
      | OpDoesNotExist \<Rightarrow> mget ls (reqKey r) = None)"

datatype Selector = NothingSel | Reqs "Requirement list"

definition Selector_Matches :: "Selector \<Rightarrow> (string, string) gomap \<Rightarrow> bool" where
  "Selector_Matches sel ls =
     (case sel of NothingSel \<Rightarrow> False | Reqs rs \<Rightarrow> list_all (\<lambda>r. Requirement_Matches r ls) rs)"

definition selectorOperator :: "string \<Rightarrow> selOp option" where
  "selectorOperator op =
     (if op = ''In'' then Some OpIn else if op = ''NotIn'' then Some OpNotIn
      else if op = ''Exists'' then Some OpExists
      else if op = ''DoesNotExist'' then Some OpDoesNotExist else None)"

fun collectReqs :: "Requirement option list \<Rightarrow> Requirement list option" where
  "collectReqs [] = Some []"
| "collectReqs (None # rs) = None"
| "collectReqs (Some r # rs) = map_option ((#) r) (collectReqs rs)"

text \<open>None is the error result.\<close>

definition LabelSelectorAsSelector :: "LabelSelector option \<Rightarrow> Selector option" where
  "LabelSelectorAsSelector ps =
     (case ps of None \<Rightarrow> Some NothingSel
      | Some s \<Rightarrow>
          if MatchLabels s = [] \<and> MatchExpressions s = [] then Some (Reqs [])
          else map_option Reqs (collectReqs
            (map (\<lambda>(k, v). NewRequirement k OpEquals [v]) (MatchLabels s)
             @ map (\<lambda>e. case selectorOperator (selOperator e) of None \<Rightarrow> None
                        | Some op \<Rightarrow> NewRequirement (selKey e) op (selValues e)) (MatchExpressions s))))"

section \<open>The configuration API\<close>

definition GroupName :: string where
  "GroupName = ''kube-headroom.dev''"

definition LabelMode :: string where
  "LabelMode = GroupName @ ''/mode''"

definition AnnotationStatus :: string where
  "AnnotationStatus = GroupName @ ''/status''"

definition AnnotationMaxCPU :: string where
  "AnnotationMaxCPU = GroupName @ ''/max-cpu''"

definition ModeManaged :: string where
  "ModeManaged = ''managed''"

definition ModeUnmanaged :: string where
  "ModeUnmanaged = ''unmanaged''"

definition SingletonName :: string where
  "SingletonName = ''cluster''"

record Deadband =
  GrowPercent :: int
  ShrinkPercent :: int

record ExcludedOwner =
  eoKind :: string
  eoAPIGroup :: string
  eoName :: string

record Webhook =
  whEnabled :: "bool option"
  whInitialMultiplier :: Quantity

record RateLimits =
  PerNodePatchesPerSecond :: int
  ClientQPS :: int
  ClientBurst :: int

record HeadroomConfigSpec =
  specPolicy :: string
  specDryRun :: "bool option"
  specMinBurstFloor :: Quantity
  specMaxMultiplier :: Quantity
  specQuantum :: Quantity
  specDeadband :: Deadband
  specDebouncePeriod :: int64
  specRateLimits :: RateLimits
  specWebhook :: Webhook
  specNamespaceSelector :: "LabelSelector option"
  specExcludedNamespaces :: "string list"
  specExcludedOwners :: "ExcludedOwner list"
  specExcludedNodeSelector :: "LabelSelector option"

record Condition =
  condType :: string
  condStatus :: string
  condObservedGeneration :: int64
  condLastTransitionTime :: int
  condReason :: string
  condMessage :: string

record HeadroomConfigStatus =
  stObservedGeneration :: int64
  stManagedPods :: int
  stManagedNodes :: int
  stConditions :: "Condition list"

record HeadroomConfig =
  hcGeneration :: int64
  hcSpec :: HeadroomConfigSpec
  hcStatus :: HeadroomConfigStatus

section \<open>Selectors: what a converted selector matches\<close>

text \<open>The selector semantics of the Kubernetes API reference, on one expression.\<close>

definition expressionHolds :: "LabelSelectorRequirement \<Rightarrow> (string, string) gomap \<Rightarrow> bool" where
  "expressionHolds e ls \<longleftrightarrow>
     selOperator e = ''In'' \<and> (\<exists>v \<in> set (selValues e). mget ls (selKey e) = Some v)
   \<or> selOperator e = ''NotIn'' \<and> \<not> (\<exists>v \<in> set (selValues e). mget ls (selKey e) = Some v)
   \<or> selOperator e = ''Exists'' \<and> mget ls (selKey e) \<noteq> None
   \<or> selOperator e = ''DoesNotExist'' \<and> mget ls (selKey e) = None"

lemma collectReqs_Some: "collectReqs rs = Some xs \<longleftrightarrow> rs = map Some xs"
proof (induction rs arbitrary: xs)
  case Nil
  then show ?case by (cases xs) auto
next
  case (Cons r rs)
  then show ?case by (cases r; cases xs) auto
qed

lemma NewRequirement_Some:
  "NewRequirement k op vs = Some r \<Longrightarrow> r = \<lparr>reqKey = k, reqOp = op, reqValues = vs\<rparr>"
  by (simp add: NewRequirement_def split: if_splits)

lemma Equals_Matches:
  "NewRequirement k OpEquals [v] = Some r \<Longrightarrow> Requirement_Matches r ls \<longleftrightarrow> mget ls k = Some v"
  by (drule NewRequirement_Some) (auto simp: Requirement_Matches_def split: option.splits)

lemma expression_Matches:
  "selectorOperator (selOperator e) = Some op \<Longrightarrow> NewRequirement (selKey e) op (selValues e) = Some r \<Longrightarrow>
   Requirement_Matches r ls \<longleftrightarrow> expressionHolds e ls"
  by (drule NewRequirement_Some)
    (auto simp: Requirement_Matches_def expressionHolds_def selectorOperator_def
      split: option.splits if_splits)

lemma selector_Matches:
  assumes "LabelSelectorAsSelector (Some s) = Some sel"
  shows "Selector_Matches sel ls \<longleftrightarrow>
    list_all (\<lambda>(k, v). mget ls k = Some v) (MatchLabels s)
    \<and> list_all (\<lambda>e. expressionHolds e ls) (MatchExpressions s)"
proof (cases "MatchLabels s = [] \<and> MatchExpressions s = []")
  case True
  then show ?thesis using assms by (auto simp: LabelSelectorAsSelector_def Selector_Matches_def)
next
  case False
  let ?f = "\<lambda>(k, v). NewRequirement k OpEquals [v]"
  let ?g = "\<lambda>e. case selectorOperator (selOperator e) of None \<Rightarrow> None
               | Some op \<Rightarrow> NewRequirement (selKey e) op (selValues e)"
  obtain rs where sel: "sel = Reqs rs"
    and rs: "map ?f (MatchLabels s) @ map ?g (MatchExpressions s) = map Some rs"
    using assms False by (auto simp: LabelSelectorAsSelector_def collectReqs_Some)
  obtain rs1 rs2 where split: "rs = rs1 @ rs2" and r1: "map ?f (MatchLabels s) = map Some rs1"
    and r2: "map ?g (MatchExpressions s) = map Some rs2"
    using rs [symmetric] by (auto simp: map_eq_append_conv)
  have l1: "list_all (\<lambda>r. Requirement_Matches r ls) ys \<longleftrightarrow> list_all (\<lambda>(k, v). mget ls k = Some v) xs"
    if "map ?f xs = map Some ys" for xs ys
    using that by (induction xs arbitrary: ys) (auto simp: Cons_eq_map_conv Equals_Matches)
  have l2: "list_all (\<lambda>r. Requirement_Matches r ls) ys \<longleftrightarrow> list_all (\<lambda>e. expressionHolds e ls) xs"
    if "map ?g xs = map Some ys" for xs ys
    using that by (induction xs arbitrary: ys)
      (auto simp: Cons_eq_map_conv expression_Matches split: option.splits)
  show ?thesis by (simp add: sel split Selector_Matches_def l1 [OF r1] l2 [OF r2])
qed

end
