(* ===== verification/PodResources.thy ===== *)
theory PodResources
  imports KubeTypes
begin

text \<open>
  What the scheduler books for a pod: \<open>PodRequests\<close> of
  \<open>vendor/k8s.io/component-helpers/resource/helpers.go\<close>, with the options the program
  passes; the options it leaves at their zero value (reuse, non-missing requests, the
  skips and the DRA claim status) are left out. The lemmas read a resource list as a
  rational amount per resource and show which aggregate the maps compute.
\<close>

section \<open>Resource lists\<close>

definition addResource :: "string \<times> Quantity \<Rightarrow> ResourceList \<Rightarrow> ResourceList" where
  "addResource kv l =
     (case kv of (k, q) \<Rightarrow>
        (case mget l k of None \<Rightarrow> mput k q l | Some v \<Rightarrow> mput k (Add v q) l))"

definition addResourceList :: "ResourceList \<Rightarrow> ResourceList \<Rightarrow> ResourceList" where
  "addResourceList l new = fold addResource new l"

definition maxResource :: "string \<times> Quantity \<Rightarrow> ResourceList \<Rightarrow> ResourceList" where
  "maxResource kv l =
     (case kv of (k, q) \<Rightarrow>
        (case mget l k of None \<Rightarrow> mput k q l | Some v \<Rightarrow> if Cmp q v > 0 then mput k q l else l))"

definition maxResourceList :: "ResourceList \<Rightarrow> ResourceList \<Rightarrow> ResourceList" where
  "maxResourceList l new = fold maxResource new l"

definition maxOfLists :: "ResourceList option \<Rightarrow> ResourceList option list \<Rightarrow> ResourceList" where
  "maxOfLists a bs = foldl (\<lambda>acc b. maxResourceList acc (entries b)) (entries a) bs"

section \<open>Pod requests\<close>

record PodResourcesOptions =
  UseStatusResources :: bool
  InPlacePodLevelResourcesVerticalScalingEnabled :: bool
  ExcludeOverhead :: bool

definition IsSupportedPodLevelResource :: "string \<Rightarrow> bool" where
  "IsSupportedPodLevelResource n \<longleftrightarrow>
     n = ResourceCPU \<or> n = ResourceMemory \<or> take 10 n = ''hugepages-''"

definition IsPodLevelRequestsSet :: "Pod \<Rightarrow> bool" where
  "IsPodLevelRequestsSet pod =
     (case pResources pod of None \<Rightarrow> False
      | Some r \<Rightarrow> list_ex (\<lambda>(k, q). IsSupportedPodLevelResource k) (entries (Requests r)))"

fun firstPending :: "PodCondition list \<Rightarrow> PodCondition option" where
  "firstPending [] = None"
| "firstPending (c # cs) = (if pcType c = ''PodResizePending'' then Some c else firstPending cs)"

definition IsPodResizeInfeasible :: "Pod \<Rightarrow> bool" where
  "IsPodResizeInfeasible pod =
     (case firstPending (pConditions pod) of None \<Rightarrow> False | Some c \<Rightarrow> pcReason c = ''Infeasible'')"

definition findContainerStatus :: "Pod \<Rightarrow> string \<Rightarrow> ContainerStatus option" where
  "findContainerStatus pod name =
     (case find (\<lambda>s. csName s = name) (pContainerStatuses pod) of Some s \<Rightarrow> Some s
      | None \<Rightarrow> find (\<lambda>s. csName s = name) (pInitContainerStatuses pod))"

type_synonym getResources = "Container \<Rightarrow> ContainerStatus option \<Rightarrow> bool \<Rightarrow> ResourceList option"

definition containerSpecRequests :: getResources where
  "containerSpecRequests c cs infeasible = Requests (cResources c)"

definition containerAllocatedRequests :: getResources where
  "containerAllocatedRequests c cs infeasible =
     (case cs of
        Some s \<Rightarrow> (case csAllocatedResources s of Some a \<Rightarrow> Some a
                   | None \<Rightarrow> if infeasible then None else Requests (cResources c))
      | None \<Rightarrow> if infeasible then None else Requests (cResources c))"

definition containerActuatedRequests :: getResources where
  "containerActuatedRequests c cs infeasible =
     (case cs of
        Some s \<Rightarrow>
          (case (case csResources s of Some r \<Rightarrow> Requests r | None \<Rightarrow> None) of
             Some a \<Rightarrow> Some a
           | None \<Rightarrow> (case csAllocatedResources s of Some a \<Rightarrow> Some a
                      | None \<Rightarrow> if infeasible then None else Requests (cResources c)))
      | None \<Rightarrow> if infeasible then None else Requests (cResources c))"

definition resourcesOf :: "Pod \<Rightarrow> PodResourcesOptions \<Rightarrow> getResources \<Rightarrow> Container \<Rightarrow> ResourceList" where
  "resourcesOf pod opts get c =
     entries (get c (if UseStatusResources opts then findContainerStatus pod (cName c) else None)
                    (UseStatusResources opts \<and> IsPodResizeInfeasible pod))"

text \<open>The loop over the init containers: the running total, the restartable ones so far,
  and the peak while initializing.\<close>

fun initLoop :: "(Container \<Rightarrow> ResourceList) \<Rightarrow> Container list \<Rightarrow>
    ResourceList \<times> ResourceList \<times> ResourceList \<Rightarrow> ResourceList \<times> ResourceList \<times> ResourceList" where
  "initLoop res [] acc = acc"
| "initLoop res (c # cs) (result, restartable, peak) =
     (if isRestartableInitContainer c then
        (let result = addResourceList result (res c);
             restartable = addResourceList restartable (res c)
         in initLoop res cs (result, restartable, maxResourceList peak restartable))
      else
        (let combined = addResourceList (addResourceList [] (res c)) restartable
         in initLoop res cs (result, restartable, maxResourceList peak combined)))"

definition aggregateContainerResourcesByFn ::
  "Pod \<Rightarrow> PodResourcesOptions \<Rightarrow> getResources \<Rightarrow> ResourceList" where
  "aggregateContainerResourcesByFn pod opts get =
     (let res = resourcesOf pod opts get;
          result = foldl (\<lambda>acc c. addResourceList acc (res c)) [] (pContainers pod);
          (result, restartable, peak) = initLoop res (pInitContainers pod) (result, [], [])
      in maxResourceList result peak)"

definition AggregateContainerRequests :: "Pod \<Rightarrow> PodResourcesOptions \<Rightarrow> ResourceList" where
  "AggregateContainerRequests pod opts =
     (if \<not> UseStatusResources opts
      then addResourceList [] (aggregateContainerResourcesByFn pod opts containerSpecRequests)
      else
        let specReqs = aggregateContainerResourcesByFn pod opts containerSpecRequests;
            (allocatedReqs, actuatedReqs) =
              (case (InPlacePodLevelResourcesVerticalScalingEnabled opts, pStatusAllocated pod,
                     case pStatusResources pod of Some r \<Rightarrow> Requests r | None \<Rightarrow> None) of
                 (True, Some allocated, Some actuated) \<Rightarrow> (allocated, actuated)
               | _ \<Rightarrow> (aggregateContainerResourcesByFn pod opts containerAllocatedRequests,
                       aggregateContainerResourcesByFn pod opts containerActuatedRequests))
        in if IsPodResizeInfeasible pod
           then addResourceList [] (maxOfLists (Some actuatedReqs) [Some allocatedReqs])
           else addResourceList [] (maxOfLists (Some specReqs) [Some actuatedReqs, Some allocatedReqs]))"

definition effectivePodLevelResources :: "Pod \<Rightarrow> ResourceList option \<Rightarrow> ResourceList option list \<Rightarrow> ResourceList" where
  "effectivePodLevelResources pod spec statuses =
     maxOfLists (if IsPodResizeInfeasible pod then None else spec) statuses"

definition applyPodLevelResources :: "ResourceList \<Rightarrow> ResourceList \<Rightarrow> ResourceList" where
  "applyPodLevelResources result effective =
     fold (\<lambda>(k, q) acc. if IsSupportedPodLevelResource k then mput k q acc else acc) effective result"

definition PodRequests :: "Pod \<Rightarrow> PodResourcesOptions \<Rightarrow> ResourceList" where
  "PodRequests pod opts =
     (let reqs = AggregateContainerRequests pod opts;
          reqs =
            (case pResources pod of
               Some r \<Rightarrow>
                 if IsPodLevelRequestsSet pod then
                   applyPodLevelResources reqs
                     (case pStatusResources pod of
                        Some sr \<Rightarrow>
                          if InPlacePodLevelResourcesVerticalScalingEnabled opts \<and> UseStatusResources opts
                          then effectivePodLevelResources pod (Requests r) [Requests sr, pStatusAllocated pod]
                          else entries (Requests r)
                      | None \<Rightarrow> entries (Requests r))
                 else reqs
             | None \<Rightarrow> reqs)
      in if \<not> ExcludeOverhead opts
         then (case pOverhead pod of Some oh \<Rightarrow> addResourceList reqs oh | None \<Rightarrow> reqs)
         else reqs)"

section \<open>Amounts\<close>

definition amount :: "ResourceList \<Rightarrow> string \<Rightarrow> rat" where
  "amount l k = (case mget l k of None \<Rightarrow> 0 | Some q \<Rightarrow> qrat q)"

definition list_ok :: "ResourceList \<Rightarrow> bool" where
  "list_ok l \<longleftrightarrow> gomap_ok l \<and> list_all (\<lambda>(k, q). quantity_ok q \<and> 0 \<le> qrat q) l"

lemma list_okD:
  "list_ok l \<Longrightarrow> mget l k = Some q \<Longrightarrow> quantity_ok q \<and> 0 \<le> qrat q"
  by (auto simp: list_ok_def list_all_iff dest: map_of_SomeD)

lemma list_ok_Nil [simp]: "list_ok []" "amount [] k = 0"
  by (simp_all add: list_ok_def gomap_ok_def amount_def)

lemma amount_nonneg: "list_ok l \<Longrightarrow> 0 \<le> amount l k"
  by (auto simp: amount_def list_okD split: option.splits)

lemma list_ok_Cons:
  "list_ok ((k, q) # l) \<longleftrightarrow> mget l k = None \<and> quantity_ok q \<and> 0 \<le> qrat q \<and> list_ok l"
  by (auto simp: list_ok_def gomap_ok_def map_of_eq_None_iff)

lemma amount_Cons:
  "amount ((k, q) # l) k' = (if k' = k then qrat q else amount l k')"
  by (simp add: amount_def)

lemma list_ok_mput:
  assumes "list_ok l" "quantity_ok q" "0 \<le> qrat q"
  shows "list_ok (mput k q l)"
proof -
  have "set (AList.update k q l) \<subseteq> insert (k, q) (set l)"
    by (induction l) auto
  then show ?thesis using assms by (auto simp: list_ok_def gm.ok_put list_all_iff)
qed

lemma amount_mput: "amount (mput k q l) k' = (if k' = k then qrat q else amount l k')"
  by (simp add: amount_def gomap_simps)

lemma addResource_ok:
  assumes "list_ok l" "quantity_ok q" "0 \<le> qrat q"
  shows "list_ok (addResource (k, q) l)"
    and "amount (addResource (k, q) l) k' = amount l k' + (if k' = k then qrat q else 0)"
  using assms list_okD [OF assms(1), of k]
  by (auto simp: addResource_def gomap_simps Add_value amount_def intro!: list_ok_mput split: option.splits)

lemma maxResource_ok:
  assumes "list_ok l" "quantity_ok q" "0 \<le> qrat q"
  shows "list_ok (maxResource (k, q) l)"
    and "amount (maxResource (k, q) l) k' = (if k' = k then max (amount l k') (qrat q) else amount l k')"
  using assms list_okD [OF assms(1), of k]
  by (auto simp: maxResource_def gomap_simps Cmp_value cmpRat_def amount_def max_def intro!: list_ok_mput split: option.splits)

lemma addResourceList_ok:
  assumes "list_ok l" "list_ok new"
  shows "list_ok (addResourceList l new) \<and> amount (addResourceList l new) k = amount l k + amount new k"
  using assms
proof (induction new arbitrary: l)
  case (Cons kq new)
  obtain k' q where kq: "kq = (k', q)" by (cases kq)
  have q: "quantity_ok q" "0 \<le> qrat q" "list_ok new" "mget new k' = None"
    using Cons.prems(2) by (auto simp: kq list_ok_Cons)
  have "amount new k' = 0" using q(4) by (simp add: amount_def)
  then show ?case
    using Cons.IH [OF addResource_ok(1) [OF Cons.prems(1) q(1,2)] q(3), of k'] addResource_ok(2) [OF Cons.prems(1) q(1,2)]
    by (auto simp: kq addResourceList_def amount_Cons)
qed (simp add: addResourceList_def)

lemma maxResourceList_ok:
  assumes "list_ok l" "list_ok new"
  shows "list_ok (maxResourceList l new) \<and> amount (maxResourceList l new) k = max (amount l k) (amount new k)"
  using assms
proof (induction new arbitrary: l)
  case (Cons kq new)
  obtain k' q where kq: "kq = (k', q)" by (cases kq)
  have q: "quantity_ok q" "0 \<le> qrat q" "list_ok new" "mget new k' = None"
    using Cons.prems(2) by (auto simp: kq list_ok_Cons)
  have "amount new k' = 0" "0 \<le> amount l k'"
    using q(4) Cons.prems(1) by (simp add: amount_def, simp add: amount_nonneg)
  then show ?case
    using Cons.IH [OF maxResource_ok(1) [OF Cons.prems(1) q(1,2)] q(3), of k'] maxResource_ok(2) [OF Cons.prems(1) q(1,2)] q(2)
    by (auto simp: kq maxResourceList_def amount_Cons)
qed (simp add: maxResourceList_def amount_nonneg)

lemmas list_ops_ok =
  addResourceList_ok [THEN conjunct1] addResourceList_ok [THEN conjunct2]
  maxResourceList_ok [THEN conjunct1] maxResourceList_ok [THEN conjunct2]

text \<open>The formula of the sidecar-container KEP: an init container runs beside the
  restartable ones before it, a restartable one beside those and the app containers.\<close>

definition initUse :: "(Container \<Rightarrow> rat) \<Rightarrow> Container list \<Rightarrow> nat \<Rightarrow> rat" where
  "initUse a cs i = a (cs ! i) + sum_list (map a (filter isRestartableInitContainer (take i cs)))"

definition initPeak :: "(Container \<Rightarrow> rat) \<Rightarrow> Container list \<Rightarrow> rat" where
  "initPeak a cs = Max (insert 0 (initUse a cs ` {..<length cs}))"

definition kepRequest :: "(Container \<Rightarrow> rat) \<Rightarrow> Pod \<Rightarrow> rat" where
  "kepRequest a pod =
     max (sum_list (map a (pContainers pod))
          + sum_list (map a (filter isRestartableInitContainer (pInitContainers pod))))
         (initPeak a (pInitContainers pod))"

fun peakFrom :: "(Container \<Rightarrow> rat) \<Rightarrow> rat \<Rightarrow> Container list \<Rightarrow> rat" where
  "peakFrom a r [] = 0"
| "peakFrom a r (c # cs) =
     max (r + a c) (peakFrom a (r + (if isRestartableInitContainer c then a c else 0)) cs)"

lemma peakFrom_Max: "peakFrom a r cs = Max (insert 0 ((\<lambda>i. r + initUse a cs i) ` {..<length cs}))"
proof (induction cs arbitrary: r)
  case (Cons c cs)
  let ?r = "r + (if isRestartableInitContainer c then a c else 0)"
  have "(\<lambda>i. r + initUse a (c # cs) i) ` {..<length (c # cs)} =
      insert (r + a c) ((\<lambda>i. ?r + initUse a cs i) ` {..<length cs})"
    by (auto simp: initUse_def lessThan_Suc_eq_insert_0 image_image)
  moreover have "max x (Max (insert 0 A)) = Max (insert 0 (insert x A))" if "finite A" for x :: rat and A
    unfolding insert_commute [of 0 x] using that by (intro Max_insert [symmetric]) auto
  ultimately show ?case unfolding peakFrom.simps Cons.IH [of ?r] by simp
qed simp

lemma initPeak_eq: "initPeak a cs = peakFrom a 0 cs"
  by (simp add: initPeak_def peakFrom_Max)

lemma peakFrom_nonneg: "0 \<le> peakFrom a r cs"
  by (simp add: peakFrom_Max)

lemma initLoop_amount:
  assumes "\<And>c. c \<in> set cs \<Longrightarrow> list_ok (res c)" "list_ok result" "list_ok restartable" "list_ok peak"
    and "initLoop res cs (result, restartable, peak) = (result', restartable', peak')"
  shows "list_ok result' \<and> list_ok peak' \<and>
    amount result' k = amount result k
      + sum_list (map (\<lambda>c. amount (res c) k) (filter isRestartableInitContainer cs)) \<and>
    amount peak' k = max (amount peak k) (peakFrom (\<lambda>c. amount (res c) k) (amount restartable k) cs)"
  using assms
proof (induction cs arbitrary: result restartable peak)
  case Nil
  then show ?case using amount_nonneg [OF Nil.prems(4)] by simp
next
  case (Cons c cs)
  have c: "list_ok (res c)" and cs: "\<And>d. d \<in> set cs \<Longrightarrow> list_ok (res d)" using Cons.prems(1) by auto
  note ok = Cons.prems(2-4) c
  show ?case
  proof (cases "isRestartableInitContainer c")
    case True
    note IH = Cons.IH [OF cs, of "addResourceList result (res c)" "addResourceList restartable (res c)"
        "maxResourceList peak (addResourceList restartable (res c))"]
    show ?thesis
      using IH Cons.prems(5) ok True
      by (simp add: Let_def list_ops_ok max.assoc add.assoc)
  next
    case False
    note IH = Cons.IH [OF cs, of result restartable
        "maxResourceList peak (addResourceList (addResourceList [] (res c)) restartable)"]
    show ?thesis
      using IH Cons.prems(5) ok False
      by (simp add: Let_def list_ops_ok max.assoc add.commute)
  qed
qed

lemma foldl_add_amount:
  assumes "\<And>c. c \<in> set cs \<Longrightarrow> list_ok (res c)" "list_ok acc"
  shows "list_ok (foldl (\<lambda>acc c. addResourceList acc (res c)) acc cs) \<and>
    amount (foldl (\<lambda>acc c. addResourceList acc (res c)) acc cs) k
      = amount acc k + sum_list (map (\<lambda>c. amount (res c) k) cs)"
  using assms by (induction cs arbitrary: acc) (simp_all add: list_ops_ok add.assoc)

lemma aggregate_amount:
  assumes "\<And>c. c \<in> set (pContainers pod @ pInitContainers pod) \<Longrightarrow> list_ok (resourcesOf pod opts get c)"
  shows "list_ok (aggregateContainerResourcesByFn pod opts get) \<and>
    amount (aggregateContainerResourcesByFn pod opts get) k =
      kepRequest (\<lambda>c. amount (resourcesOf pod opts get c) k) pod"
proof -
  let ?res = "resourcesOf pod opts get"
  let ?acc = "foldl (\<lambda>acc c. addResourceList acc (?res c)) [] (pContainers pod)"
  obtain r s p where l: "initLoop ?res (pInitContainers pod) (?acc, [], []) = (r, s, p)"
    by (cases "initLoop ?res (pInitContainers pod) (?acc, [], [])") auto
  have acc: "list_ok ?acc" "amount ?acc k = sum_list (map (\<lambda>c. amount (?res c) k) (pContainers pod))"
    using foldl_add_amount [of "pContainers pod" ?res "[]" k] assms by auto
  have "list_ok r \<and> list_ok p \<and>
    amount r k = amount ?acc k
      + sum_list (map (\<lambda>c. amount (?res c) k) (filter isRestartableInitContainer (pInitContainers pod))) \<and>
    amount p k = peakFrom (\<lambda>c. amount (?res c) k) 0 (pInitContainers pod)"
    using initLoop_amount [OF _ acc(1) _ _ l, of k] assms peakFrom_nonneg by (simp add: max_absorb2)
  then show ?thesis
    using l acc(2) unfolding aggregateContainerResourcesByFn_def Let_def l
    by (simp add: list_ops_ok kepRequest_def initPeak_eq)
qed

lemma kepRequest_nonneg: "0 \<le> kepRequest a pod"
  by (simp add: kepRequest_def initPeak_eq peakFrom_nonneg le_max_iff_disj)

lemma maxOfLists_amount:
  assumes "list_ok (entries a)" "\<And>b. b \<in> set bs \<Longrightarrow> list_ok (entries b)"
  shows "list_ok (maxOfLists a bs) \<and>
    amount (maxOfLists a bs) k = foldl (\<lambda>m b. max m (amount (entries b) k)) (amount (entries a) k) bs"
proof -
  have "list_ok acc \<Longrightarrow> (\<And>b. b \<in> set bs \<Longrightarrow> list_ok (entries b)) \<Longrightarrow>
    list_ok (foldl (\<lambda>acc b. maxResourceList acc (entries b)) acc bs) \<and>
    amount (foldl (\<lambda>acc b. maxResourceList acc (entries b)) acc bs) k =
      foldl (\<lambda>m b. max m (amount (entries b) k)) (amount acc k) bs" for acc
    by (induction bs arbitrary: acc) (simp_all add: list_ops_ok)
  then show ?thesis using assms by (simp add: maxOfLists_def)
qed

lemma mget_maxResourceList_None:
  "mget (maxResourceList l new) k = None \<longleftrightarrow> mget l k = None \<and> mget new k = None"
proof (induction new arbitrary: l)
  case (Cons kq new)
  have "mget (maxResource kq l) k = None \<longleftrightarrow> mget l k = None \<and> k \<noteq> fst kq"
    by (cases kq) (auto simp: maxResource_def gomap_simps split: option.splits)
  then show ?case using Cons.IH [of "maxResource kq l"] by (cases kq) (auto simp: maxResourceList_def)
qed (simp add: maxResourceList_def)

text \<open>The largest amount of a resource among the lists that name it.\<close>

definition largestNamed :: "ResourceList list \<Rightarrow> string \<Rightarrow> rat option" where
  "largestNamed ls k =
     (let named = filter (\<lambda>l. mget l k \<noteq> None) ls
      in if named = [] then None else Some (Max (set (map (\<lambda>l. amount l k) named))))"

lemma largestNamed_Nil [simp]: "largestNamed [] k = None"
  by (simp add: largestNamed_def)

lemma largestNamed_single: "largestNamed [l] k = (if mget l k = None then None else Some (amount l k))"
  by (simp add: largestNamed_def)

lemma largestNamed_Cons:
  "largestNamed (l # ls) k =
     (if mget l k = None then largestNamed ls k
      else Some (case largestNamed ls k of None \<Rightarrow> amount l k | Some m \<Rightarrow> max (amount l k) m))"
proof (cases "filter (\<lambda>l. mget l k \<noteq> None) ls = []")
  case False
  then have "Max (insert (amount l k) (set (map (\<lambda>l. amount l k) (filter (\<lambda>l. mget l k \<noteq> None) ls)))) =
      max (amount l k) (Max (set (map (\<lambda>l. amount l k) (filter (\<lambda>l. mget l k \<noteq> None) ls))))"
    by (intro Max_insert) (auto simp: filter_empty_conv)
  with False show ?thesis by (simp add: largestNamed_def Let_def)
qed (simp add: largestNamed_def)

lemma amount_absent: "mget l k = None \<Longrightarrow> amount l k = 0"
  by (simp add: amount_def)

lemma maxResourceList_largestNamed:
  assumes "list_ok l" "list_ok b"
  shows "largestNamed (maxResourceList l b # ls) k = largestNamed (l # b # ls) k"
  using list_ops_ok(4) [OF assms, of k] amount_nonneg [OF assms(1), of k] amount_nonneg [OF assms(2), of k]
  by (auto simp: largestNamed_Cons mget_maxResourceList_None amount_absent max_absorb1 max_absorb2 max.assoc
      split: option.splits)

lemma foldl_max_largestNamed:
  assumes "list_ok acc" "\<And>b. b \<in> set bs \<Longrightarrow> list_ok (entries b)"
  shows "largestNamed [foldl (\<lambda>acc b. maxResourceList acc (entries b)) acc bs] k
    = largestNamed (acc # map entries bs) k"
  using assms
proof (induction bs arbitrary: acc)
  case (Cons b bs)
  then have "list_ok (maxResourceList acc (entries b))" by (simp add: list_ops_ok)
  then show ?case
    using Cons.IH Cons.prems maxResourceList_largestNamed [of acc "entries b" "map entries bs" k] by simp
qed simp

lemma maxOfLists_largestNamed:
  assumes "list_ok (entries a)" "\<And>b. b \<in> set bs \<Longrightarrow> list_ok (entries b)"
  shows "largestNamed [maxOfLists a bs] k = largestNamed (entries a # map entries bs) k"
  unfolding maxOfLists_def by (rule foldl_max_largestNamed [OF assms])

lemma applyPodLevelResources_ok:
  assumes "list_ok result" "list_ok effective"
  shows "list_ok (applyPodLevelResources result effective) \<and>
    amount (applyPodLevelResources result effective) k =
      (if IsSupportedPodLevelResource k \<and> mget effective k \<noteq> None then amount effective k
       else amount result k)"
  using assms
proof (induction effective arbitrary: result)
  case (Cons kq effective)
  obtain k' q where kq: "kq = (k', q)" by (cases kq)
  have q: "quantity_ok q" "0 \<le> qrat q" "list_ok effective" "mget effective k' = None"
    using Cons.prems(2) by (auto simp: kq list_ok_Cons)
  let ?r = "if IsSupportedPodLevelResource k' then mput k' q result else result"
  have r: "list_ok ?r" using list_ok_mput [OF Cons.prems(1) q(1,2)] Cons.prems(1) by simp
  have e: "applyPodLevelResources result (kq # effective) = applyPodLevelResources ?r effective"
    by (simp add: applyPodLevelResources_def kq)
  show ?case using Cons.IH [OF r q(3)] q(4) unfolding e by (auto simp: kq amount_Cons amount_mput)
qed (simp add: applyPodLevelResources_def)

end
