(* ===== verification/Eligibility.thy ===== *)
theory Eligibility
  imports PodResources
begin

text \<open>
  The eligibility rules, \<open>internal/eligibility/eligibility.go\<close> and \<open>vpa.go\<close>: which pods
  may be managed, how their CPU request and limit are enumerated, and the ceiling that
  the namespace's LimitRanges put on a pod. \<open>resource.ParseQuantity\<close> is a parameter of
  the definitions that read the per-pod ceiling annotation.
\<close>

section \<open>Resizable containers\<close>

definition osWindows :: string where
  "osWindows = ''windows''"

record ResizableContainer =
  rcName :: string
  rcRequestMilli :: int64
  rcLimitMilli :: int64
  rcRestartOnResize :: bool

definition cpuRestartOnResize :: "Container \<Rightarrow> bool" where
  "cpuRestartOnResize c =
     (case find (\<lambda>p. rpResourceName p = ResourceCPU) (cResizePolicy c) of
        None \<Rightarrow> False | Some p \<Rightarrow> rpRestartPolicy p = ''RestartContainer'')"

definition toResizable :: "Container \<Rightarrow> ResizableContainer" where
  "toResizable c = \<lparr>rcName = cName c,
     rcRequestMilli = MilliValue (Cpu (Requests (cResources c))),
     rcLimitMilli = MilliValue (Cpu (Limits (cResources c))),
     rcRestartOnResize = cpuRestartOnResize c\<rparr>"

definition ResizableContainers :: "Pod \<Rightarrow> ResizableContainer list" where
  "ResizableContainers pod =
     map toResizable (pContainers pod)
     @ map toResizable (filter isRestartableInitContainer (pInitContainers pod))"

definition PodTerminal :: "Pod \<Rightarrow> bool" where
  "PodTerminal pod \<longleftrightarrow> pPhase pod = ''Succeeded'' \<or> pPhase pod = ''Failed''"

definition PodCPURequestMilli :: "ResizableContainer list \<Rightarrow> int64" where
  "PodCPURequestMilli rcs = foldl (\<lambda>s c. add64 s (rcRequestMilli c)) 0 rcs"

fun currentLimitLoop :: "ResizableContainer list \<Rightarrow> int64 \<Rightarrow> int64" where
  "currentLimitLoop [] s = s"
| "currentLimitLoop (c # cs) s =
     (if rcRequestMilli c \<le> 0 then currentLimitLoop cs s
      else if rcLimitMilli c \<le> 0 then 0
      else currentLimitLoop cs (add64 s (rcLimitMilli c)))"

definition PodCurrentLimitMilli :: "ResizableContainer list \<Rightarrow> int64" where
  "PodCurrentLimitMilli rcs = currentLimitLoop rcs 0"

section \<open>Gates\<close>

definition OptedOut :: "Pod \<Rightarrow> bool" where
  "OptedOut pod \<longleftrightarrow> strGet (pLabels pod) LabelMode = ModeUnmanaged"

definition HasPodLevelResources :: "Pod \<Rightarrow> bool" where
  "HasPodLevelResources pod =
     (case pResources pod of None \<Rightarrow> False
      | Some r \<Rightarrow> entries (Requests r) \<noteq> [] \<or> entries (Limits r) \<noteq> [])"

definition HasRestartOnResize :: "ResizableContainer list \<Rightarrow> bool" where
  "HasRestartOnResize rcs = list_ex rcRestartOnResize rcs"

definition Eligible :: "Pod \<Rightarrow> ResizableContainer list \<Rightarrow> bool" where
  "Eligible pod rcs =
     (if PodTerminal pod then False
      else if OptedOut pod then False
      else if HasPodLevelResources pod then False
      else if pQOSClass pod \<noteq> ''Burstable'' then False
      else if PodCPURequestMilli rcs \<le> 0 then False
      else \<not> HasRestartOnResize rcs)"

definition NamespaceManaged :: "Namespace \<Rightarrow> HeadroomConfigSpec \<Rightarrow> bool" where
  "NamespaceManaged ns spec =
     (if nsName ns \<in> set (specExcludedNamespaces spec) then False
      else case specNamespaceSelector spec of
          Some s \<Rightarrow> (case LabelSelectorAsSelector (Some s) of
                      None \<Rightarrow> False | Some sel \<Rightarrow> Selector_Matches sel (nsLabels ns))
        | None \<Rightarrow> strGet (nsLabels ns) LabelMode = ModeManaged)"

text \<open>\<open>strings.Cut\<close>: the text before the first separator, all of it when there is none.\<close>

definition cutBefore :: "char \<Rightarrow> string \<Rightarrow> string" where
  "cutBefore sep s = takeWhile (\<lambda>c. c \<noteq> sep) s"

definition ownerMatches :: "OwnerReference \<Rightarrow> ExcludedOwner \<Rightarrow> bool" where
  "ownerMatches ref e =
     (let group = cutBefore (CHR ''/'') (refAPIVersion ref) in
      if eoKind e \<noteq> refKind ref then False
      else if eoAPIGroup e \<noteq> '''' \<and> eoAPIGroup e \<noteq> group then False
      else if eoName e \<noteq> '''' \<and> eoName e \<noteq> refName ref then False
      else True)"

definition OwnerExcluded :: "Pod \<Rightarrow> ExcludedOwner list \<Rightarrow> bool" where
  "OwnerExcluded pod excluded =
     list_ex (\<lambda>ref. list_ex (ownerMatches ref) excluded) (pOwnerReferences pod)"

definition LabelOSStable :: string where
  "LabelOSStable = ''kubernetes.io/os''"

definition NodeManageable :: "Node \<Rightarrow> HeadroomConfigSpec \<Rightarrow> bool" where
  "NodeManageable node spec =
     (if nOperatingSystem node = osWindows \<or> strGet (nLabels node) LabelOSStable = osWindows then False
      else case specExcludedNodeSelector spec of
          None \<Rightarrow> True
        | Some s \<Rightarrow> (case LabelSelectorAsSelector (Some s) of
                      None \<Rightarrow> False | Some sel \<Rightarrow> \<not> Selector_Matches sel (nLabels node)))"

type_synonym parser = "string \<Rightarrow> Quantity option"

definition podUserCapMilli :: "parser \<Rightarrow> Pod \<Rightarrow> int64" where
  "podUserCapMilli parseQuantity pod =
     (case mget (pAnnotations pod) AnnotationMaxCPU of
        None \<Rightarrow> 0
      | Some v \<Rightarrow> (case parseQuantity v of
                    None \<Rightarrow> 0
                  | Some q \<Rightarrow> if MilliValue q \<le> 0 then 0 else MilliValue q))"

definition PodBookedCPUMilli :: "Pod \<Rightarrow> int64" where
  "PodBookedCPUMilli pod =
     MilliValue (Cpu (Some (PodRequests pod \<lparr>UseStatusResources = True,
       InPlacePodLevelResourcesVerticalScalingEnabled = True, ExcludeOverhead = False\<rparr>)))"

section \<open>LimitRanges\<close>

definition ratioLimitMilli :: "int64 \<Rightarrow> int64 \<Rightarrow> int64" where
  "ratioLimitMilli ratioMilli requestMilli =
     (if fle (float_of_int MaxInt64) (fmul (float_of_int ratioMilli) (float_of_int requestMilli))
      then MaxInt64
      else let limit = div64 (mul64 ratioMilli requestMilli) 1000 in
           if fless (float_of_int ratioMilli)
                (fmul (fdiv (float_of_int limit) (float_of_int requestMilli)) (F 1000))
           then sub64 limit 1 else limit)"

definition containerRatioCapMilli :: "ResizableContainer list \<Rightarrow> int64 \<Rightarrow> float64 \<Rightarrow> float64" where
  "containerRatioCapMilli rcs ratioMilli tot =
     foldl (\<lambda>limit c. if rcRequestMilli c > 0
        then fmin limit (fdiv (fmul (float_of_int (ratioLimitMilli ratioMilli (rcRequestMilli c))) tot)
                              (float_of_int (rcRequestMilli c)))
        else limit) PInf rcs"

text \<open>The sums of the first loop: total request, largest request, limits left alone.\<close>

definition lrSums :: "ResizableContainer list \<Rightarrow> float64 \<times> float64 \<times> float64" where
  "lrSums rcs = foldl (\<lambda>(tot, largest, untouched) c.
      (fadd tot (float_of_int (rcRequestMilli c)),
       fmax largest (float_of_int (rcRequestMilli c)),
       if rcRequestMilli c \<le> 0 then fadd untouched (float_of_int (rcLimitMilli c)) else untouched))
     (F 0, F 0, F 0) rcs"

definition lrItem :: "ResizableContainer list \<Rightarrow> float64 \<times> float64 \<times> float64 \<Rightarrow> int64 \<Rightarrow>
    float64 \<Rightarrow> LimitRangeItem \<Rightarrow> float64" where
  "lrItem rcs agg podRequest limit item =
     (case agg of (tot, largest, untouched) \<Rightarrow>
        let hasMax = mget (lrMax item) ResourceCPU \<noteq> None;
            hasRatio = mget (lrMaxLimitRequestRatio item) ResourceCPU \<noteq> None;
            maxMilli = float_of_int (MilliValue (Cpu (Some (lrMax item))));
            ratioMilli = MilliValue (Cpu (Some (lrMaxLimitRequestRatio item)))
        in if lrType item = ''Container'' then
             (let limit = (if hasMax then fmin limit (fdiv (fmul maxMilli tot) largest) else limit)
              in if hasRatio then fmin limit (containerRatioCapMilli rcs ratioMilli tot) else limit)
           else if lrType item = ''Pod'' then
             (let limit = (if hasMax then fmin limit (fsub maxMilli untouched) else limit)
              in if hasRatio
                 then fmin limit (fsub (float_of_int (ratioLimitMilli ratioMilli podRequest)) untouched)
                 else limit)
           else limit)"

definition LimitRangeCapMilli :: "Pod \<Rightarrow> ResizableContainer list \<Rightarrow> LimitRange list \<Rightarrow> int64" where
  "LimitRangeCapMilli pod rcs limitRanges =
     (let agg = lrSums rcs in
      if fle (fst agg) (F 0) \<or> limitRanges = [] then 0
      else
        let podRequest = MilliValue (Cpu (Some (PodRequests pod \<lparr>UseStatusResources = False,
              InPlacePodLevelResourcesVerticalScalingEnabled = False, ExcludeOverhead = True\<rparr>)));
            limit = foldl (\<lambda>limit lr. foldl (lrItem rcs agg podRequest) limit (lrLimits lr)) PInf limitRanges
        in if fle (float_of_int MaxInt64) limit then 0 else max (int_of_float limit) 1)"

section \<open>Vertical pod autoscalers\<close>

text \<open>The slices whose nil value the code tells from an empty one are optional: a policy's
  controlled resources, and the policies themselves, which the poller compares by
  \<open>reflect.DeepEqual\<close>.\<close>

record VPAContainerPolicy =
  vpContainerName :: string
  vpMode :: string
  vpControlledResources :: "string list option"
  vpControlledValues :: string

record VPA =
  vpaName :: string
  vpaTargetKind :: string
  vpaTargetName :: string
  vpaUpdateMode :: string
  vpaPolicies :: "VPAContainerPolicy list option"

fun policyLoop :: "string \<Rightarrow> VPAContainerPolicy list \<Rightarrow> VPAContainerPolicy option \<Rightarrow> VPAContainerPolicy option" where
  "policyLoop container [] fallback = fallback"
| "policyLoop container (p # ps) fallback =
     (if vpContainerName p = container then Some p
      else if vpContainerName p = ''*'' then policyLoop container ps (Some p)
      else policyLoop container ps fallback)"

definition policyFor :: "VPA \<Rightarrow> string \<Rightarrow> VPAContainerPolicy option" where
  "policyFor v container =
     policyLoop container (case vpaPolicies v of None \<Rightarrow> [] | Some ps \<Rightarrow> ps) None"

definition writesCPULimit :: "VPA \<Rightarrow> string \<Rightarrow> bool" where
  "writesCPULimit v container =
     (if vpaUpdateMode v = ''Off'' then False
      else case policyFor v container of
          None \<Rightarrow> True
        | Some p \<Rightarrow>
            if vpMode p = ''Off'' \<or> vpControlledValues p = ''RequestsOnly'' then False
            else (case vpControlledResources p of None \<Rightarrow> True | Some rs \<Rightarrow> ResourceCPU \<in> set rs))"

text \<open>\<open>strings.LastIndex\<close> of a one-character string; -1 when it does not occur.\<close>

fun lastIndex :: "char \<Rightarrow> string \<Rightarrow> int" where
  "lastIndex c [] = - 1"
| "lastIndex c (x # xs) =
     (let i = lastIndex c xs in if i \<ge> 0 then i + 1 else if x = c then 0 else - 1)"

definition podUnderTarget :: "Pod \<Rightarrow> string \<Rightarrow> string \<Rightarrow> bool" where
  "podUnderTarget pod kind name =
     (case GetControllerOf pod of
        None \<Rightarrow> False
      | Some owner \<Rightarrow>
          if refKind owner = kind \<and> refName owner = name then True
          else let parent = take (nat (max (lastIndex (CHR ''-'') (refName owner)) 0)) (refName owner) in
               if refKind owner = ''ReplicaSet'' then kind \<noteq> ''ReplicaSet'' \<and> parent = name
               else if refKind owner = ''Job'' then kind = ''CronJob'' \<and> parent = name
               else False)"

fun LimitManagingVPA :: "Pod \<Rightarrow> ResizableContainer list \<Rightarrow> VPA list \<Rightarrow> string" where
  "LimitManagingVPA pod rcs [] = ''''"
| "LimitManagingVPA pod rcs (v # vs) =
     (if \<not> podUnderTarget pod (vpaTargetKind v) (vpaTargetName v) then LimitManagingVPA pod rcs vs
      else if list_ex (\<lambda>c. writesCPULimit v (rcName c)) rcs then vpaName v
      else LimitManagingVPA pod rcs vs)"

text \<open>Of a pod the rule reads the controller and the names of the containers.\<close>

lemma LimitManagingVPA_names:
  assumes "map rcName rcs = map rcName rcs'" "\<And>k n. podUnderTarget pod k n = podUnderTarget pod' k n"
  shows "LimitManagingVPA pod rcs vs = LimitManagingVPA pod' rcs' vs"
proof -
  have "set (map rcName rcs) = set (map rcName rcs')" using assms(1) by simp
  then have "list_ex (\<lambda>c. P (rcName c)) rcs = list_ex (\<lambda>c. P (rcName c)) rcs'" for P
    by (auto simp: list_ex_iff image_iff) (metis imageE imageI)+
  then show ?thesis using assms(2) by (induction vs) auto
qed

end
