(* ===== verification/PodInputs.thy ===== *)
theory PodInputs
  imports Policy Eligibility "HOL-Library.Multiset"
begin

text \<open>
  \<open>internal/controller/podinput.go\<close>: the policy input of a pod, and the split of a pod
  target into container limits. The split's contract is the locale \<open>limit_split\<close>; the
  lemmas about reading limits back and about LimitRange admission are proved in it.
\<close>

section \<open>Operations\<close>

definition pinned :: "Container \<Rightarrow> bool" where
  "pinned c =
     (let memReq = Memory (Requests (cResources c))
      in Sign (Cpu (Requests (cResources c))) > 0 \<and> Sign memReq > 0
         \<and> Cmp memReq (Memory (Limits (cResources c))) = 0)"

fun initsPinned :: "Container list \<Rightarrow> bool" where
  "initsPinned [] = True"
| "initsPinned (c # cs) =
     (if \<not> pinned c then False
      else if \<not> isRestartableInitContainer c
              \<and> Cmp (Cpu (Requests (cResources c))) (Cpu (Limits (cResources c))) \<noteq> 0 then False
      else initsPinned cs)"

definition guaranteedAtRequest :: "Pod \<Rightarrow> bool" where
  "guaranteedAtRequest pod =
     (if HasPodLevelResources pod then False
      else if \<not> list_all pinned (pContainers pod) then False
      else initsPinned (pInitContainers pod))"

definition buildPodInput :: "parser \<Rightarrow> Pod \<Rightarrow> ResizableContainer list \<Rightarrow> bool \<Rightarrow> PodInput" where
  "buildPodInput parseQuantity pod rcs managed =
     (let request = PodCPURequestMilli rcs
      in \<lparr>Key = podKey pod, RequestMilli = request,
          BookedDeltaMilli = sub64 (PodBookedCPUMilli pod) request,
          CurrentLimitMilli = PodCurrentLimitMilli rcs, Managed = managed, HoldsShare = False,
          UserCapMilli = podUserCapMilli parseQuantity pod, LimitRangeCap = 0,
          AboveRequest = guaranteedAtRequest pod\<rparr>)"

record rem =
  remName :: string
  remFrac :: float64
  remIdx :: int

definition remCmp :: "rem \<Rightarrow> rem \<Rightarrow> int" where
  "remCmp a b =
     (if \<not> feq (remFrac a) (remFrac b)
      then (if fless (remFrac b) (remFrac a) then - 1 else 1)
      else remIdx a - remIdx b)"

text \<open>A stable sort: an element goes before the first one it does not compare above.\<close>

fun insertRem :: "rem \<Rightarrow> rem list \<Rightarrow> rem list" where
  "insertRem x [] = [x]"
| "insertRem x (y # ys) = (if remCmp x y \<le> 0 then x # y # ys else y # insertRem x ys)"

definition sortRems :: "rem list \<Rightarrow> rem list" where
  "sortRems rs = foldr insertRem rs []"

definition shareOf :: "int64 \<Rightarrow> int64 \<Rightarrow> ResizableContainer \<Rightarrow> float64" where
  "shareOf targetMilli totalReq c =
     fdiv (fmul (float_of_int targetMilli) (float_of_int (rcRequestMilli c))) (float_of_int totalReq)"

text \<open>The flooring loop: the limits so far, their sum, and the fractional remainders.\<close>

fun splitLoop :: "int64 \<Rightarrow> int64 \<Rightarrow> int \<Rightarrow> ResizableContainer list \<Rightarrow>
    (string, int64) gomap \<times> int64 \<times> rem list \<Rightarrow> (string, int64) gomap \<times> int64 \<times> rem list" where
  "splitLoop targetMilli totalReq i [] acc = acc"
| "splitLoop targetMilli totalReq i (c # cs) (out, assigned, rems) =
     (if rcRequestMilli c \<le> 0 then splitLoop targetMilli totalReq (i + 1) cs (out, assigned, rems)
      else
        let exact = shareOf targetMilli totalReq c;
            base = max (int_of_float exact) (rcRequestMilli c)
        in splitLoop targetMilli totalReq (i + 1) cs
             (mput (rcName c) base out, add64 assigned base,
              rems @ [\<lparr>remName = rcName c,
                       remFrac = fsub exact (float_of_int (int_of_float exact)), remIdx = i\<rparr>]))"

definition bump :: "string \<Rightarrow> (string, int64) gomap \<Rightarrow> (string, int64) gomap" where
  "bump k m = mput k (add64 (case mget m k of Some v \<Rightarrow> v | None \<Rightarrow> 0) 1) m"

text \<open>None is the panic of indexing modulo an empty list of remainders.\<close>

definition splitLimit :: "int64 \<Rightarrow> ResizableContainer list \<Rightarrow> (string, int64) gomap option" where
  "splitLimit targetMilli rcs =
     (let totalReq = PodCPURequestMilli rcs in
      if totalReq \<le> 0 \<or> rcs = [] then Some []
      else case splitLoop targetMilli totalReq 0 rcs ([], 0, []) of
        (out, assigned, rems) \<Rightarrow>
          let leftover = sub64 targetMilli assigned in
          if leftover \<le> 0 then Some out
          else let rems = sortRems rems in
            if rems = [] then None
            else Some (fold (\<lambda>i out. bump (remName (rems ! (i mod length rems))) out)
                         [0..<nat leftover] out))"

section \<open>The flooring loop\<close>

definition requested :: "ResizableContainer list \<Rightarrow> ResizableContainer list" where
  "requested rcs = filter (\<lambda>c. 0 < rcRequestMilli c) rcs"

definition floorShare :: "int \<Rightarrow> int \<Rightarrow> ResizableContainer \<Rightarrow> int" where
  "floorShare T S c = T * rcRequestMilli c div S"

lemma update_fresh: "k \<notin> fst ` set m \<Longrightarrow> AList.update k v m = m @ [(k, v)]"
  by (induction m) auto

lemma rnd64_pos: "1 / 2 ^ 60 \<le> x \<Longrightarrow> 0 < rnd64 x"
proof -
  assume le: "1 / 2 ^ 60 \<le> x"
  have "repr64 (1 / 2 ^ 60)"
    by (rule repr64I [of _ 1 "- 60"]) (simp_all add: power_int_minus inverse_eq_divide)
  then have "1 / 2 ^ 60 \<le> rnd64 x" using le by (rule b64.ge_grid)
  then show ?thesis by (rule less_le_trans [rotated]) simp
qed

text \<open>A share that is not a whole number rounds to at least a \<open>2 ^ 24\<close>-th above its floor, so its
  remainder does not vanish in float64.\<close>

lemma fraction_survives:
  fixes N S :: int
  assumes S: "0 < S" "S \<le> 2 ^ 24" and N: "0 \<le> N div S" "N div S \<le> 2 ^ 24" "\<not> S dvd N"
  shows "of_int (N div S) + 1 / 2 ^ 24 \<le> rnd64 (of_int N / of_int S)"
proof -
  let ?fl = "N div S" and ?x = "of_int N / of_int S :: rat"
  have "N mod S \<noteq> 0" using N(3) by (simp add: dvd_eq_mod_eq_0)
  then have "1 \<le> N mod S" using S(1) pos_mod_sign [of S N] by linarith
  moreover have "?fl * S = N - N mod S" by (simp only: minus_mod_eq_div_mult)
  ultimately have "?fl * S + 1 \<le> N" by linarith
  then have "(of_int (?fl * S + 1) :: rat) \<le> of_int N" by (simp only: of_int_le_iff)
  then have "(of_int (?fl * S + 1) :: rat) / of_int S \<le> ?x" using S(1) by (intro divide_right_mono) auto
  then have "of_int ?fl + 1 / of_int S \<le> ?x" using S(1) by (simp add: add_divide_distrib)
  moreover have "(1 / 2 ^ 24 :: rat) \<le> 1 / of_int S" using S by (intro divide_left_mono) auto
  ultimately have "of_int (?fl * 2 ^ 24 + 1) / 2 ^ 24 \<le> ?x" by (simp add: add_divide_distrib)
  moreover have "repr64 (of_int (?fl * 2 ^ 24 + 1) / 2 ^ 24)"
    using N by (intro repr64I [of _ "?fl * 2 ^ 24 + 1" "- 24"]) (auto simp: power_int_minus inverse_eq_divide)
  ultimately have "of_int (?fl * 2 ^ 24 + 1) / 2 ^ 24 \<le> rnd64 ?x" by (intro b64.ge_grid)
  then show ?thesis by (simp add: add_divide_distrib)
qed

lemma share_facts:
  assumes "0 < rcRequestMilli c" "rcRequestMilli c \<le> S" "S \<le> T" "T \<le> 2 ^ 24"
  shows "int_of_float (shareOf T S c) = floorShare T S c"
    and "rcRequestMilli c \<le> floorShare T S c" and "floorShare T S c \<le> T"
    and "\<exists>f. fsub (shareOf T S c) (float_of_int (floorShare T S c)) = F f \<and> 0 \<le> f
           \<and> (f = 0 \<longleftrightarrow> S dvd T * rcRequestMilli c)"
proof -
  let ?r = "rcRequestMilli c" and ?fl = "floorShare T S c"
  define x :: rat where "x = of_int (T * ?r) / of_int S"
  have S: "0 < S" "S \<le> 2 ^ 24" using assms by auto
  have Tr: "T * ?r \<le> 2 ^ 24 * 2 ^ 24" using assms by (intro mult_mono) auto
  have Tr0: "0 \<le> T * ?r" using assms by simp
  have m: "fmul (float_of_int T) (float_of_int ?r) = F (of_int (T * ?r))"
    using assms Tr Tr0 by (intro fmul_ints) auto
  have sh: "shareOf T S c = F (rnd64 x)"
    unfolding shareOf_def m x_def using Tr Tr0 S by (intro float_quotient) auto
  have "S * ?r \<le> T * ?r" using assms by (intro mult_right_mono) auto
  then have "S * ?r div S \<le> T * ?r div S" using S(1) by (intro zdiv_mono1) auto
  then show lo: "?r \<le> ?fl" using S(1) by (simp add: floorShare_def)
  have "T * ?r \<le> T * S" using assms by (intro mult_left_mono) auto
  then have "T * ?r div S \<le> T * S div S" using S(1) by (intro zdiv_mono1) auto
  then show hi: "?fl \<le> T" using S(1) by (simp add: floorShare_def)
  have fl: "\<lfloor>rnd64 x\<rfloor> = ?fl"
    unfolding floorShare_def x_def using Tr0 S hi assms(4) by (intro b64.floor_quotient) (auto simp: floorShare_def)
  have "in64 ?fl" using lo hi assms by (auto simp: in64_def)
  moreover have "0 \<le> rnd64 x" using assms by (intro b64.nonneg) (simp add: x_def)
  ultimately show "int_of_float (shareOf T S c) = ?fl" by (simp add: sh trunc_nonneg fl)
  have fx: "float_of_int ?fl = F (of_int ?fl)" using lo hi assms by (intro float_of_int_exact) auto
  let ?d = "rnd64 x - of_int ?fl"
  have d: "0 \<le> ?d" "?d < 1" using fl by linarith+
  have sub: "fsub (shareOf T S c) (float_of_int ?fl) = F (rnd64 ?d)"
    unfolding sh fx fsub_def using d by (simp add: fnorm_small)
  show "\<exists>f. fsub (shareOf T S c) (float_of_int ?fl) = F f \<and> 0 \<le> f \<and> (f = 0 \<longleftrightarrow> S dvd T * ?r)"
  proof (cases "S dvd T * ?r")
    case True
    then have "T * ?r = ?fl * S" by (simp add: floorShare_def)
    then have "x = of_int (?fl * S) / of_int S" by (simp only: x_def)
    then have "x = of_int ?fl" using S(1) by simp
    moreover have "rnd64 (of_int ?fl) = of_int ?fl" using lo hi assms by (intro b64.exact_int) auto
    ultimately show ?thesis using sub True by simp
  next
    case False
    have "of_int ?fl + 1 / 2 ^ 24 \<le> rnd64 x"
      using fraction_survives [OF S, of "T * ?r"] lo hi assms False unfolding x_def floorShare_def by simp
    then have "1 / 2 ^ 24 \<le> ?d" by simp
    then have "0 < rnd64 ?d" by (intro rnd64_pos) simp
    then show ?thesis using sub False by auto
  qed
qed

lemma splitLoop_eq:
  assumes "\<And>c. c \<in> set cs \<Longrightarrow> 0 < rcRequestMilli c \<Longrightarrow>
      int_of_float (shareOf T S c) = g c \<and> rcRequestMilli c \<le> g c"
    and "distinct (map rcName cs)" "fst ` set out \<inter> rcName ` set cs = {}"
    and "splitLoop T S i cs (out, wrap64 a, rems) = (out', a', rems')"
  shows "out' = out @ map (\<lambda>c. (rcName c, g c)) (requested cs)
    \<and> a' = wrap64 (a + sum_list (map g (requested cs)))
    \<and> (\<exists>rs. rems' = rems @ rs \<and> list_all2 (\<lambda>r c. remName r = rcName c
           \<and> remFrac r = fsub (shareOf T S c) (float_of_int (g c))) rs (requested cs))"
  using assms
proof (induction cs arbitrary: i out a rems)
  case Nil
  then show ?case by (simp add: requested_def)
next
  case (Cons c cs)
  have d: "distinct (map rcName cs)" using Cons.prems(2) by simp
  show ?case
  proof (cases "rcRequestMilli c \<le> 0")
    case True
    then show ?thesis
      using Cons.IH [OF Cons.prems(1) d, of out "i + 1" a rems] Cons.prems(3,4) by (simp add: requested_def)
  next
    case False
    then have g: "int_of_float (shareOf T S c) = g c" "rcRequestMilli c \<le> g c" using Cons.prems(1) by auto
    have u: "mput (rcName c) (g c) out = out @ [(rcName c, g c)]"
      using Cons.prems(3) by (intro update_fresh) auto
    have a: "add64 (wrap64 a) (g c) = wrap64 (a + g c)" by (simp add: add64_def wrap64_add_left)
    have k: "fst ` set (out @ [(rcName c, g c)]) \<inter> rcName ` set cs = {}"
      using Cons.prems(2,3) by auto
    define r where "r = \<lparr>remName = rcName c, remFrac = fsub (shareOf T S c) (float_of_int (g c)), remIdx = i\<rparr>"
    have l: "splitLoop T S (i + 1) cs (out @ [(rcName c, g c)], wrap64 (a + g c), rems @ [r]) = (out', a', rems')"
      using Cons.prems(4) False by (simp add: g max_absorb1 u a r_def Let_def)
    obtain rs where "rems' = (rems @ [r]) @ rs" "list_all2 (\<lambda>r c. remName r = rcName c
        \<and> remFrac r = fsub (shareOf T S c) (float_of_int (g c))) rs (requested cs)"
      using Cons.IH [OF Cons.prems(1) d k l] by auto
    then have "\<exists>rs. rems' = rems @ rs \<and> list_all2 (\<lambda>r c. remName r = rcName c
        \<and> remFrac r = fsub (shareOf T S c) (float_of_int (g c))) rs (requested (c # cs))"
      using False by (intro exI [of _ "r # rs"]) (simp add: requested_def r_def)
    then show ?thesis
      using Cons.IH [OF Cons.prems(1) d k l] False by (simp add: requested_def add.assoc)
  qed
qed

section \<open>The order of the remainders\<close>

definition fracs_ok :: "rem list \<Rightarrow> bool" where
  "fracs_ok rs \<longleftrightarrow> list_all (\<lambda>r. \<exists>f. remFrac r = F f \<and> 0 \<le> f) rs"

lemma mset_insertRem: "mset (insertRem x ys) = add_mset x (mset ys)"
  by (induction ys) auto

lemma mset_sortRems [simp]: "mset (sortRems rs) = mset rs"
  by (induction rs) (simp_all add: sortRems_def mset_insertRem)

lemma set_sortRems [simp]: "set (sortRems rs) = set rs"
  by (metis mset_sortRems set_mset_mset)

lemma length_sortRems [simp]: "length (sortRems rs) = length rs"
  by (metis mset_sortRems size_mset)

lemma set_insertRem: "set (insertRem x ys) = insert x (set ys)"
  using mset_insertRem [of x ys] by (metis set_mset_add_mset_insert set_mset_mset)

lemma remCmp_fle:
  assumes "remFrac x = F a" "remFrac y = F b"
  shows "remCmp x y \<le> 0 \<Longrightarrow> fle (remFrac y) (remFrac x)"
    and "\<not> remCmp x y \<le> 0 \<Longrightarrow> fle (remFrac x) (remFrac y)"
  using assms by (auto simp: remCmp_def feq_def split: if_splits)

lemma insertRem_sorted:
  assumes "sorted_wrt (\<lambda>x y. fle (remFrac y) (remFrac x)) ys" "fracs_ok (x # ys)"
  shows "sorted_wrt (\<lambda>x y. fle (remFrac y) (remFrac x)) (insertRem x ys)"
  using assms
proof (induction ys)
  case (Cons y ys)
  obtain a b where ab: "remFrac x = F a" "remFrac y = F b" using Cons.prems(2) by (auto simp: fracs_ok_def)
  note c = remCmp_fle [OF ab]
  have tr: "fle (remFrac z) (remFrac x)" if xy: "remCmp x y \<le> 0" and z: "z \<in> set ys" for z
  proof -
    obtain f where "remFrac z = F f" using z Cons.prems(2) by (auto simp: fracs_ok_def list_all_iff)
    then show ?thesis using c(1) [OF xy] Cons.prems(1) z ab by auto
  qed
  show ?case
    using Cons c tr by (auto simp: set_insertRem fracs_ok_def)
qed simp

lemma sortRems_sorted:
  "fracs_ok rs \<Longrightarrow> sorted_wrt (\<lambda>x y. fle (remFrac y) (remFrac x)) (sortRems rs)"
proof (induction rs)
  case (Cons r rs)
  have "fracs_ok (r # sortRems rs)" using Cons.prems by (auto simp: fracs_ok_def list_all_iff)
  then show ?case using Cons insertRem_sorted [of "sortRems rs" r]
    by (simp add: sortRems_def fracs_ok_def)
qed (simp add: sortRems_def)

text \<open>In descending order the nonzero remainders come first.\<close>

lemma nonzero_first:
  assumes "sorted_wrt (\<lambda>x y. fle (remFrac y) (remFrac x)) rs" "fracs_ok rs"
    and "n \<le> length (filter (\<lambda>r. remFrac r \<noteq> F 0) rs)"
  shows "\<forall>r \<in> set (take n rs). remFrac r \<noteq> F 0"
  using assms
proof (induction rs arbitrary: n)
  case (Cons r rs)
  show ?case
  proof (cases "remFrac r = F 0")
    case True
    have "remFrac z = F 0" if z: "z \<in> set rs" for z
    proof -
      obtain f where f: "remFrac z = F f" "0 \<le> f"
        using z Cons.prems(2) by (auto simp: fracs_ok_def list_all_iff)
      moreover have "fle (remFrac z) (remFrac r)" using Cons.prems(1) z by simp
      ultimately show ?thesis using True by simp
    qed
    then have "filter (\<lambda>r. remFrac r \<noteq> F 0) (r # rs) = []" using True by auto
    then show ?thesis using Cons.prems(3) by simp
  next
    case False
    show ?thesis
    proof (cases n)
      case (Suc m)
      have "m \<le> length (filter (\<lambda>r. remFrac r \<noteq> F 0) rs)" using Cons.prems(3) False Suc by simp
      then have "\<forall>r \<in> set (take m rs). remFrac r \<noteq> F 0"
        using Cons.prems(1,2) by (intro Cons.IH) (simp_all add: fracs_ok_def)
      then show ?thesis using False Suc by simp
    qed simp
  qed
qed simp

section \<open>Handing out the leftover\<close>

lemma update_map:
  "distinct (map rcName cs) \<Longrightarrow> d \<in> set cs \<Longrightarrow>
   AList.update (rcName d) v (map (\<lambda>c. (rcName c, g c)) cs) =
     map (\<lambda>c. (rcName c, if rcName c = rcName d then v else g c)) cs"
proof (induction cs)
  case (Cons c cs)
  have "d \<in> set cs \<Longrightarrow> rcName c \<noteq> rcName d" using Cons.prems(1) by auto
  moreover have "rcName c = rcName d \<Longrightarrow> e \<in> set cs \<Longrightarrow> rcName e \<noteq> rcName d" for e
    using Cons.prems(1) by (auto simp: image_iff)
  ultimately show ?case using Cons by (auto intro!: map_cong)
qed simp

lemma map_of_names:
  "distinct (map rcName cs) \<Longrightarrow> d \<in> set cs \<Longrightarrow> map_of (map (\<lambda>c. (rcName c, g c)) cs) (rcName d) = Some (g d)"
  by (intro map_of_is_SomeI) (auto simp: comp_def)

lemma bump_map:
  assumes "distinct (map rcName cs)" "d \<in> set cs" "in64 (g d + 1)"
  shows "bump (rcName d) (map (\<lambda>c. (rcName c, g c)) cs) =
    map (\<lambda>c. (rcName c, if rcName c = rcName d then g d + 1 else g c)) cs"
  using assms by (simp add: bump_def map_of_names update_map add64_id)

lemma fold_bump:
  assumes "distinct (map rcName cs)" "distinct ns" "set ns \<subseteq> rcName ` set cs"
    and "\<And>c. c \<in> set cs \<Longrightarrow> rcName c \<in> set ns \<Longrightarrow> in64 (g c + 1)"
  shows "fold bump ns (map (\<lambda>c. (rcName c, g c)) cs) =
    map (\<lambda>c. (rcName c, g c + (if rcName c \<in> set ns then 1 else 0))) cs"
  using assms(2-)
proof (induction ns arbitrary: g)
  case (Cons n ns)
  obtain d where d: "d \<in> set cs" "n = rcName d" using Cons.prems(2) by auto
  let ?g = "\<lambda>c. if rcName c = rcName d then g d + 1 else g c"
  have inj: "c \<in> set cs \<Longrightarrow> rcName c = rcName d \<Longrightarrow> c = d" for c
    using assms(1) d(1) by (auto simp: distinct_map inj_on_def)
  have b: "bump n (map (\<lambda>c. (rcName c, g c)) cs) = map (\<lambda>c. (rcName c, ?g c)) cs"
    using bump_map [of cs d g] assms(1) Cons.prems(3) d by simp
  have new: "rcName d \<notin> set ns" using Cons.prems(1) d(2) by simp
  have "fold bump ns (map (\<lambda>c. (rcName c, ?g c)) cs) =
      map (\<lambda>c. (rcName c, ?g c + (if rcName c \<in> set ns then 1 else 0))) cs"
    using Cons.prems new by (intro Cons.IH) auto
  also have "\<dots> = map (\<lambda>c. (rcName c, g c + (if rcName c \<in> set (n # ns) then 1 else 0))) cs"
    using inj new d(2) by (intro map_cong) auto
  finally show ?case by (simp add: b)
qed simp

definition totalRequest :: "ResizableContainer list \<Rightarrow> int" where
  "totalRequest rcs = sum_list (map rcRequestMilli rcs)"

definition split_dom :: "int \<Rightarrow> ResizableContainer list \<Rightarrow> bool" where
  "split_dom T rcs \<longleftrightarrow> distinct (map rcName rcs) \<and> list_all (\<lambda>c. 0 \<le> rcRequestMilli c) rcs
     \<and> 0 < totalRequest rcs \<and> totalRequest rcs \<le> T \<and> T \<le> 2 ^ 24"

lemma PodCPURequestMilli_eq: "PodCPURequestMilli rcs = wrap64 (totalRequest rcs)"
proof -
  have "PodCPURequestMilli rcs = sum64 (map rcRequestMilli rcs)"
    by (simp add: PodCPURequestMilli_def sum64_def foldl_map)
  then show ?thesis by (simp add: sum64_eq totalRequest_def)
qed

lemma totalRequest_requested:
  "list_all (\<lambda>c. 0 \<le> rcRequestMilli c) rcs \<Longrightarrow> sum_list (map rcRequestMilli (requested rcs)) = totalRequest rcs"
  by (induction rcs) (auto simp: requested_def totalRequest_def)

lemma sum_list_distrib: "sum_list (map (\<lambda>c. a * f c) xs) = a * sum_list (map f xs :: int list)"
  by (induction xs) (simp_all add: distrib_left)

text \<open>The flooring leaves over at most one milli-core per container with a remainder.\<close>

lemma leftover_bounds:
  fixes cs :: "ResizableContainer list" and T :: int
  assumes "0 < S" "sum_list (map rcRequestMilli cs) = S"
  defines "L \<equiv> T - sum_list (map (floorShare T S) cs)"
  shows "0 \<le> L" "L \<le> int (length (filter (\<lambda>c. \<not> S dvd T * rcRequestMilli c) cs))"
proof -
  let ?m = "\<lambda>c. T * rcRequestMilli c mod S"
  have "T * S = sum_list (map (\<lambda>c. T * rcRequestMilli c) cs)"
    unfolding sum_list_distrib assms(2) by (rule refl)
  also have "\<dots> = sum_list (map (\<lambda>c. S * floorShare T S c + ?m c) cs)"
    by (simp add: floorShare_def)
  also have "\<dots> = S * sum_list (map (floorShare T S) cs) + sum_list (map ?m cs)"
    unfolding sum_list_addf sum_list_distrib by (rule refl)
  finally have e: "S * L = sum_list (map ?m cs)" by (simp add: L_def algebra_simps)
  have "0 \<le> sum_list (map ?m cs)" using assms(1) by (auto intro!: sum_list_nonneg)
  then show "0 \<le> L" using e assms(1) by (metis zero_le_mult_iff not_less)
  have "sum_list (map ?m cs) \<le> S * int (length (filter (\<lambda>c. \<not> S dvd T * rcRequestMilli c) cs))"
  proof (induction cs)
    case (Cons c cs)
    have "?m c \<le> (if S dvd T * rcRequestMilli c then 0 else S)"
      using pos_mod_bound [OF assms(1), of "T * rcRequestMilli c"] by (auto simp: dvd_eq_mod_eq_0)
    then show ?case using Cons by (simp add: algebra_simps split: if_splits)
  qed simp
  then show "L \<le> int (length (filter (\<lambda>c. \<not> S dvd T * rcRequestMilli c) cs))"
    unfolding e [symmetric] using assms(1) by simp
qed

lemma list_all2_filter_length:
  "list_all2 P rs cs \<Longrightarrow> (\<And>r c. c \<in> set cs \<Longrightarrow> P r c \<Longrightarrow> Q r \<longleftrightarrow> Q' c) \<Longrightarrow>
   length (filter Q rs) = length (filter Q' cs)"
  by (induction rule: list_all2_induct) auto

lemma fold_nth_take:
  assumes "k \<le> length rs"
  shows "fold (\<lambda>i. bump (remName (rs ! (i mod length rs)))) [0..<k] m = fold bump (map remName (take k rs)) m"
proof -
  have "map remName (take k rs) = map (\<lambda>i. remName (rs ! (i mod length rs))) [0..<k]"
    using assms by (intro nth_equalityI) auto
  then show ?thesis by (simp only: fold_map comp_def)
qed

lemma sum_list_indicator:
  assumes "distinct (map f cs)" "distinct ns" "set ns \<subseteq> f ` set cs"
  shows "(\<Sum>c\<leftarrow>cs. if f c \<in> set ns then 1 else 0) = int (length ns)"
proof -
  have "(\<Sum>c\<leftarrow>cs. if f c \<in> set ns then 1 else 0) = int (length (filter (\<lambda>k. k \<in> set ns) (map f cs)))"
    by (induction cs) auto
  also have "\<dots> = int (card (set ns \<inter> f ` set cs))"
    using distinct_length_filter [OF assms(1), of "\<lambda>k. k \<in> set ns"] by simp
  also have "\<dots> = int (length ns)" using assms(2,3) by (simp add: Int_absorb2 distinct_card)
  finally show ?thesis .
qed

text \<open>The names that get a milli-core: distinct, and only of containers with a remainder.\<close>

lemma bumped_names:
  assumes rems: "list_all2 (\<lambda>r c. remName r = rcName c \<and> remFrac r = fr c) rems R"
    and dR: "distinct (map rcName R)"
    and fr: "\<And>c. c \<in> set R \<Longrightarrow> \<exists>f. fr c = F f \<and> 0 \<le> f \<and> (f = 0 \<longleftrightarrow> P c)"
    and k: "k \<le> length (filter (\<lambda>c. \<not> P c) R)"
  defines "ns \<equiv> map remName (take k (sortRems rems))"
  shows "length ns = k" "k \<le> length (sortRems rems)" "distinct ns" "set ns \<subseteq> rcName ` set R"
    and "c \<in> set R \<Longrightarrow> rcName c \<in> set ns \<Longrightarrow> \<not> P c"
proof -
  let ?q = "sortRems rems"
  have r: "\<exists>c \<in> set R. remName r = rcName c \<and> (\<exists>f. remFrac r = F f \<and> 0 \<le> f \<and> (f = 0 \<longleftrightarrow> P c))"
    if "r \<in> set rems" for r
    using rems that fr by (auto simp: list_all2_conv_all_nth in_set_conv_nth) (metis nth_mem)
  have ok: "fracs_ok rems" "fracs_ok ?q" using r by (fastforce simp: fracs_ok_def list_all_iff)+
  have "length (filter (\<lambda>r. remFrac r \<noteq> F 0) rems) = length (filter (\<lambda>c. \<not> P c) R)"
    using rems by (rule list_all2_filter_length) (use fr in force)
  moreover have "length (filter (\<lambda>r. remFrac r \<noteq> F 0) ?q) = length (filter (\<lambda>r. remFrac r \<noteq> F 0) rems)"
    by (metis mset_filter mset_sortRems size_mset)
  ultimately have n: "k \<le> length (filter (\<lambda>r. remFrac r \<noteq> F 0) ?q)" using k by simp
  then show len: "k \<le> length ?q" using length_filter_le order.trans by blast
  then show "length ns = k" by (simp add: ns_def)
  have nz: "\<forall>r \<in> set (take k ?q). remFrac r \<noteq> F 0"
    using sortRems_sorted [OF ok(1)] ok(2) n by (rule nonzero_first)
  have "map remName rems = map rcName R"
    using rems by (auto simp: list_all2_conv_all_nth intro!: nth_equalityI)
  then have "mset (map remName ?q) = mset (map rcName R)" by (metis mset_map mset_sortRems)
  then have "distinct (map remName ?q)" using dR mset_eq_imp_distinct_iff by blast
  then show "distinct ns" by (simp add: ns_def take_map [symmetric] distinct_take)
  show "set ns \<subseteq> rcName ` set R" using r by (fastforce simp: ns_def dest: in_set_takeD)
  show "\<not> P c" if c: "c \<in> set R" "rcName c \<in> set ns" for c
  proof -
    obtain x where x: "x \<in> set (take k ?q)" "remName x = rcName c" using c(2) by (auto simp: ns_def)
    then have "x \<in> set rems" by (metis in_set_takeD set_sortRems)
    then obtain e f where e: "e \<in> set R" "rcName e = rcName c" "remFrac x = F f" "f = 0 \<longleftrightarrow> P e"
      using r x(2) by metis
    then have "e = c" using dR c(1) by (auto simp: distinct_map inj_on_def)
    then show ?thesis using e nz x(1) by auto
  qed
qed

lemma split_domD:
  assumes "split_dom T rcs"
  shows "distinct (map rcName rcs)" "0 < totalRequest rcs" "totalRequest rcs \<le> T" "T \<le> 2 ^ 24"
    "PodCPURequestMilli rcs = totalRequest rcs" "rcs \<noteq> []"
    "sum_list (map rcRequestMilli (requested rcs)) = totalRequest rcs"
    "distinct (map rcName (requested rcs))"
    "c \<in> set (requested rcs) \<Longrightarrow> 0 < rcRequestMilli c"
    "c \<in> set (requested rcs) \<Longrightarrow> rcRequestMilli c \<le> totalRequest rcs"
proof -
  show d: "distinct (map rcName rcs)" "0 < totalRequest rcs" "totalRequest rcs \<le> T" "T \<le> 2 ^ 24"
    using assms by (auto simp: split_dom_def)
  show "PodCPURequestMilli rcs = totalRequest rcs" "rcs \<noteq> []"
    using d by (auto simp: PodCPURequestMilli_eq wrap64_id in64_def totalRequest_def)
  show s: "sum_list (map rcRequestMilli (requested rcs)) = totalRequest rcs"
    using assms by (intro totalRequest_requested) (simp add: split_dom_def)
  show "distinct (map rcName (requested rcs))" using d(1) by (simp add: requested_def distinct_map_filter)
  show "c \<in> set (requested rcs) \<Longrightarrow> 0 < rcRequestMilli c" by (simp add: requested_def)
  show "c \<in> set (requested rcs) \<Longrightarrow> rcRequestMilli c \<le> totalRequest rcs"
    using sum_list_nonneg_member [of "map rcRequestMilli (requested rcs)"] s by (fastforce simp: requested_def)
qed

lemma splitLimit_shape:
  assumes "split_dom T rcs"
  shows "\<exists>ns. splitLimit T rcs = Some (map (\<lambda>c. (rcName c,
        floorShare T (totalRequest rcs) c + (if rcName c \<in> set ns then 1 else 0))) (requested rcs))
    \<and> distinct ns \<and> set ns \<subseteq> rcName ` set (requested rcs)
    \<and> int (length ns) = T - sum_list (map (floorShare T (totalRequest rcs)) (requested rcs))
    \<and> (\<forall>c \<in> set (requested rcs). rcName c \<in> set ns \<longrightarrow> \<not> totalRequest rcs dvd T * rcRequestMilli c)"
proof -
  let ?S = "totalRequest rcs" and ?R = "requested rcs"
  let ?g = "floorShare T ?S"
  note dom = split_domD [OF assms]
  have sf: "int_of_float (shareOf T ?S c) = ?g c" "rcRequestMilli c \<le> ?g c" "?g c \<le> T"
    "\<exists>f. fsub (shareOf T ?S c) (float_of_int (?g c)) = F f \<and> 0 \<le> f \<and> (f = 0 \<longleftrightarrow> ?S dvd T * rcRequestMilli c)"
    if "c \<in> set ?R" for c using share_facts [of c ?S T] dom(3,4) dom(9,10) [OF that] by auto
  obtain out a rems where l: "splitLoop T ?S 0 rcs ([], wrap64 0, []) = (out, a, rems)"
    by (cases "splitLoop T ?S 0 rcs ([], wrap64 0, [])") auto
  have out: "out = map (\<lambda>c. (rcName c, ?g c)) ?R" and a: "a = wrap64 (sum_list (map ?g ?R))"
    and rems: "list_all2 (\<lambda>r c. remName r = rcName c \<and> remFrac r = fsub (shareOf T ?S c) (float_of_int (?g c))) rems ?R"
    using splitLoop_eq [OF _ dom(1) _ l, of ?g] sf by (auto simp: requested_def)
  define L where "L = T - sum_list (map ?g ?R)"
  have L: "0 \<le> L" "L \<le> int (length (filter (\<lambda>c. \<not> ?S dvd T * rcRequestMilli c) ?R))"
    using leftover_bounds [OF dom(2,7), of T] by (simp_all add: L_def)
  have "0 \<le> sum_list (map ?g ?R)" using sf(2) dom(9) by (force intro!: sum_list_nonneg)
  then have "in64 (sum_list (map ?g ?R))" "in64 L"
    using L(1) dom(4) by (auto simp: L_def in64_def)
  then have left: "sub64 T a = L" by (simp add: a wrap64_id sub64_id L_def)
  define ns where "ns = map remName (take (nat L) (sortRems rems))"
  have k: "nat L \<le> length (filter (\<lambda>c. \<not> ?S dvd T * rcRequestMilli c) ?R)" using L by simp
  note b = bumped_names [OF rems dom(8) sf(4) k, folded ns_def]
  have "splitLimit T rcs = Some (fold bump ns out)"
  proof -
    have z: "wrap64 0 = 0" by (simp add: wrap64_def)
    have "sortRems rems \<noteq> []" if "0 < L" using that b(2) by force
    then show ?thesis
      using dom(2,5,6) l left L(1) fold_nth_take [OF b(2), of out]
      by (cases "L = 0") (auto simp: splitLimit_def z Let_def ns_def)
  qed
  moreover have "fold bump ns out = map (\<lambda>c. (rcName c, ?g c + (if rcName c \<in> set ns then 1 else 0))) ?R"
    unfolding out using dom(8) b(3,4) sf(2,3) dom(4,9)
    by (intro fold_bump) (fastforce simp: in64_def)+
  ultimately show ?thesis using b L(1) by (auto simp: L_def)
qed

section \<open>The contract of the split\<close>

text \<open>The limits a resize leaves on the containers.\<close>

definition withLimits :: "(string, int64) gomap \<Rightarrow> ResizableContainer list \<Rightarrow> ResizableContainer list" where
  "withLimits out rcs =
     map (\<lambda>c. case mget out (rcName c) of None \<Rightarrow> c | Some m \<Rightarrow> c\<lparr>rcLimitMilli := m\<rparr>) rcs"

lemma cdiv_le_iff: "0 < D \<Longrightarrow> cdiv v D \<le> m \<longleftrightarrow> v \<le> m * D"
proof -
  assume D: "0 < D"
  have "cdiv v D \<le> m \<longleftrightarrow> (of_int v :: rat) \<le> of_int (m * D)"
    using D by (simp add: cdiv_ceiling ceiling_le_iff pos_divide_le_eq)
  then show ?thesis by (simp only: of_int_le_iff)
qed

lemma currentLimitLoop_eq:
  assumes "list_all (\<lambda>c. 0 < rcRequestMilli c \<longrightarrow> 0 < rcLimitMilli c) rcs"
  shows "currentLimitLoop rcs (wrap64 s) = wrap64 (s + sum_list (map rcLimitMilli (requested rcs)))"
  using assms
proof (induction rcs arbitrary: s)
  case (Cons c cs)
  have "add64 (wrap64 s) (rcLimitMilli c) = wrap64 (s + rcLimitMilli c)"
    by (simp add: add64_def wrap64_add_left)
  then show ?case using Cons by (auto simp: requested_def add.assoc)
qed (simp add: requested_def)

locale limit_split =
  fixes split :: "int64 \<Rightarrow> ResizableContainer list \<Rightarrow> (string, int64) gomap option"
    and dom :: "int64 \<Rightarrow> ResizableContainer list \<Rightarrow> bool"
  assumes split_total: "dom T rcs \<Longrightarrow> \<exists>f. split T rcs = Some (map (\<lambda>c. (rcName c, f c)) (requested rcs))
      \<and> sum_list (map f (requested rcs)) = T
      \<and> (\<forall>c \<in> set (requested rcs). rcRequestMilli c \<le> f c
           \<and> f c \<le> cdiv (T * rcRequestMilli c) (totalRequest rcs))"
    and dom_names: "dom T rcs \<Longrightarrow> distinct (map rcName rcs)"
    and dom_target: "dom T rcs \<Longrightarrow> in64 T"
    and dom_request: "dom T rcs \<Longrightarrow> 0 < totalRequest rcs"
begin

lemma split_lookup:
  assumes "dom T rcs"
  shows "\<exists>f. split T rcs = Some (map (\<lambda>c. (rcName c, f c)) (requested rcs))
    \<and> sum_list (map f (requested rcs)) = T
    \<and> (\<forall>c \<in> set (requested rcs). rcRequestMilli c \<le> f c
        \<and> f c \<le> cdiv (T * rcRequestMilli c) (totalRequest rcs)
        \<and> map_of (map (\<lambda>c. (rcName c, f c)) (requested rcs)) (rcName c) = Some (f c))
    \<and> (\<forall>c \<in> set rcs - set (requested rcs).
         map_of (map (\<lambda>c. (rcName c, f c)) (requested rcs)) (rcName c) = None)"
proof -
  obtain f where f: "split T rcs = Some (map (\<lambda>c. (rcName c, f c)) (requested rcs))"
    "sum_list (map f (requested rcs)) = T"
    "\<forall>c \<in> set (requested rcs). rcRequestMilli c \<le> f c \<and> f c \<le> cdiv (T * rcRequestMilli c) (totalRequest rcs)"
    using split_total [OF assms] by blast
  have d: "distinct (map rcName rcs)" using dom_names [OF assms] .
  then have "distinct (map rcName (requested rcs))" by (simp add: requested_def distinct_map_filter)
  moreover have "rcName c \<notin> rcName ` set (requested rcs)" if "c \<in> set rcs - set (requested rcs)" for c
    using d that by (auto simp: distinct_map inj_on_def requested_def)
  ultimately show ?thesis using f
    by (intro exI [of _ f]) (auto simp: map_of_names map_of_eq_None_iff image_image)
qed

text \<open>The limit read back after a resize is the target that was split.\<close>

lemma read_back:
  assumes "dom T rcs"
  shows "\<exists>out. split T rcs = Some out \<and> PodCurrentLimitMilli (withLimits out rcs) = T"
proof -
  obtain f where f: "split T rcs = Some (map (\<lambda>c. (rcName c, f c)) (requested rcs))"
    "sum_list (map f (requested rcs)) = T"
    "\<And>c. c \<in> set (requested rcs) \<Longrightarrow> rcRequestMilli c \<le> f c"
    "\<And>c. c \<in> set (requested rcs) \<Longrightarrow> map_of (map (\<lambda>c. (rcName c, f c)) (requested rcs)) (rcName c) = Some (f c)"
    "\<And>c. c \<in> set rcs - set (requested rcs) \<Longrightarrow>
       map_of (map (\<lambda>c. (rcName c, f c)) (requested rcs)) (rcName c) = None"
    using split_lookup [OF assms] by auto
  let ?out = "map (\<lambda>c. (rcName c, f c)) (requested rcs)"
  have w: "withLimits ?out rcs = map (\<lambda>c. if 0 < rcRequestMilli c then c\<lparr>rcLimitMilli := f c\<rparr> else c) rcs"
    unfolding withLimits_def using f(4,5) by (intro map_cong) (auto simp: requested_def)
  have "requested (map (\<lambda>c. if 0 < rcRequestMilli c then c\<lparr>rcLimitMilli := f c\<rparr> else c) xs) =
      map (\<lambda>c. c\<lparr>rcLimitMilli := f c\<rparr>) (requested xs)" for xs
    by (induction xs) (auto simp: requested_def)
  then have "map rcLimitMilli (requested (withLimits ?out rcs)) = map f (requested rcs)"
    by (simp add: w comp_def)
  moreover have "c \<in> set rcs \<Longrightarrow> 0 < rcRequestMilli c \<Longrightarrow> 0 < f c" for c
    using f(3) [of c] by (simp add: requested_def)
  then have "list_all (\<lambda>c. 0 < rcRequestMilli c \<longrightarrow> 0 < rcLimitMilli c) (withLimits ?out rcs)"
    by (auto simp: w list_all_iff)
  moreover have "wrap64 0 = 0" by (simp add: wrap64_def)
  ultimately have "PodCurrentLimitMilli (withLimits ?out rcs) = T"
    using currentLimitLoop_eq [of "withLimits ?out rcs" 0] dom_target [OF assms] f(2)
    by (simp add: PodCurrentLimitMilli_def wrap64_id)
  then show ?thesis using f(1) by blast
qed

text \<open>A target small enough for the pro-rata share of a container keeps its limit below a bound.\<close>

lemma share_below:
  assumes "dom T rcs" "c \<in> set (requested rcs)" "T * rcRequestMilli c \<le> m * totalRequest rcs"
    and "split T rcs = Some out"
  shows "\<exists>l. mget out (rcName c) = Some l \<and> l \<le> m"
proof -
  obtain f where f: "split T rcs = Some (map (\<lambda>c. (rcName c, f c)) (requested rcs))"
    "f c \<le> cdiv (T * rcRequestMilli c) (totalRequest rcs)"
    "map_of (map (\<lambda>c. (rcName c, f c)) (requested rcs)) (rcName c) = Some (f c)"
    using split_lookup [OF assms(1)] assms(2) by auto
  have "f c \<le> m"
    using f(2) assms(3) cdiv_le_iff [OF dom_request [OF assms(1)]] by (meson order.trans)
  then show ?thesis using f(1,3) assms(4) by auto
qed

end

interpretation sl: limit_split splitLimit split_dom
proof unfold_locales
  fix T rcs
  assume d: "split_dom T rcs"
  note dom = split_domD [OF d]
  show "distinct (map rcName rcs)" "0 < totalRequest rcs" using dom by auto
  show "in64 T" using dom(2-4) by (simp add: in64_def)
  let ?S = "totalRequest rcs"
  obtain ns where ns: "splitLimit T rcs = Some (map (\<lambda>c. (rcName c,
        floorShare T ?S c + (if rcName c \<in> set ns then 1 else 0))) (requested rcs))"
    "distinct ns" "set ns \<subseteq> rcName ` set (requested rcs)"
    "int (length ns) = T - sum_list (map (floorShare T ?S) (requested rcs))"
    "\<forall>c \<in> set (requested rcs). rcName c \<in> set ns \<longrightarrow> \<not> ?S dvd T * rcRequestMilli c"
    using splitLimit_shape [OF d] by blast
  let ?f = "\<lambda>c. floorShare T ?S c + (if rcName c \<in> set ns then 1 else 0)"
  have "sum_list (map ?f (requested rcs)) = T"
    unfolding sum_list_addf using sum_list_indicator [OF dom(8) ns(2,3)] ns(4) by simp
  moreover have "rcRequestMilli c \<le> ?f c \<and> ?f c \<le> cdiv (T * rcRequestMilli c) ?S"
    if c: "c \<in> set (requested rcs)" for c
    using share_facts(2) [of c ?S T] dom(3,4) dom(9,10) [OF c] ns(5) c by (auto simp: cdiv_def floorShare_def)
  ultimately show "\<exists>f. splitLimit T rcs = Some (map (\<lambda>c. (rcName c, f c)) (requested rcs))
      \<and> sum_list (map f (requested rcs)) = T
      \<and> (\<forall>c \<in> set (requested rcs). rcRequestMilli c \<le> f c \<and> f c \<le> cdiv (T * rcRequestMilli c) ?S)"
    using ns(1) by (intro exI [of _ ?f]) blast
qed

end
