(* ===== verification/LimitRanges.thy ===== *)
theory LimitRanges
  imports PodInputs
begin

text \<open>
  What the LimitRange ceiling of \<open>internal/eligibility\<close> guarantees of the limits that
  \<open>splitLimit\<close> writes: a maximum or a limit-to-request ratio, per container or per pod,
  holds of every target that stops at the ceiling.
\<close>

section \<open>The ratio comparison\<close>

text \<open>The float comparison a limit has to pass.\<close>

definition ratioAdmits :: "int64 \<Rightarrow> int64 \<Rightarrow> int64 \<Rightarrow> bool" where
  "ratioAdmits ratioMilli requestMilli limit \<longleftrightarrow>
     \<not> fless (float_of_int ratioMilli)
        (fmul (fdiv (float_of_int limit) (float_of_int requestMilli)) (F 1000))"

lemma rnd64_rel:
  assumes "1 / 2 ^ 100 \<le> x"
  shows "\<bar>rnd64 x - x\<bar> \<le> x / 2 ^ 53"
proof -
  have x: "0 < x" using assms by (rule less_le_trans [rotated]) simp
  have "pow2 (- 100) \<le> x" using assms by (simp add: power_int_minus inverse_eq_divide)
  then have l: "- 100 \<le> ilog2 x" by (simp only: ilog2_iff [OF x])
  then have e: "exponent64 x = ilog2 x - 52" using x by (simp add: exponent64_def)
  let ?p = "pow2 (exponent64 x)"
  have p: "0 < ?p" by simp
  have "rnd64 x - x = (of_int (rne (x / ?p)) - x / ?p) * ?p"
    using x p by (simp add: rnd64_def left_diff_distrib)
  then have "\<bar>rnd64 x - x\<bar> = \<bar>of_int (rne (x / ?p)) - x / ?p\<bar> * ?p" using p by (simp add: abs_mult)
  also have "\<dots> \<le> 1 / 2 * ?p" using rne_err [of "x / ?p"] p by (intro mult_right_mono) auto
  also have "?p = pow2 (ilog2 x) / 2 ^ 52" unfolding e pow2_divide [symmetric] by (simp add: power_int_def)
  also have "1 / 2 * (pow2 (ilog2 x) / 2 ^ 52) \<le> 1 / 2 * (x / 2 ^ 52)"
    using ilog2_le [OF x] by (intro mult_left_mono divide_right_mono) auto
  finally show ?thesis by simp
qed

lemma compose_err:
  fixes q y z :: rat
  assumes "\<bar>y - q\<bar> \<le> q / 2 ^ 53" "\<bar>z - y * 1000\<bar> \<le> y * 1000 / 2 ^ 53" "0 \<le> q"
  shows "\<bar>z - q * 1000\<bar> \<le> q * 1000 / 2 ^ 51"
proof -
  have "y - q \<le> q / 2 ^ 53" "q - y \<le> q / 2 ^ 53" "z - y * 1000 \<le> y * 1000 / 2 ^ 53" "y * 1000 - z \<le> y * 1000 / 2 ^ 53"
    using assms(1,2) by linarith+
  moreover have "(2 :: rat) ^ 53 = 9007199254740992" "(2 :: rat) ^ 51 = 2251799813685248" by simp_all
  ultimately show ?thesis using assms(3) unfolding abs_le_iff by simp
qed

lemma ratio_obs:
  assumes "0 < r" "r \<le> 2 ^ 50" "0 \<le> l" "l \<le> 2 ^ 50"
  shows "\<exists>z. fmul (fdiv (float_of_int l) (float_of_int r)) (F 1000) = F z
     \<and> \<bar>z - of_int (l * 1000) / of_int r\<bar> \<le> of_int (l * 1000) / of_int r / 2 ^ 51"
proof -
  let ?q = "of_int l / of_int r :: rat"
  let ?y = "rnd64 ?q"
  have d: "fdiv (float_of_int l) (float_of_int r) = F ?y"
    using float_quotient [of l r] assms by (simp add: float_of_int_exact)
  have q1: "?q \<le> of_int l" using assms by (simp add: pos_divide_le_eq mult_le_cancel_left1)
  have "rnd64 ?q \<le> rnd64 (of_int l)" using q1 by (rule b64.mono)
  then have y1: "?y \<le> 2 ^ 50" "0 \<le> ?y"
    using assms b64.exact_int [of l] by (auto intro!: b64.nonneg simp: divide_nonneg_nonneg)
  then have f: "fmul (F ?y) (F 1000) = F (rnd64 (?y * 1000))" by (simp add: fnorm_small)
  have "\<bar>rnd64 (?y * 1000) - ?q * 1000\<bar> \<le> ?q * 1000 / 2 ^ 51"
  proof (cases "l = 0")
    case False
    then have "1 \<le> l" using assms by simp
    then have "(1 / 2 ^ 50 :: rat) \<le> of_int l / of_int r" using assms by (intro frac_le) auto
    then have q: "1 / 2 ^ 50 \<le> ?q" .
    then have e1: "\<bar>?y - ?q\<bar> \<le> ?q / 2 ^ 53"
      by (intro rnd64_rel order.trans [OF _ q]) simp
    then have "?q - ?q / 2 ^ 53 \<le> ?y" by (simp add: abs_le_iff)
    moreover have "?q / 2 \<le> ?q - ?q / 2 ^ 53" using q by simp
    ultimately have "1 / 2 ^ 100 \<le> ?y * 1000" using q by simp
    then have e2: "\<bar>rnd64 (?y * 1000) - ?y * 1000\<bar> \<le> ?y * 1000 / 2 ^ 53" by (rule rnd64_rel)
    show ?thesis using e1 e2 by (rule compose_err) (use assms in simp)
  qed simp
  then show ?thesis using d f by (intro exI [of _ "rnd64 (?y * 1000)"]) (simp add: mult.commute)
qed

lemma ratioAdmits_down:
  assumes "0 < r" "r \<le> 2 ^ 50" "0 \<le> k" "k \<le> l" "l \<le> 2 ^ 50" "ratioAdmits ratio r l"
  shows "ratioAdmits ratio r k"
proof -
  have d: "fdiv (float_of_int i) (float_of_int r) = F (rnd64 (of_int i / of_int r))"
    if "0 \<le> i" "i \<le> 2 ^ 50" for i
    using float_quotient [of i r] assms that by (simp add: float_of_int_exact)
  have b: "0 \<le> rnd64 (of_int i / of_int r) \<and> rnd64 (of_int i / of_int r) \<le> 2 ^ 50"
    if "0 \<le> i" "i \<le> 2 ^ 50" for i
  proof -
    have "of_int i / of_int r \<le> (of_int i :: rat)"
      using assms that by (simp add: pos_divide_le_eq mult_le_cancel_left1)
    then have "rnd64 (of_int i / of_int r) \<le> of_int i"
      using that b64.exact_int [of i] b64.mono [of "of_int i / of_int r" "of_int i"] by simp
    moreover have "(of_int i :: rat) \<le> of_int (2 ^ 50)" using that by (simp only: of_int_le_iff)
    ultimately show ?thesis using assms that by (auto intro!: b64.nonneg simp: divide_nonneg_nonneg)
  qed
  have "of_int k / of_int r \<le> (of_int l / of_int r :: rat)" using assms by (intro divide_right_mono) auto
  then have "rnd64 (rnd64 (of_int k / of_int r) * 1000) \<le> rnd64 (rnd64 (of_int l / of_int r) * 1000)"
    by (intro b64.mono) (simp add: b64.mono)
  moreover have "fmul (F (rnd64 (of_int i / of_int r))) (F 1000) = F (rnd64 (rnd64 (of_int i / of_int r) * 1000))"
    if "0 \<le> i" "i \<le> 2 ^ 50" for i using b [OF that] by (simp add: fnorm_small)
  ultimately show ?thesis
    using assms d by (cases "float_of_int ratio") (auto simp: ratioAdmits_def)
qed

text \<open>Near the exact ratio the comparison is off by at most one milli-core.\<close>

lemma ratioAdmits_exact:
  assumes "0 < r" "0 \<le> ratio" "ratio * r \<le> 2 ^ 45" "ratio \<le> 2 ^ 45" "r \<le> 2 ^ 45" "0 \<le> l"
  shows "l * 1000 + 1000 \<le> ratio * r \<Longrightarrow> ratioAdmits ratio r l"
    and "ratio * r < l * 1000 \<Longrightarrow> l * 1000 \<le> ratio * r + 1000 \<Longrightarrow> \<not> ratioAdmits ratio r l"
proof -
  let ?x = "of_int (l * 1000) / of_int r :: rat"
  have R: "float_of_int ratio = F (of_int ratio)" using assms by (intro float_of_int_exact) auto
  have r: "(0 :: rat) < of_int r" using assms(1) by simp
  {
    assume le: "l * 1000 + 1000 \<le> ratio * r"
    then obtain z where z: "fmul (fdiv (float_of_int l) (float_of_int r)) (F 1000) = F z" "\<bar>z - ?x\<bar> \<le> ?x / 2 ^ 51"
      using ratio_obs [of r l] assms by force
    have "(of_int (l * 1000 + 1000) :: rat) \<le> of_int (ratio * r)" using le by (simp only: of_int_le_iff)
    then have x: "?x + 1000 / of_int r \<le> of_int ratio" using r by (simp add: field_simps)
    have "(of_int (l * 1000) :: rat) \<le> of_int (1000 * 2 ^ 51)" using le assms(3) by (subst of_int_le_iff) simp
    then have "?x \<le> 1000 * 2 ^ 51 / of_int r" using r by (intro divide_right_mono) auto
    then have "?x / 2 ^ 51 \<le> 1000 / of_int r" using r by (simp add: field_simps)
    then have "z \<le> of_int ratio" using z(2) x by (simp add: abs_le_iff)
    then show "ratioAdmits ratio r l" by (simp add: ratioAdmits_def z(1) R)
  next
    assume gt: "ratio * r < l * 1000" and near: "l * 1000 \<le> ratio * r + 1000"
    then obtain z where z: "fmul (fdiv (float_of_int l) (float_of_int r)) (F 1000) = F z" "\<bar>z - ?x\<bar> \<le> ?x / 2 ^ 51"
      using ratio_obs [of r l] assms by force
    have "(of_int (ratio * r + 1) :: rat) \<le> of_int (l * 1000)" using gt by (simp only: of_int_le_iff)
    then have "of_int (ratio * r + 1) / of_int r \<le> ?x" using r by (intro divide_right_mono) auto
    then have x: "of_int ratio + 1 / of_int r \<le> ?x" using r by (simp add: add_divide_distrib)
    have "(of_int (l * 1000) :: rat) \<le> of_int (2 ^ 50)" using near assms(3) by (subst of_int_le_iff) simp
    then have "?x \<le> 2 ^ 50 / of_int r" using r by (intro divide_right_mono) auto
    then have "?x / 2 ^ 51 \<le> 1 / 2 / of_int r" using r by (simp add: field_simps)
    moreover have "1 / 2 / of_int r < (1 / of_int r :: rat)" using r by (simp add: field_simps)
    ultimately have "of_int ratio < z" using z(2) x by (simp add: abs_le_iff)
    then show "\<not> ratioAdmits ratio r l" by (simp add: ratioAdmits_def z(1) R)
  }
qed

lemma float_of_MaxInt64: "\<exists>x. float_of_int MaxInt64 = F x \<and> 2 ^ 62 \<le> x"
proof -
  have "float_of_int MaxInt64 = F (rnd64 (of_int MaxInt64))"
    unfolding float_of_int_def by (rule fnorm_small) (simp add: MaxInt64_def)
  moreover have "(2 ^ 62 :: rat) \<le> rnd64 (of_int MaxInt64)"
    by (rule b64.ge_grid, rule repr64I [of _ 1 62]) (simp_all add: MaxInt64_def power_int_def)
  ultimately show ?thesis by blast
qed

definition ratio_dom :: "int64 \<Rightarrow> int64 \<Rightarrow> bool" where
  "ratio_dom ratio r \<longleftrightarrow> 0 < r \<and> r \<le> 2 ^ 45 \<and> 0 \<le> ratio \<and> ratio \<le> 2 ^ 45 \<and> ratio * r \<le> 2 ^ 45"

lemma ratioLimitMilli_eq:
  assumes "ratio_dom ratio r"
  defines "m \<equiv> ratio * r div 1000"
  shows "ratioLimitMilli ratio r = (if ratioAdmits ratio r m then m else m - 1)"
proof -
  have d: "0 < r" "r \<le> 2 ^ 45" "0 \<le> ratio" "ratio \<le> 2 ^ 45" "ratio * r \<le> 2 ^ 45" "0 \<le> ratio * r"
    using assms(1) by (auto simp: ratio_dom_def)
  have p: "fmul (float_of_int ratio) (float_of_int r) = F (of_int (ratio * r))"
    using d by (intro fmul_ints) auto
  have "(of_int (ratio * r) :: rat) \<le> of_int (2 ^ 45)" using d(5) by (simp only: of_int_le_iff)
  then have guard: "\<not> fle (float_of_int MaxInt64) (fmul (float_of_int ratio) (float_of_int r))"
    using float_of_MaxInt64 by (auto simp: p)
  have "0 \<le> m" "m \<le> 2 ^ 45"
    using d div_le_dividend_int [of "ratio * r" 1000] by (auto simp: m_def pos_imp_zdiv_nonneg_iff)
  moreover have "mul64 ratio r = ratio * r" using d by (intro mul64_id in64I) (auto simp: MaxInt64_def)
  moreover have "div64 (ratio * r) 1000 = m" unfolding m_def using d by (intro div64_pos) auto
  ultimately show ?thesis
    using guard by (auto simp: ratioLimitMilli_def ratioAdmits_def Let_def sub64_id in64_def)
qed

lemma ratioLimitMilli_spec:
  assumes "ratio_dom ratio r"
  shows "0 \<le> ratioLimitMilli ratio r" "ratioLimitMilli ratio r * 1000 \<le> ratio * r"
    and "0 \<le> l \<Longrightarrow> l \<le> 2 ^ 50 \<Longrightarrow> ratioAdmits ratio r l \<longleftrightarrow> l \<le> ratioLimitMilli ratio r"
proof -
  let ?m = "ratio * r div 1000" and ?L = "ratioLimitMilli ratio r"
  have d: "0 < r" "r \<le> 2 ^ 45" "0 \<le> ratio" "ratio \<le> 2 ^ 45" "ratio * r \<le> 2 ^ 45" "0 \<le> ratio * r"
    using assms by (auto simp: ratio_dom_def)
  note L = ratioLimitMilli_eq [OF assms] and ex = ratioAdmits_exact [OF d(1,3,5,4,2)]
  have m: "?m * 1000 \<le> ratio * r" "ratio * r < (?m + 1) * 1000" "0 \<le> ?m"
    using d(6) by (simp_all add: pos_imp_zdiv_nonneg_iff)
  obtain z where "fmul (fdiv (float_of_int 0) (float_of_int r)) (F 1000) = F z" "\<bar>z\<bar> \<le> 0"
    using ratio_obs [of r 0] d by force
  then have zero: "ratioAdmits ratio r 0" using d by (simp add: ratioAdmits_def float_of_int_exact)
  then have pos: "\<not> ratioAdmits ratio r ?m \<Longrightarrow> 1 \<le> ?m" using m(3) by (cases "?m = 0") auto
  show L0: "0 \<le> ?L" using L m(3) pos by auto
  show Lm: "?L * 1000 \<le> ratio * r" using L m(1) by auto
  have adm: "ratioAdmits ratio r ?L"
  proof (cases "ratioAdmits ratio r ?m")
    case False
    then have "ratioAdmits ratio r (?m - 1)" using pos m(1) by (intro ex(1)) auto
    then show ?thesis using L False by simp
  qed (use L in simp)
  have nadm: "\<not> ratioAdmits ratio r (?L + 1)"
  proof (cases "ratioAdmits ratio r ?m")
    case True
    then have "\<not> ratioAdmits ratio r (?m + 1)" using m by (intro ex(2)) auto
    then show ?thesis using L True by simp
  qed (use L in simp)
  show "ratioAdmits ratio r l \<longleftrightarrow> l \<le> ?L" if l: "0 \<le> l" "l \<le> 2 ^ 50"
  proof
    show "ratioAdmits ratio r l" if "l \<le> ?L"
      using ratioAdmits_down [of r l ?L ratio] adm that l d Lm by simp
    show "l \<le> ?L" if "ratioAdmits ratio r l"
      using ratioAdmits_down [of r "?L + 1" l ratio] nadm that l d L0 by force
  qed
qed

section \<open>The ceiling\<close>

text \<open>The rules of a LimitRange item on the container limits of a pod, as exact integer
  comparisons (\<open>ratioAdmits\<close> for the ratios). Container rules are those on the containers with
  a request, whose limits the split writes; pod rules leave out init containers that do not keep
  running. The API server checks the other containers too: the program leaves their limits as
  they are and reports a denial (\<open>docs/runbook.md\<close>, \<open>limitrange-denied\<close>).\<close>

definition lrHolds :: "ResizableContainer list \<Rightarrow> int64 \<Rightarrow> (string, int64) gomap \<Rightarrow> LimitRangeItem \<Rightarrow> bool" where
  "lrHolds rcs podRequest out item \<longleftrightarrow>
     (let maxMilli = MilliValue (Cpu (Some (lrMax item)));
          ratioMilli = MilliValue (Cpu (Some (lrMaxLimitRequestRatio item)));
          hasMax = (mget (lrMax item) ResourceCPU \<noteq> None);
          hasRatio = (mget (lrMaxLimitRequestRatio item) ResourceCPU \<noteq> None);
          untouched = sum_list (map rcLimitMilli (filter (\<lambda>c. rcRequestMilli c \<le> 0) rcs));
          podLimit = sum_list (map snd out) + untouched
      in (lrType item = ''Container'' \<and> hasMax \<longrightarrow> list_all (\<lambda>(n, l). l \<le> maxMilli) out)
       \<and> (lrType item = ''Container'' \<and> hasRatio \<longrightarrow>
            list_all (\<lambda>c. case mget out (rcName c) of None \<Rightarrow> True
                         | Some l \<Rightarrow> ratioAdmits ratioMilli (rcRequestMilli c) l) rcs)
       \<and> (lrType item = ''Pod'' \<and> hasMax \<longrightarrow> podLimit \<le> maxMilli)
       \<and> (lrType item = ''Pod'' \<and> hasRatio \<longrightarrow> ratioAdmits ratioMilli podRequest podLimit))"

definition untouchedMilli :: "ResizableContainer list \<Rightarrow> int" where
  "untouchedMilli rcs = sum_list (map rcLimitMilli (filter (\<lambda>c. rcRequestMilli c \<le> 0) rcs))"

definition largestRequest :: "ResizableContainer list \<Rightarrow> int" where
  "largestRequest rcs = foldl max 0 (map rcRequestMilli rcs)"

lemma foldl_max_ge: "b \<le> foldl max b (xs :: int list)"
proof (induction xs arbitrary: b)
  case (Cons y ys)
  then have "max b y \<le> foldl max (max b y) ys" .
  then show ?case by simp
qed simp

lemma foldl_max_member: "x \<in> set xs \<Longrightarrow> x \<le> foldl max b (xs :: int list)"
proof (induction xs arbitrary: b)
  case (Cons y ys)
  have "max b y \<le> foldl max (max b y) ys" by (rule foldl_max_ge)
  then show ?case using Cons by auto
qed simp

lemma foldl_max_le: "0 \<le> b \<Longrightarrow> (\<And>x. x \<in> set xs \<Longrightarrow> 0 \<le> x) \<Longrightarrow> foldl max b xs \<le> b + sum_list (xs :: int list)"
proof (induction xs arbitrary: b)
  case (Cons y ys)
  then have "foldl max (max b y) ys \<le> max b y + sum_list ys" by auto
  moreover have "max b y \<le> b + y" using Cons.prems(1) Cons.prems(2) [of y] by simp
  ultimately have "foldl max (max b y) ys \<le> b + y + sum_list ys" by linarith
  then show ?case by simp
qed simp

lemma fadd_ints:
  assumes "\<bar>a\<bar> \<le> 2 ^ 52" "\<bar>b\<bar> \<le> 2 ^ 52"
  shows "fadd (F (of_int a)) (float_of_int b) = F (of_int (a + b))"
proof -
  have "fadd (F (of_int a)) (float_of_int b) = fnorm (of_int (a + b))"
    using assms by (simp add: float_of_int_exact)
  also have "\<dots> = F (of_int (a + b))"
    using assms float_of_int_exact [of "a + b"] by (simp add: float_of_int_def)
  finally show ?thesis .
qed

definition rcs_ok :: "ResizableContainer list \<Rightarrow> bool" where
  "rcs_ok rcs \<longleftrightarrow> list_all (\<lambda>c. 0 \<le> rcRequestMilli c \<and> 0 \<le> rcLimitMilli c) rcs
     \<and> totalRequest rcs \<le> 2 ^ 22 \<and> untouchedMilli rcs \<le> 2 ^ 24"

lemma lrSums_step:
  assumes "list_all (\<lambda>c. 0 \<le> rcRequestMilli c \<and> 0 \<le> rcLimitMilli c) rcs" "0 \<le> a" "0 \<le> b" "0 \<le> u"
    and "a + totalRequest rcs \<le> 2 ^ 50" "u + untouchedMilli rcs \<le> 2 ^ 50"
  shows "foldl (\<lambda>(tot, largest, untouched) c.
      (fadd tot (float_of_int (rcRequestMilli c)),
       fmax largest (float_of_int (rcRequestMilli c)),
       if rcRequestMilli c \<le> 0 then fadd untouched (float_of_int (rcLimitMilli c)) else untouched))
     (F (of_int a), F (of_int b), F (of_int u)) rcs =
    (F (of_int (a + totalRequest rcs)), F (of_int (foldl max b (map rcRequestMilli rcs))),
     F (of_int (u + untouchedMilli rcs)))"
  using assms
proof (induction rcs arbitrary: a b u)
  case (Cons c cs)
  let ?r = "rcRequestMilli c" and ?u = "if rcRequestMilli c \<le> 0 then rcLimitMilli c else 0"
  have nn: "0 \<le> totalRequest cs" "0 \<le> untouchedMilli cs"
    using Cons.prems(1) by (auto simp: totalRequest_def untouchedMilli_def list_all_iff intro!: sum_list_nonneg)
  have s: "totalRequest (c # cs) = ?r + totalRequest cs" "untouchedMilli (c # cs) = ?u + untouchedMilli cs"
    by (auto simp: totalRequest_def untouchedMilli_def)
  have p: "0 \<le> ?r" "0 \<le> ?u" "a + ?r \<le> 2 ^ 50" "u + ?u \<le> 2 ^ 50"
    using Cons.prems s nn by auto
  have f: "fadd (F (of_int a)) (float_of_int ?r) = F (of_int (a + ?r))"
    using p Cons.prems(2) by (intro fadd_ints) auto
  have g: "fmax (F (of_int b)) (float_of_int ?r) = F (of_int (max b ?r))"
    using p Cons.prems(2) by (simp add: float_of_int_exact fmax_F of_int_max)
  have h: "(if ?r \<le> 0 then fadd (F (of_int u)) (float_of_int (rcLimitMilli c)) else F (of_int u)) = F (of_int (u + ?u))"
    using p Cons.prems(4) fadd_ints [of u "rcLimitMilli c"] by auto
  show ?case
    using Cons.IH [of "a + ?r" "max b ?r" "u + ?u"] Cons.prems p s
    unfolding foldl.simps prod.case f g h by (simp add: add.assoc)
qed (simp add: totalRequest_def untouchedMilli_def)

lemma lrSums_eq:
  assumes "rcs_ok rcs"
  shows "lrSums rcs = (F (of_int (totalRequest rcs)), F (of_int (largestRequest rcs)), F (of_int (untouchedMilli rcs)))"
  using lrSums_step [of rcs 0 0 0] assms by (simp add: lrSums_def rcs_ok_def largestRequest_def)

lemma fle_fmin: "fle (F t) (fmin x y) \<longleftrightarrow> fle (F t) x \<and> fle (F t) y"
  by (cases x; cases y) (auto simp: fmin_def)

lemma fle_ratioCap:
  "fle (F t) (containerRatioCapMilli rcs ratio tot) \<longleftrightarrow>
     list_all (\<lambda>c. 0 < rcRequestMilli c \<longrightarrow> fle (F t)
       (fdiv (fmul (float_of_int (ratioLimitMilli ratio (rcRequestMilli c))) tot) (float_of_int (rcRequestMilli c)))) rcs"
proof -
  have "fle (F t) (foldl (\<lambda>limit c. if rcRequestMilli c > 0
        then fmin limit (fdiv (fmul (float_of_int (ratioLimitMilli ratio (rcRequestMilli c))) tot)
                              (float_of_int (rcRequestMilli c))) else limit) l rcs) \<longleftrightarrow>
      fle (F t) l \<and> list_all (\<lambda>c. 0 < rcRequestMilli c \<longrightarrow> fle (F t)
       (fdiv (fmul (float_of_int (ratioLimitMilli ratio (rcRequestMilli c))) tot) (float_of_int (rcRequestMilli c)))) rcs" for l
    by (induction rcs arbitrary: l) (auto simp: fle_fmin)
  then show ?thesis by (simp add: containerRatioCapMilli_def)
qed

lemma quotient_bound:
  assumes "0 < b" "b \<le> 2 ^ 25" "0 \<le> t" "t \<le> 2 ^ 25" "of_int t \<le> rnd64 (of_int a / of_int b)"
  shows "t * b \<le> a"
proof (rule ccontr)
  assume "\<not> t * b \<le> a"
  then have "(of_int a :: rat) < of_int (t * b)" by (simp only: of_int_less_iff)
  then have "(of_int a / of_int b :: rat) < of_int (2 * t) / 2" using assms(1) by (simp add: field_simps)
  then have "rnd64 (of_int a / of_int b) < of_int (2 * t) / 2"
    using assms by (intro b64.quotient_less_half) auto
  then show False using assms(5) by simp
qed

text \<open>What a target below the running ceiling says of one item.\<close>

definition itemRoom :: "ResizableContainer list \<Rightarrow> int64 \<Rightarrow> int \<Rightarrow> LimitRangeItem \<Rightarrow> bool" where
  "itemRoom rcs podRequest T item \<longleftrightarrow>
     (let maxMilli = MilliValue (Cpu (Some (lrMax item)));
          ratioMilli = MilliValue (Cpu (Some (lrMaxLimitRequestRatio item)));
          hasMax = (mget (lrMax item) ResourceCPU \<noteq> None);
          hasRatio = (mget (lrMaxLimitRequestRatio item) ResourceCPU \<noteq> None)
      in (lrType item = ''Container'' \<and> hasMax \<longrightarrow> T * largestRequest rcs \<le> maxMilli * totalRequest rcs)
       \<and> (lrType item = ''Container'' \<and> hasRatio \<longrightarrow>
            (\<forall>c \<in> set (requested rcs). T * rcRequestMilli c
               \<le> ratioLimitMilli ratioMilli (rcRequestMilli c) * totalRequest rcs))
       \<and> (lrType item = ''Pod'' \<and> hasMax \<longrightarrow> T + untouchedMilli rcs \<le> maxMilli)
       \<and> (lrType item = ''Pod'' \<and> hasRatio \<longrightarrow> T + untouchedMilli rcs \<le> ratioLimitMilli ratioMilli podRequest))"

definition item_ok :: "LimitRangeItem \<Rightarrow> bool" where
  "item_ok item \<longleftrightarrow>
     (let maxMilli = MilliValue (Cpu (Some (lrMax item)));
          ratioMilli = MilliValue (Cpu (Some (lrMaxLimitRequestRatio item)))
      in 0 \<le> maxMilli \<and> maxMilli \<le> 2 ^ 30 \<and> 0 \<le> ratioMilli \<and> ratioMilli \<le> 2 ^ 18)"

lemma ratioLimit_bounds:
  assumes "0 \<le> ratio" "ratio \<le> 2 ^ 18" "0 < r" "r \<le> 2 ^ 22"
  shows "ratio_dom ratio r" "0 \<le> ratioLimitMilli ratio r" "ratioLimitMilli ratio r \<le> 2 ^ 31"
proof -
  have "ratio * r \<le> 2 ^ 18 * 2 ^ 22" using assms by (intro mult_mono) auto
  then have le: "ratio * r \<le> 2 ^ 40" by simp
  then show d: "ratio_dom ratio r" using assms by (simp add: ratio_dom_def)
  show "0 \<le> ratioLimitMilli ratio r" "ratioLimitMilli ratio r \<le> 2 ^ 31"
    using ratioLimitMilli_spec(1,2) [OF d] le by auto
qed

lemma scaled_room:
  assumes "fle (F (of_int T)) (fdiv (fmul (float_of_int m) (F (of_int S))) (float_of_int r))"
    and "0 \<le> m" "m \<le> 2 ^ 31" "0 \<le> S" "S \<le> 2 ^ 22" "0 < r" "r \<le> 2 ^ 22" "0 \<le> T" "T \<le> 2 ^ 24"
  shows "T * r \<le> m * S"
proof -
  have "m * S \<le> 2 ^ 31 * 2 ^ 22" using assms by (intro mult_mono) auto
  then have mS: "m * S \<le> 2 ^ 53" "0 \<le> m * S" using assms by auto
  have S: "F (of_int S) = float_of_int S" using assms by (simp add: float_of_int_exact)
  have p: "fmul (float_of_int m) (F (of_int S)) = F (of_int (m * S))"
    unfolding S using assms mS by (intro fmul_ints) auto
  have q: "of_int (m * S) / of_int r \<le> (2 ^ 53 :: rat)"
  proof -
    have "(of_int (m * S) :: rat) \<le> of_int (2 ^ 53)" using mS(1) by (simp only: of_int_le_iff)
    moreover have "(2 ^ 53 :: rat) * 1 \<le> 2 ^ 53 * of_int r" using assms by (intro mult_left_mono) auto
    ultimately show ?thesis using assms by (simp add: pos_divide_le_eq)
  qed
  have "0 \<le> (of_int (m * S) / of_int r :: rat)" using mS assms by (intro divide_nonneg_nonneg) auto
  then have "fdiv (F (of_int (m * S))) (float_of_int r) = F (rnd64 (of_int (m * S) / of_int r))"
    using assms q by (simp add: float_of_int_exact fnorm_small)
  then have "of_int T \<le> rnd64 (of_int (m * S) / of_int r)" using assms(1) p by simp
  then show ?thesis using assms by (intro quotient_bound) auto
qed

lemma lrItem_fle:
  "fle (F t) (lrItem rcs (tot, largest, untouched) podRequest limit item) \<longleftrightarrow>
     fle (F t) limit
     \<and> (lrType item = ''Container'' \<and> mget (lrMax item) ResourceCPU \<noteq> None \<longrightarrow>
          fle (F t) (fdiv (fmul (float_of_int (MilliValue (Cpu (Some (lrMax item))))) tot) largest))
     \<and> (lrType item = ''Container'' \<and> mget (lrMaxLimitRequestRatio item) ResourceCPU \<noteq> None \<longrightarrow>
          fle (F t) (containerRatioCapMilli rcs (MilliValue (Cpu (Some (lrMaxLimitRequestRatio item)))) tot))
     \<and> (lrType item = ''Pod'' \<and> mget (lrMax item) ResourceCPU \<noteq> None \<longrightarrow>
          fle (F t) (fsub (float_of_int (MilliValue (Cpu (Some (lrMax item))))) untouched))
     \<and> (lrType item = ''Pod'' \<and> mget (lrMaxLimitRequestRatio item) ResourceCPU \<noteq> None \<longrightarrow>
          fle (F t) (fsub (float_of_int (ratioLimitMilli (MilliValue (Cpu (Some (lrMaxLimitRequestRatio item)))) podRequest)) untouched))"
  unfolding lrItem_def Let_def prod.case by (simp add: fle_fmin)

lemma rcs_okD:
  assumes "rcs_ok rcs" "0 < totalRequest rcs"
  shows "c \<in> set rcs \<Longrightarrow> 0 \<le> rcRequestMilli c" "c \<in> set rcs \<Longrightarrow> rcRequestMilli c \<le> totalRequest rcs"
    "c \<in> set rcs \<Longrightarrow> rcRequestMilli c \<le> largestRequest rcs"
    "totalRequest rcs \<le> 2 ^ 22" "0 \<le> untouchedMilli rcs" "untouchedMilli rcs \<le> 2 ^ 24"
    "0 < largestRequest rcs" "largestRequest rcs \<le> totalRequest rcs"
proof -
  have rcs: "c \<in> set rcs \<Longrightarrow> 0 \<le> rcRequestMilli c \<and> 0 \<le> rcLimitMilli c" for c
    using assms(1) by (auto simp: rcs_ok_def list_all_iff)
  show "totalRequest rcs \<le> 2 ^ 22" "untouchedMilli rcs \<le> 2 ^ 24" "0 \<le> untouchedMilli rcs"
    using assms(1) rcs by (auto simp: rcs_ok_def untouchedMilli_def intro!: sum_list_nonneg)
  show "c \<in> set rcs \<Longrightarrow> rcRequestMilli c \<le> totalRequest rcs"
    unfolding totalRequest_def using rcs by (intro sum_list_nonneg_member) auto
  show "c \<in> set rcs \<Longrightarrow> 0 \<le> rcRequestMilli c" using rcs by simp
  show large: "c \<in> set rcs \<Longrightarrow> rcRequestMilli c \<le> largestRequest rcs" for c
    unfolding largestRequest_def by (intro foldl_max_member) simp
  show "largestRequest rcs \<le> totalRequest rcs"
    using foldl_max_le [of 0 "map rcRequestMilli rcs"] rcs by (auto simp: largestRequest_def totalRequest_def)
  show "0 < largestRequest rcs"
  proof (rule ccontr)
    assume "\<not> 0 < largestRequest rcs"
    then have "c \<in> set rcs \<Longrightarrow> rcRequestMilli c \<le> 0" for c using large [of c] by auto
    then have "sum_list (map rcRequestMilli rcs) \<le> of_nat (length (map rcRequestMilli rcs)) * 0"
      by (intro sum_list_le_mult) auto
    then show False using assms(2) by (simp add: totalRequest_def)
  qed
qed

lemma lrItem_room:
  assumes "rcs_ok rcs" "0 < totalRequest rcs" "item_ok item" "0 \<le> T" "T \<le> 2 ^ 24"
    and "0 < podRequest" "podRequest \<le> 2 ^ 22"
    and le: "fle (F (of_int T)) (lrItem rcs (lrSums rcs) podRequest limit item)"
  shows "fle (F (of_int T)) limit \<and> itemRoom rcs podRequest T item"
proof -
  let ?max = "MilliValue (Cpu (Some (lrMax item)))"
  let ?ratio = "MilliValue (Cpu (Some (lrMaxLimitRequestRatio item)))"
  let ?S = "totalRequest rcs" and ?b = "largestRequest rcs" and ?u = "untouchedMilli rcs"
  note r = rcs_okD [OF assms(1,2)]
  have m: "0 \<le> ?max" "?max \<le> 2 ^ 31" "0 \<le> ?ratio" "?ratio \<le> 2 ^ 18"
    using assms(3) by (auto simp: item_ok_def Let_def)
  have fb: "F (of_int ?b) = float_of_int ?b" using r(4,7,8) by (simp add: float_of_int_exact)
  have sub: "fle (F (of_int T)) (fsub (float_of_int x) (F (of_int ?u))) \<longleftrightarrow> T + ?u \<le> x"
    if x: "0 \<le> x" "x \<le> 2 ^ 31" for x
  proof -
    have "fsub (float_of_int x) (F (of_int ?u)) = fadd (F (of_int (- ?u))) (float_of_int x)"
      using x by (simp add: fsub_def float_of_int_exact add.commute)
    also have "\<dots> = F (of_int (x - ?u))" using fadd_ints [of "- ?u" x] x r(5,6) by simp
    finally show ?thesis by (simp only: fle.simps of_int_le_iff) linarith
  qed
  have maxRoom: "T * ?b \<le> ?max * ?S"
    if "fle (F (of_int T)) (fdiv (fmul (float_of_int ?max) (F (of_int ?S))) (F (of_int ?b)))"
    using that m assms(2,4,5) r(4,7,8) unfolding fb by (intro scaled_room) auto
  have ratioRoom: "T * rcRequestMilli c \<le> ratioLimitMilli ?ratio (rcRequestMilli c) * ?S"
    if "fle (F (of_int T)) (containerRatioCapMilli rcs ?ratio (F (of_int ?S)))" "c \<in> set (requested rcs)" for c
  proof -
    have c: "0 < rcRequestMilli c" "rcRequestMilli c \<le> 2 ^ 22" "c \<in> set rcs"
      using that(2) r(2,4) order.trans by (auto simp: requested_def)
    note L = ratioLimit_bounds [OF m(3,4) c(1,2)]
    show ?thesis
      using that(1) c L(2,3) assms(2,4,5) r(4) by (intro scaled_room) (auto simp: fle_ratioCap list_all_iff)
  qed
  show ?thesis
    using le maxRoom ratioRoom sub [OF m(1,2)] sub [OF ratioLimit_bounds(2,3) [OF m(3,4) assms(6,7)]]
    unfolding lrSums_eq [OF assms(1)] lrItem_fle itemRoom_def Let_def by blast
qed

definition podOwnRequest :: "Pod \<Rightarrow> int64" where
  "podOwnRequest pod = MilliValue (Cpu (Some (PodRequests pod \<lparr>UseStatusResources = False,
     InPlacePodLevelResourcesVerticalScalingEnabled = False, ExcludeOverhead = True\<rparr>)))"

definition lr_dom :: "Pod \<Rightarrow> ResizableContainer list \<Rightarrow> LimitRange list \<Rightarrow> bool" where
  "lr_dom pod rcs lrs \<longleftrightarrow> rcs_ok rcs \<and> 0 < podOwnRequest pod \<and> podOwnRequest pod \<le> 2 ^ 22
     \<and> list_all (\<lambda>lr. list_all item_ok (lrLimits lr)) lrs"

lemma foldl_items_room:
  assumes "rcs_ok rcs" "0 < totalRequest rcs" "0 \<le> T" "T \<le> 2 ^ 24" "0 < pr" "pr \<le> 2 ^ 22"
  shows "list_all item_ok items \<Longrightarrow> fle (F (of_int T)) (foldl (lrItem rcs (lrSums rcs) pr) limit items) \<Longrightarrow>
    fle (F (of_int T)) limit \<and> list_all (itemRoom rcs pr T) items"
proof (induction items arbitrary: limit)
  case (Cons i items)
  have ok: "item_ok i" "list_all item_ok items" using Cons.prems(1) by simp_all
  have "fle (F (of_int T)) (foldl (lrItem rcs (lrSums rcs) pr) (lrItem rcs (lrSums rcs) pr limit i) items)"
    using Cons.prems(2) by (simp only: foldl.simps)
  note IH = Cons.IH [OF ok(2) this]
  show ?case
    using lrItem_room [OF assms(1,2) ok(1) assms(3-6) IH [THEN conjunct1]] IH [THEN conjunct2]
    by (simp only: list.pred_inject simp_thms)
qed simp

lemma foldl_ranges_room:
  assumes "rcs_ok rcs" "0 < totalRequest rcs" "0 \<le> T" "T \<le> 2 ^ 24" "0 < pr" "pr \<le> 2 ^ 22"
  shows "list_all (\<lambda>lr. list_all item_ok (lrLimits lr)) lrs \<Longrightarrow>
    fle (F (of_int T)) (foldl (\<lambda>limit lr. foldl (lrItem rcs (lrSums rcs) pr) limit (lrLimits lr)) limit lrs) \<Longrightarrow>
    fle (F (of_int T)) limit \<and> list_all (\<lambda>lr. list_all (itemRoom rcs pr T) (lrLimits lr)) lrs"
proof (induction lrs arbitrary: limit)
  case (Cons lr lrs)
  have ok: "list_all item_ok (lrLimits lr)" "list_all (\<lambda>lr. list_all item_ok (lrLimits lr)) lrs"
    using Cons.prems(1) by simp_all
  have "fle (F (of_int T)) (foldl (\<lambda>limit lr. foldl (lrItem rcs (lrSums rcs) pr) limit (lrLimits lr))
      (foldl (lrItem rcs (lrSums rcs) pr) limit (lrLimits lr)) lrs)"
    using Cons.prems(2) by (simp only: foldl.simps)
  note IH = Cons.IH [OF ok(2) this]
  show ?case
    using foldl_items_room [OF assms ok(1) IH [THEN conjunct1]] IH [THEN conjunct2] by (simp only: list.pred_inject simp_thms)
qed simp

lemma int_of_float_ge:
  assumes "0 < t" "t \<le> int_of_float x" shows "fle (F (of_int t)) x \<or> x = PInf"
proof (cases x)
  case (F q)
  then have "in64 (trunc q)" "t \<le> trunc q" using assms by (auto split: if_splits)
  then have "of_int t \<le> (of_int (trunc q) :: rat)" "0 < trunc q" using assms(1) by (simp_all only: of_int_le_iff)
  moreover have "of_int (trunc q) \<le> q" if "0 < trunc q" using that by (cases "0 \<le> q") (auto simp: trunc_def)
  ultimately show ?thesis using F by auto
qed (use assms in auto)

lemma cap_room:
  assumes "lr_dom pod rcs lrs" "0 < totalRequest rcs" "1 < T" "T \<le> 2 ^ 24"
    and "T \<le> LimitRangeCapMilli pod rcs lrs"
  shows "list_all (\<lambda>lr. list_all (itemRoom rcs (podOwnRequest pod) T) (lrLimits lr)) lrs"
proof -
  let ?pr = "podOwnRequest pod"
  let ?limit = "foldl (\<lambda>limit lr. foldl (lrItem rcs (lrSums rcs) ?pr) limit (lrLimits lr)) PInf lrs"
  have d: "rcs_ok rcs" "0 < ?pr" "?pr \<le> 2 ^ 22" "list_all (\<lambda>lr. list_all item_ok (lrLimits lr)) lrs"
    using assms(1) by (auto simp: lr_dom_def)
  define limit where "limit = ?limit"
  have "LimitRangeCapMilli pod rcs lrs = 0 \<or> LimitRangeCapMilli pod rcs lrs = max (int_of_float limit) 1"
    unfolding LimitRangeCapMilli_def Let_def podOwnRequest_def [symmetric] limit_def [symmetric] by simp
  then have "T \<le> int_of_float limit" using assms(3,5) by auto
  then have "T \<le> int_of_float ?limit" by (simp only: limit_def)
  then have "fle (F (of_int T)) ?limit" using assms(3) int_of_float_ge [of T ?limit] by auto
  then show ?thesis
    using foldl_ranges_room [OF d(1) assms(2) _ assms(4) d(2,3), of lrs PInf] assms(3) d(4) by simp
qed

lemma room_holds:
  assumes "split_dom T rcs" "rcs_ok rcs" "splitLimit T rcs = Some out"
    and "itemRoom rcs pr T item" "item_ok item" "0 < pr" "pr \<le> 2 ^ 22"
  shows "lrHolds rcs pr out item"
proof -
  let ?max = "MilliValue (Cpu (Some (lrMax item)))"
  let ?ratio = "MilliValue (Cpu (Some (lrMaxLimitRequestRatio item)))"
  note dom = split_domD [OF assms(1)] and r = rcs_okD [OF assms(2) split_domD(2) [OF assms(1)]]
  have m: "0 \<le> ?ratio" "?ratio \<le> 2 ^ 18" using assms(5) by (auto simp: item_ok_def Let_def)
  obtain f where f: "out = map (\<lambda>c. (rcName c, f c)) (requested rcs)" "sum_list (map f (requested rcs)) = T"
    "\<And>c. c \<in> set (requested rcs) \<Longrightarrow> rcRequestMilli c \<le> f c \<and> mget out (rcName c) = Some (f c)"
    "\<And>c. c \<in> set rcs - set (requested rcs) \<Longrightarrow> mget out (rcName c) = None"
    using sl.split_lookup [OF assms(1)] assms(3) by auto
  have total: "sum_list (map snd out) = T" using f(1,2) by (simp add: comp_def)
  have below: "f c \<le> b" if "c \<in> set (requested rcs)" "T * rcRequestMilli c \<le> b * totalRequest rcs" for c b
    using sl.share_below [OF assms(1) that assms(3)] f(3) [OF that(1)] by auto
  have "list_all (\<lambda>(n, l). l \<le> ?max) out" if room: "T * largestRequest rcs \<le> ?max * totalRequest rcs"
  proof -
    have "f c \<le> ?max" if c: "c \<in> set (requested rcs)" for c
    proof (rule below [OF c])
      have "rcRequestMilli c \<le> largestRequest rcs" using c r(3) by (auto simp: requested_def)
      then have "T * rcRequestMilli c \<le> T * largestRequest rcs" using dom(2,3) by (intro mult_left_mono) auto
      then show "T * rcRequestMilli c \<le> ?max * totalRequest rcs" using room by linarith
    qed
    then show ?thesis by (simp add: f(1) list_all_iff)
  qed
  moreover have "ratioAdmits ?ratio (rcRequestMilli c) (f c)"
    if c: "c \<in> set (requested rcs)"
      and room: "T * rcRequestMilli c \<le> ratioLimitMilli ?ratio (rcRequestMilli c) * totalRequest rcs" for c
  proof -
    have "0 < rcRequestMilli c" "rcRequestMilli c \<le> 2 ^ 22" using dom(9,10) [OF c] r(4) by auto
    note L = ratioLimit_bounds [OF m this]
    show ?thesis
      using ratioLimitMilli_spec(3) [OF L(1), of "f c"] below [OF c room] L(3) f(3) [OF c] dom(9) [OF c] by simp
  qed
  moreover have "ratioAdmits ?ratio pr (T + untouchedMilli rcs)"
    if "T + untouchedMilli rcs \<le> ratioLimitMilli ?ratio pr"
    using ratioLimitMilli_spec(3) [OF ratioLimit_bounds(1) [OF m assms(6,7)]] that dom(2-4) r(5,6) by simp
  ultimately show ?thesis
    using assms(4) f(3,4) unfolding lrHolds_def itemRoom_def Let_def total untouchedMilli_def [symmetric]
    by (fastforce simp: list_all_iff split: option.splits)
qed

end
