(* ===== verification/SampleObjects.thy ===== *)
theory SampleObjects
  imports Eligibility
begin

text \<open>
  Concrete objects the witnesses of the development evaluate on: a pod with an app
  container, an init container and a sidecar, its namespace and node, and a configuration
  that enforces.
\<close>

definition cpuList :: "int64 \<Rightarrow> ResourceList option" where
  "cpuList m = Some [(ResourceCPU, NewMilliQuantity m)]"

definition plainContainer :: "string \<Rightarrow> int64 \<Rightarrow> Container" where
  "plainContainer n m = \<lparr>cName = n, cResources = \<lparr>Requests = cpuList m, Limits = None\<rparr>,
     cRestartPolicy = None, cResizePolicy = []\<rparr>"

definition samplePod :: Pod where
  "samplePod = \<lparr>pNamespace = ''ns'', pName = ''web'', pGenerateName = '''', pUID = ''u1'',
     pLabels = [], pAnnotations = [],
     pOwnerReferences = [\<lparr>refAPIVersion = ''apps/v1'', refKind = ''ReplicaSet'', refName = ''web-abc'',
       refUID = ''r1'', refController = Some True, refBlockOwnerDeletion = None\<rparr>],
     pNodeName = ''node1'',
     pContainers = [plainContainer ''app'' 200],
     pInitContainers = [plainContainer ''setup'' 500,
       (plainContainer ''proxy'' 100)\<lparr>cRestartPolicy := Some ''Always''\<rparr>],
     pResources = None, pOverhead = cpuList 50, pPhase = ''Running'', pQOSClass = ''Burstable'',
     pConditions = [], pContainerStatuses = [], pInitContainerStatuses = [],
     pStatusResources = None, pStatusAllocated = None\<rparr>"

definition sampleNamespace :: Namespace where
  "sampleNamespace = \<lparr>nsName = ''ns'', nsLabels = [(LabelMode, ModeManaged)]\<rparr>"

definition sampleNode :: Node where
  "sampleNode = \<lparr>nName = ''node1'', nLabels = [], nAllocatable = cpuList 4000, nOperatingSystem = ''linux''\<rparr>"

definition sampleSpec :: HeadroomConfigSpec where
  "sampleSpec = \<lparr>specPolicy = ''Proportional'', specDryRun = Some False,
     specMinBurstFloor = NewMilliQuantity 1000,
     specMaxMultiplier = IntQ \<lparr>amtValue = 10, amtScale = 0\<rparr>, specQuantum = NewMilliQuantity 10,
     specDeadband = \<lparr>GrowPercent = 10, ShrinkPercent = 5\<rparr>, specDebouncePeriod = 2000000000,
     specRateLimits = \<lparr>PerNodePatchesPerSecond = 10, ClientQPS = 50, ClientBurst = 100\<rparr>,
     specWebhook = \<lparr>whEnabled = Some True, whInitialMultiplier = IntQ \<lparr>amtValue = 2, amtScale = 0\<rparr>\<rparr>,
     specNamespaceSelector = None, specExcludedNamespaces = [''kube-system''], specExcludedOwners = [],
     specExcludedNodeSelector = None\<rparr>"

definition sampleConfig :: HeadroomConfig where
  "sampleConfig = \<lparr>hcGeneration = 3, hcSpec = sampleSpec,
     hcStatus = \<lparr>stObservedGeneration = 0, stManagedPods = 0, stManagedNodes = 0, stConditions = []\<rparr>\<rparr>"

lemmas sample_pod_defs = samplePod_def plainContainer_def cpuList_def

lemmas sample_config_defs = sampleNamespace_def sampleNode_def sampleSpec_def sampleConfig_def

end
