(* ===== verification/EligibilityProps.thy ===== *)
theory EligibilityProps
  imports LimitRanges SampleObjects
begin

text \<open>
  Properties of \<open>internal/eligibility\<close> and of the split in \<open>podinput.go\<close>: the
  scheduler's booking, the gates, the autoscaler exclusion, the Guaranteed rule, the
  split of a target over containers and the LimitRange ceiling.
\<close>

section \<open>Sample objects\<close>

definition sampleRcs :: "ResizableContainer list" where
  "sampleRcs =
     [\<lparr>rcName = ''app'', rcRequestMilli = 200, rcLimitMilli = 0, rcRestartOnResize = False\<rparr>,
      \<lparr>rcName = ''log'', rcRequestMilli = 0, rcLimitMilli = 30, rcRestartOnResize = False\<rparr>,
      \<lparr>rcName = ''proxy'', rcRequestMilli = 100, rcLimitMilli = 0, rcRestartOnResize = False\<rparr>]"

section \<open>The scheduler's booking\<close>

definition schedulerOpts :: PodResourcesOptions where
  "schedulerOpts = \<lparr>UseStatusResources = True,
     InPlacePodLevelResourcesVerticalScalingEnabled = True, ExcludeOverhead = False\<rparr>"

lemma schedulerOpts_simps [simp]:
  "UseStatusResources schedulerOpts" "InPlacePodLevelResourcesVerticalScalingEnabled schedulerOpts"
  "\<not> ExcludeOverhead schedulerOpts"
  by (simp_all add: schedulerOpts_def)

text \<open>What the scheduler holds for the containers: the amounts of the sidecar KEP's formula
  over the requests of the spec, the actuated and the allocated ones. Where the pod status
  carries both pod-level amounts, those stand for the actuated and the allocated requests.\<close>

definition statusRequests :: "Pod \<Rightarrow> ResourceList option" where
  "statusRequests pod = (case pStatusResources pod of None \<Rightarrow> None | Some r \<Rightarrow> Requests r)"

definition containerCores :: "Pod \<Rightarrow> rat" where
  "containerCores pod =
     (let k = (\<lambda>get. kepRequest (\<lambda>c. amount (resourcesOf pod schedulerOpts get c) ResourceCPU) pod);
          (allocated, actuated) =
            (case (pStatusAllocated pod, statusRequests pod) of
               (Some al, Some ac) \<Rightarrow> (amount al ResourceCPU, amount ac ResourceCPU)
             | _ \<Rightarrow> (k containerAllocatedRequests, k containerActuatedRequests))
      in if IsPodResizeInfeasible pod then max actuated allocated
         else max (k containerSpecRequests) (max actuated allocated))"

text \<open>The pod-level requests that count: those of the spec, unless the kubelet calls the resize
  infeasible, and those of the status once it reports any.\<close>

definition podLevelLists :: "Pod \<Rightarrow> ResourceList list" where
  "podLevelLists pod =
     (case pResources pod of None \<Rightarrow> []
      | Some r \<Rightarrow>
          if \<not> list_ex (\<lambda>(k, q). k = ResourceCPU \<or> k = ResourceMemory \<or> take 10 k = ''hugepages-'')
                (entries (Requests r)) then []
          else case pStatusResources pod of
            None \<Rightarrow> [entries (Requests r)]
          | Some sr \<Rightarrow>
              (if IsPodResizeInfeasible pod then [] else [entries (Requests r)])
              @ [entries (Requests sr), entries (pStatusAllocated pod)])"

text \<open>What the scheduler books: the pod-level CPU request where there is one, in place of the
  containers', plus the overhead.\<close>

definition bookedCores :: "Pod \<Rightarrow> rat" where
  "bookedCores pod =
     (case largestNamed (podLevelLists pod) ResourceCPU of None \<Rightarrow> containerCores pod | Some c \<Rightarrow> c)
     + amount (entries (pOverhead pod)) ResourceCPU"

definition status_ok :: "ContainerStatus \<Rightarrow> bool" where
  "status_ok s \<longleftrightarrow> list_ok (entries (csAllocatedResources s))
     \<and> list_ok (entries (case csResources s of None \<Rightarrow> None | Some r \<Rightarrow> Requests r))"

definition pod_quantities_ok :: "Pod \<Rightarrow> bool" where
  "pod_quantities_ok pod \<longleftrightarrow>
     list_all (\<lambda>c. list_ok (entries (Requests (cResources c)))) (pContainers pod @ pInitContainers pod)
     \<and> list_all status_ok (pContainerStatuses pod @ pInitContainerStatuses pod)
     \<and> list_ok (entries (case pResources pod of None \<Rightarrow> None | Some r \<Rightarrow> Requests r))
     \<and> list_ok (entries (statusRequests pod)) \<and> list_ok (entries (pStatusAllocated pod))
     \<and> list_ok (entries (pOverhead pod))"

lemma amount_Cpu: "amount l ResourceCPU = qrat (Cpu (Some l))"
  by (simp add: amount_def Cpu_def resourceNamed_def entries_def split: option.splits)

lemma entries_simps [simp]: "entries None = []" "entries (Some l) = l"
  by (simp_all add: entries_def)

lemma find_in_set: "find P xs = Some x \<Longrightarrow> x \<in> set xs \<and> P x"
  by (induction xs) (auto split: if_splits)

lemma resourcesOf_ok:
  assumes "pod_quantities_ok pod" "c \<in> set (pContainers pod @ pInitContainers pod)"
    and "get \<in> {containerSpecRequests, containerActuatedRequests, containerAllocatedRequests}"
  shows "list_ok (resourcesOf pod opts get c)"
proof -
  have st: "status_ok s" if "findContainerStatus pod n = Some s" for n s
    using that assms(1) find_in_set
    by (fastforce simp: findContainerStatus_def pod_quantities_ok_def list_all_iff split: option.splits)
  have c: "list_ok (entries (Requests (cResources c)))"
    using assms(1,2) by (auto simp: pod_quantities_ok_def list_all_iff)
  show ?thesis
    using assms(3) st [of "cName c"] c
    by (cases "findContainerStatus pod (cName c)")
      (auto simp: resourcesOf_def containerSpecRequests_def containerActuatedRequests_def
        containerAllocatedRequests_def status_ok_def split: option.splits)
qed

lemma AggregateContainerRequests_cores:
  assumes "pod_quantities_ok pod"
  shows "list_ok (AggregateContainerRequests pod schedulerOpts) \<and>
    amount (AggregateContainerRequests pod schedulerOpts) ResourceCPU = containerCores pod"
proof -
  let ?agg = "\<lambda>get. aggregateContainerResourcesByFn pod schedulerOpts get"
  let ?k = "\<lambda>get. kepRequest (\<lambda>c. amount (resourcesOf pod schedulerOpts get c) ResourceCPU) pod"
  have agg: "list_ok (?agg get) \<and> amount (?agg get) ResourceCPU = ?k get"
    if "get \<in> {containerSpecRequests, containerActuatedRequests, containerAllocatedRequests}" for get
    using resourcesOf_ok [OF assms _ that] by (rule aggregate_amount)
  have a: "list_ok (?agg containerSpecRequests)" "amount (?agg containerSpecRequests) ResourceCPU = ?k containerSpecRequests"
    "list_ok (?agg containerActuatedRequests)" "amount (?agg containerActuatedRequests) ResourceCPU = ?k containerActuatedRequests"
    "list_ok (?agg containerAllocatedRequests)" "amount (?agg containerAllocatedRequests) ResourceCPU = ?k containerAllocatedRequests"
    using agg by simp_all
  define reqs where "reqs = (case (pStatusAllocated pod, statusRequests pod) of
      (Some al, Some ac) \<Rightarrow> (al, ac) | _ \<Rightarrow> (?agg containerAllocatedRequests, ?agg containerActuatedRequests))"
  obtain al ac where f: "reqs = (al, ac)" by (cases reqs)
  have st: "list_ok (entries (statusRequests pod))" "list_ok (entries (pStatusAllocated pod))"
    using assms by (simp_all add: pod_quantities_ok_def)
  have ok: "list_ok al" "list_ok ac"
    using f st a by (auto simp: reqs_def split: option.splits)
  have am: "containerCores pod =
      (if IsPodResizeInfeasible pod then max (amount ac ResourceCPU) (amount al ResourceCPU)
       else max (?k containerSpecRequests) (max (amount ac ResourceCPU) (amount al ResourceCPU)))"
    using f a unfolding containerCores_def reqs_def Let_def by (auto split: option.splits)
  have agr: "AggregateContainerRequests pod schedulerOpts = addResourceList []
      (if IsPodResizeInfeasible pod then maxOfLists (Some ac) [Some al]
       else maxOfLists (Some (?agg containerSpecRequests)) [Some ac, Some al])"
    using f unfolding AggregateContainerRequests_def reqs_def statusRequests_def Let_def
    by (auto split: option.splits)
  have m: "list_ok (entries b)" if "b \<in> {Some (?agg containerSpecRequests), Some ac, Some al}" for b
    using that ok a(1) by auto
  have m1: "list_ok (maxOfLists (Some ac) [Some al]) \<and> amount (maxOfLists (Some ac) [Some al]) ResourceCPU =
      foldl (\<lambda>m b. max m (amount (entries b) ResourceCPU)) (amount (entries (Some ac)) ResourceCPU) [Some al]"
    by (intro maxOfLists_amount m) auto
  have m2: "list_ok (maxOfLists (Some (?agg containerSpecRequests)) [Some ac, Some al]) \<and>
      amount (maxOfLists (Some (?agg containerSpecRequests)) [Some ac, Some al]) ResourceCPU =
      foldl (\<lambda>m b. max m (amount (entries b) ResourceCPU))
        (amount (entries (Some (?agg containerSpecRequests))) ResourceCPU) [Some ac, Some al]"
    by (intro maxOfLists_amount m) auto
  show ?thesis
    using m1 m2 unfolding agr am foldl.simps entries_simps a(2) max.assoc
    by (simp add: list_ops_ok)
qed

lemma podLevel_effective:
  assumes "pod_quantities_ok pod" "pResources pod = Some r" "IsPodLevelRequestsSet pod"
    and "effective = (case pStatusResources pod of
           Some sr \<Rightarrow> effectivePodLevelResources pod (Requests r) [Requests sr, pStatusAllocated pod]
         | None \<Rightarrow> entries (Requests r))"
  shows "list_ok effective \<and> largestNamed [effective] ResourceCPU = largestNamed (podLevelLists pod) ResourceCPU"
proof -
  have set: "list_ex (\<lambda>(k, q). k = ResourceCPU \<or> k = ResourceMemory \<or> take 10 k = ''hugepages-'') (entries (Requests r))"
    using assms(2,3) by (simp add: IsPodLevelRequestsSet_def IsSupportedPodLevelResource_def)
  have r: "list_ok (entries (Requests r))" "list_ok (entries (pStatusAllocated pod))"
    and sr: "pStatusResources pod = Some sr \<Longrightarrow> list_ok (entries (Requests sr))" for sr
    using assms(1,2) by (simp_all add: pod_quantities_ok_def statusRequests_def)
  show ?thesis
  proof (cases "pStatusResources pod")
    case None
    then show ?thesis using assms(2,4) r set by (simp add: podLevelLists_def)
  next
    case (Some sr)
    let ?a = "if IsPodResizeInfeasible pod then None else Requests r"
    have ok: "list_ok (entries ?a)" "\<And>b. b \<in> set [Requests sr, pStatusAllocated pod] \<Longrightarrow> list_ok (entries b)"
      using r sr [OF Some] by auto
    have e: "effective = maxOfLists ?a [Requests sr, pStatusAllocated pod]"
      using Some assms(4) by (simp add: effectivePodLevelResources_def)
    have "largestNamed [effective] ResourceCPU =
        largestNamed (entries ?a # map entries [Requests sr, pStatusAllocated pod]) ResourceCPU"
      unfolding e using ok by (rule maxOfLists_largestNamed)
    moreover have "list_ok effective"
      unfolding e using maxOfLists_amount [of ?a "[Requests sr, pStatusAllocated pod]"] ok by blast
    ultimately show ?thesis using assms(2) Some set by (simp add: podLevelLists_def largestNamed_Cons)
  qed
qed

lemma booked_requests:
  assumes "pod_quantities_ok pod"
  shows "list_ok (PodRequests pod schedulerOpts) \<and> amount (PodRequests pod schedulerOpts) ResourceCPU = bookedCores pod"
proof -
  let ?reqs = "AggregateContainerRequests pod schedulerOpts"
  note agg = AggregateContainerRequests_cores [OF assms]
  have oh: "list_ok (entries (pOverhead pod))" using assms by (simp add: pod_quantities_ok_def)
  have cpu: "IsSupportedPodLevelResource ResourceCPU" by (simp add: IsSupportedPodLevelResource_def)
  show ?thesis
  proof (cases "IsPodLevelRequestsSet pod")
    case True
    then obtain r where r: "pResources pod = Some r" by (auto simp: IsPodLevelRequestsSet_def split: option.splits)
    define effective where "effective = (case pStatusResources pod of
        Some sr \<Rightarrow> effectivePodLevelResources pod (Requests r) [Requests sr, pStatusAllocated pod]
      | None \<Rightarrow> entries (Requests r))"
    note e = podLevel_effective [OF assms r True effective_def]
    note ap = applyPodLevelResources_ok [OF conjunct1 [OF agg] conjunct1 [OF e], of ResourceCPU]
    have p: "PodRequests pod schedulerOpts = addResourceList (applyPodLevelResources ?reqs effective) (entries (pOverhead pod))"
      using r True by (simp add: PodRequests_def effective_def addResourceList_def Let_def split: option.splits)
    have "amount (applyPodLevelResources ?reqs effective) ResourceCPU =
        (case largestNamed (podLevelLists pod) ResourceCPU of None \<Rightarrow> containerCores pod | Some c \<Rightarrow> c)"
      using ap cpu e agg by (auto simp: largestNamed_single split: if_splits dest: sym)
    then show ?thesis using ap oh unfolding p by (simp add: list_ops_ok bookedCores_def)
  next
    case False
    have "podLevelLists pod = []"
      using False by (auto simp: podLevelLists_def IsPodLevelRequestsSet_def IsSupportedPodLevelResource_def split: option.splits)
    moreover have "PodRequests pod schedulerOpts = addResourceList ?reqs (entries (pOverhead pod))"
      using False by (simp add: PodRequests_def addResourceList_def Let_def split: option.splits)
    ultimately show ?thesis using agg oh by (simp add: list_ops_ok bookedCores_def)
  qed
qed

lemma PodBookedCPUMilli_cores:
  assumes "pod_quantities_ok pod" "bookedCores pod * 1000 \<le> of_int MaxInt64"
  shows "PodBookedCPUMilli pod = \<lceil>bookedCores pod * 1000\<rceil>"
proof -
  let ?q = "Cpu (Some (PodRequests pod schedulerOpts))"
  note b = booked_requests [OF assms(1)]
  have q: "qrat ?q = bookedCores pod" using b by (simp add: amount_Cpu)
  have "quantity_ok ?q \<and> 0 \<le> qrat ?q"
    using list_okD [OF conjunct1 [OF b]] by (auto simp: Cpu_def resourceNamed_def split: option.splits)
  then show ?thesis
    using MilliValue_value [of ?q] assms(2) q by (simp add: PodBookedCPUMilli_def schedulerOpts_def)
qed

text \<open>C11. The booked CPU of a pod whose quantities are valid is what the scheduler's formula
  gives, rounded up to a milli-core: the overhead plus the pod-level CPU request where one is
  set (the largest of spec, actuated and allocated), else the larger of the running containers
  (sidecars included) and the init peak, for the largest of spec, actuated and allocated
  requests. The spec is left out while the kubelet calls a resize infeasible.\<close>

theorem booked_is_scheduler_formula:
  assumes "pod_quantities_ok pod" "bookedCores pod * 1000 \<le> of_int MaxInt64"
  shows "PodBookedCPUMilli pod = \<lceil>bookedCores pod * 1000\<rceil>"
  using assms by (rule PodBookedCPUMilli_cores)

lemmas sample_defs = sample_pod_defs sampleRcs_def

lemmas booking_defs = bookedCores_def containerCores_def podLevelLists_def statusRequests_def
  kepRequest_def initPeak_eq resourcesOf_def containerSpecRequests_def containerActuatedRequests_def
  containerAllocatedRequests_def findContainerStatus_def IsPodResizeInfeasible_def
  isRestartableInitContainer_def amount_def

lemma bookedCores_samplePod: "bookedCores samplePod = 11 / 20"
  by (simp add: booking_defs sample_defs)

lemma samplePod_ok: "pod_quantities_ok samplePod"
  by (simp add: pod_quantities_ok_def statusRequests_def sample_defs list_ok_def gomap_ok_def in64_def)

lemma booked_samplePod: "PodBookedCPUMilli samplePod = 550"
proof -
  have "PodBookedCPUMilli samplePod = \<lceil>bookedCores samplePod * 1000\<rceil>"
    using samplePod_ok by (rule PodBookedCPUMilli_cores) (simp add: bookedCores_samplePod MaxInt64_def)
  then show ?thesis by (simp add: bookedCores_samplePod)
qed

text \<open>The same pod with a pod-level request of two cores, being resized from one and a half.\<close>

definition podLevelPod :: Pod where
  "podLevelPod = samplePod\<lparr>
     pResources := Some \<lparr>Requests = cpuList 2000, Limits = None\<rparr>,
     pStatusResources := Some \<lparr>Requests = cpuList 1500, Limits = None\<rparr>,
     pStatusAllocated := cpuList 1500\<rparr>"

lemma bookedCores_podLevelPod: "bookedCores podLevelPod = 41 / 20"
  by (simp add: podLevelPod_def booking_defs largestNamed_Cons sample_defs)

lemma podLevelPod_ok: "pod_quantities_ok podLevelPod"
  by (simp add: podLevelPod_def pod_quantities_ok_def statusRequests_def sample_defs list_ok_def gomap_ok_def in64_def)

theorem booked_is_scheduler_formula_witness:
  "PodBookedCPUMilli samplePod = 550 \<and> PodBookedCPUMilli podLevelPod = 2050"
proof -
  have "PodBookedCPUMilli samplePod = \<lceil>bookedCores samplePod * 1000\<rceil>"
    using samplePod_ok by (rule booked_is_scheduler_formula) (simp add: bookedCores_samplePod MaxInt64_def)
  moreover have "PodBookedCPUMilli podLevelPod = \<lceil>bookedCores podLevelPod * 1000\<rceil>"
    using podLevelPod_ok by (rule booked_is_scheduler_formula) (simp add: bookedCores_podLevelPod MaxInt64_def)
  ultimately show ?thesis by (simp add: bookedCores_samplePod bookedCores_podLevelPod)
qed

section \<open>The split\<close>

text \<open>C9. The limits of a split sum exactly to the pod target, go to the containers with a
  CPU request in order, keep every container at or above its own request, and exceed its
  exact pro-rata share by less than a milli-core.\<close>

theorem split_is_exact_and_fair:
  assumes "split_dom T rcs"
  shows "\<exists>out. splitLimit T rcs = Some out \<and> map fst out = map rcName (requested rcs)
    \<and> sum_list (map snd out) = T
    \<and> list_all2 (\<lambda>c (n, l). rcRequestMilli c \<le> l
        \<and> l \<le> \<lceil>of_int (T * rcRequestMilli c) / of_int (totalRequest rcs) :: rat\<rceil>) (requested rcs) out"
proof -
  obtain f where f: "splitLimit T rcs = Some (map (\<lambda>c. (rcName c, f c)) (requested rcs))"
    "sum_list (map f (requested rcs)) = T"
    "\<And>c. c \<in> set (requested rcs) \<Longrightarrow> rcRequestMilli c \<le> f c \<and> f c \<le> cdiv (T * rcRequestMilli c) (totalRequest rcs)"
    using sl.split_total [OF assms] by auto
  have "list_all2 (\<lambda>c (n, l). rcRequestMilli c \<le> l
      \<and> l \<le> \<lceil>of_int (T * rcRequestMilli c) / of_int (totalRequest rcs) :: rat\<rceil>)
      (requested rcs) (map (\<lambda>c. (rcName c, f c)) (requested rcs))"
    using f(3) unfolding list_all2_map2 prod.case cdiv_ceiling [OF split_domD(2) [OF assms], symmetric]
    by (intro list.rel_refl_strong) simp
  then show ?thesis using f(1,2) by (intro exI conjI) (auto simp: comp_def)
qed

lemma sampleRcs_dom: "split_dom 1000 sampleRcs"
  by (simp add: split_dom_def sampleRcs_def totalRequest_def)

theorem split_is_exact_and_fair_witness:
  "\<exists>out. splitLimit 1000 sampleRcs = Some out \<and> map fst out = [''app'', ''proxy'']
    \<and> sum_list (map snd out) = 1000"
  using split_is_exact_and_fair [OF sampleRcs_dom] by (auto simp: sampleRcs_def requested_def)

text \<open>C16. Once a resize has landed, the limit read back from the containers is the target
  that was split: the next reconcile sees the pod exactly where it put it.\<close>

theorem resize_reads_back:
  assumes "split_dom T rcs"
  shows "\<exists>out. splitLimit T rcs = Some out \<and> PodCurrentLimitMilli (withLimits out rcs) = T"
  using assms by (rule sl.read_back)

theorem resize_reads_back_witness:
  "\<exists>out. splitLimit 1000 sampleRcs = Some out \<and> PodCurrentLimitMilli (withLimits out sampleRcs) = 1000"
  using resize_reads_back [OF sampleRcs_dom] by simp

section \<open>LimitRanges\<close>

text \<open>C33. \<open>ratioLimitMilli\<close> is the largest limit that passes the float comparison of a
  limit-to-request ratio: everything up to it passes and nothing beyond it does.\<close>

theorem ratio_limit_is_largest:
  assumes "ratio_dom ratio r" "0 \<le> l" "l \<le> 2 ^ 50"
  shows "ratioAdmits ratio r l \<longleftrightarrow> l \<le> ratioLimitMilli ratio r"
  using assms by (rule ratioLimitMilli_spec(3))

lemma ratioLimit_example: "ratioLimitMilli 8050 20 = 160"
  by (simp add: ratioLimitMilli_def int64_eval MaxInt64_def float_eval Let_def)

theorem ratio_limit_is_largest_witness:
  "ratioAdmits 8050 20 160 \<and> \<not> ratioAdmits 8050 20 161"
proof -
  have "ratio_dom 8050 20" by (simp add: ratio_dom_def)
  from ratio_limit_is_largest [OF this, of 160] ratio_limit_is_largest [OF this, of 161]
  show ?thesis by (simp add: ratioLimit_example)
qed

text \<open>C10. A target that stops at the LimitRange ceiling splits into limits that every
  LimitRange admits: the maximum and the ratio per container, and the maximum and the
  ratio of the pod with the limits of request-less containers counted in.\<close>

theorem limit_range_cap_admits:
  assumes "lr_dom pod rcs lrs" "split_dom T rcs" "1 < T" "T \<le> LimitRangeCapMilli pod rcs lrs"
  shows "\<exists>out. splitLimit T rcs = Some out
    \<and> list_all (\<lambda>lr. list_all (lrHolds rcs (podOwnRequest pod) out) (lrLimits lr)) lrs"
proof -
  have d: "rcs_ok rcs" "0 < podOwnRequest pod" "podOwnRequest pod \<le> 2 ^ 22"
    "\<And>lr i. lr \<in> set lrs \<Longrightarrow> i \<in> set (lrLimits lr) \<Longrightarrow> item_ok i"
    using assms(1) by (auto simp: lr_dom_def list_all_iff)
  obtain out where out: "splitLimit T rcs = Some out" using sl.read_back [OF assms(2)] by blast
  have "list_all (\<lambda>lr. list_all (itemRoom rcs (podOwnRequest pod) T) (lrLimits lr)) lrs"
    using assms(1) split_domD(2) [OF assms(2)] assms(3) split_domD(4) [OF assms(2)] assms(4) by (rule cap_room)
  then have "lrHolds rcs (podOwnRequest pod) out i" if "lr \<in> set lrs" "i \<in> set (lrLimits lr)" for lr i
    using that d by (intro room_holds [OF assms(2) d(1) out]) (auto simp: list_all_iff)
  then show ?thesis using out by (auto simp: list_all_iff)
qed

definition sampleRange :: LimitRange where
  "sampleRange = \<lparr>lrNamespace = ''ns'', lrLimits =
     [\<lparr>lrType = ''Container'', lrMax = [(ResourceCPU, NewMilliQuantity 400)],
       lrMaxLimitRequestRatio = [(ResourceCPU, NewMilliQuantity 8050)]\<rparr>,
      \<lparr>lrType = ''Pod'', lrMax = [(ResourceCPU, NewMilliQuantity 600)], lrMaxLimitRequestRatio = []\<rparr>]\<rparr>"

lemma podOwnRequest_sample: "podOwnRequest samplePod = 500"
  by (simp add: podOwnRequest_def PodRequests_def AggregateContainerRequests_def
      aggregateContainerResourcesByFn_def sample_defs resourcesOf_def containerSpecRequests_def
      isRestartableInitContainer_def addResourceList_def maxResourceList_def addResource_def maxResource_def
      IsPodLevelRequestsSet_def Cpu_def resourceNamed_def Let_def ResourceCPU_def
      Add_def amtAdd_def int64Add_def Cmp_def amtCmp_def cmp64_def NewMilliQuantity_def
      MilliValue_def ScaledValue_def AsScaledInt64_def positiveScaleInt64_def int64_eval)

lemma cap_sample: "LimitRangeCapMilli samplePod sampleRcs [sampleRange] = 570"
proof -
  have s: "lrSums sampleRcs = (F 300, F 200, F 30)"
    by (simp add: lrSums_def sampleRcs_def float_eval)
  have r: "containerRatioCapMilli sampleRcs 8050 (F 300) = F 2412"
    by (simp add: containerRatioCapMilli_def sampleRcs_def ratioLimitMilli_def int64_eval MaxInt64_def float_eval Let_def)
  show ?thesis
    by (simp add: LimitRangeCapMilli_def s r lrItem_def sampleRange_def Let_def Cpu_def resourceNamed_def
        ResourceCPU_def int64_eval MaxInt64_def float_eval)
qed

lemma sampleRange_dom: "lr_dom samplePod sampleRcs [sampleRange]"
  by (simp add: lr_dom_def rcs_ok_def podOwnRequest_sample item_ok_def Let_def sampleRange_def sampleRcs_def
      totalRequest_def untouchedMilli_def Cpu_def resourceNamed_def ResourceCPU_def)

theorem limit_range_cap_admits_witness:
  "\<exists>out. splitLimit 570 sampleRcs = Some out
    \<and> list_all (lrHolds sampleRcs 500 out) (lrLimits sampleRange)"
proof -
  have "split_dom 570 sampleRcs" by (simp add: split_dom_def sampleRcs_def totalRequest_def)
  from limit_range_cap_admits [OF sampleRange_dom this] show ?thesis
    by (simp add: cap_sample podOwnRequest_sample)
qed

section \<open>Gates\<close>

text \<open>Namespace opt-in and node exclusion follow the selector semantics of the API and fail
  closed: an excluded namespace, a selector that does not convert or does not match, or a
  missing mode label leaves a namespace unmanaged, and a node is managed only when it is not
  Windows and its exclusion selector converts and does not match.\<close>

lemma gates_semantics:
  "(NamespaceManaged ns spec \<longleftrightarrow>
      nsName ns \<notin> set (specExcludedNamespaces spec) \<and>
      (case specNamespaceSelector spec of
         None \<Rightarrow> mget (nsLabels ns) LabelMode = Some ModeManaged
       | Some s \<Rightarrow> LabelSelectorAsSelector (Some s) \<noteq> None
           \<and> list_all (\<lambda>(k, v). mget (nsLabels ns) k = Some v) (MatchLabels s)
           \<and> list_all (\<lambda>e. expressionHolds e (nsLabels ns)) (MatchExpressions s)))
   \<and> (NodeManageable node spec \<longleftrightarrow>
      nOperatingSystem node \<noteq> ''windows'' \<and> mget (nLabels node) LabelOSStable \<noteq> Some ''windows'' \<and>
      (case specExcludedNodeSelector spec of
         None \<Rightarrow> True
       | Some s \<Rightarrow> LabelSelectorAsSelector (Some s) \<noteq> None
           \<and> \<not> (list_all (\<lambda>(k, v). mget (nLabels node) k = Some v) (MatchLabels s)
                \<and> list_all (\<lambda>e. expressionHolds e (nLabels node)) (MatchExpressions s))))"
proof -
  have str: "strGet m k = v \<longleftrightarrow> mget m k = Some v" if "v \<noteq> ''''" for m k v
    using that by (auto simp: strGet_def split: option.splits)
  have ne: "ModeManaged \<noteq> ''''" "osWindows \<noteq> ''''" by (simp_all add: ModeManaged_def osWindows_def)
  show ?thesis
    unfolding NamespaceManaged_def NodeManageable_def str [OF ne(1)] str [OF ne(2)]
    by (auto simp: selector_Matches osWindows_def split: option.splits)
qed

text \<open>An eligible pod did not opt out by its label, and no owner of it is on the exclusion list,
  where an entry's empty group or name stands for any.\<close>

lemma eligible_not_opted_out:
  "Eligible pod rcs \<Longrightarrow> mget (pLabels pod) LabelMode \<noteq> Some ModeUnmanaged \<and> pQOSClass pod = ''Burstable''"
  by (auto simp: Eligible_def OptedOut_def strGet_def split: if_splits)

lemma ownerExcluded_iff:
  "OwnerExcluded pod excluded \<longleftrightarrow> (\<exists>ref \<in> set (pOwnerReferences pod). \<exists>e \<in> set excluded.
     eoKind e = refKind ref \<and> eoName e \<in> {'''', refName ref} \<and>
     eoAPIGroup e \<in> {'''', takeWhile (\<lambda>c. c \<noteq> CHR ''/'') (refAPIVersion ref)})"
  by (auto simp: OwnerExcluded_def list_ex_iff ownerMatches_def cutBefore_def Let_def)

text \<open>What the autoscaler's documentation says, without the loops. The policy in force for a
  container is the one that names it, else the last one for all containers; a VPA writes the
  CPU limit unless it is off, or the policy is, or leaves limits or CPU alone.\<close>

definition policyInForce :: "VPAContainerPolicy list \<Rightarrow> string \<Rightarrow> VPAContainerPolicy option" where
  "policyInForce ps container =
     (case find (\<lambda>p. vpContainerName p = container) ps of
        Some p \<Rightarrow> Some p
      | None \<Rightarrow> find (\<lambda>p. vpContainerName p = ''*'') (rev ps))"

definition vpaWrites :: "VPA \<Rightarrow> string \<Rightarrow> bool" where
  "vpaWrites v container \<longleftrightarrow> vpaUpdateMode v \<noteq> ''Off'' \<and>
     (\<forall>ps p. vpaPolicies v = Some ps \<longrightarrow> policyInForce ps container = Some p \<longrightarrow>
        vpMode p \<noteq> ''Off'' \<and> vpControlledValues p \<noteq> ''RequestsOnly'' \<and>
        (\<forall>rs. vpControlledResources p = Some rs \<longrightarrow> ''cpu'' \<in> set rs))"

text \<open>A name a controller generated from its parent's: the parent's name, a dash and a suffix
  without one. A name with no dash has the empty parent.\<close>

definition generatedFrom :: "string \<Rightarrow> string \<Rightarrow> bool" where
  "generatedFrom parent n \<longleftrightarrow>
     (\<exists>suffix. CHR ''-'' \<notin> set suffix \<and> (n = parent @ ''-'' @ suffix \<or> parent = '''' \<and> n = suffix))"

definition vpaTargets :: "VPA \<Rightarrow> Pod \<Rightarrow> bool" where
  "vpaTargets v pod \<longleftrightarrow>
     (\<exists>i owner. i < length (pOwnerReferences pod) \<and> owner = pOwnerReferences pod ! i \<and>
        refController owner = Some True \<and> (\<forall>j < i. refController (pOwnerReferences pod ! j) \<noteq> Some True) \<and>
        (refKind owner = vpaTargetKind v \<and> refName owner = vpaTargetName v
         \<or> refKind owner = ''ReplicaSet'' \<and> vpaTargetKind v \<noteq> ''ReplicaSet'' \<and> generatedFrom (vpaTargetName v) (refName owner)
         \<or> refKind owner = ''Job'' \<and> vpaTargetKind v = ''CronJob'' \<and> generatedFrom (vpaTargetName v) (refName owner)))"

lemma lastIndex_absent: "c \<notin> set s \<Longrightarrow> lastIndex c s = - 1"
  by (induction s) auto

lemma lastIndex_split: "c \<notin> set b \<Longrightarrow> lastIndex c (a @ c # b) = int (length a)"
  by (induction a) (simp_all add: lastIndex_absent Let_def)

lemma generated_parent:
  "take (nat (max (lastIndex (CHR ''-'') n) 0)) n = parent \<longleftrightarrow> generatedFrom parent n"
proof (cases "CHR ''-'' \<in> set n")
  case True
  then obtain a b where n: "n = a @ CHR ''-'' # b" "CHR ''-'' \<notin> set b" by (meson split_list_last)
  have "a = parent" if s: "CHR ''-'' \<notin> set suffix" "n = parent @ CHR ''-'' # suffix" for suffix
  proof -
    have "int (length a) = int (length parent)"
      using lastIndex_split [OF n(2), of a] lastIndex_split [OF s(1), of parent] unfolding n(1) [symmetric] s(2) [symmetric]
      by (rule trans [OF sym])
    then show ?thesis using n(1) s(2) by (metis append_eq_append_conv of_nat_eq_iff)
  qed
  then show ?thesis using n by (auto simp: lastIndex_split generatedFrom_def)
next
  case False
  then show ?thesis by (auto simp: lastIndex_absent generatedFrom_def)
qed

lemma policyLoop_eq:
  "policyLoop container ps fallback =
     (case policyInForce ps container of Some p \<Rightarrow> Some p | None \<Rightarrow> fallback)"
proof (induction ps arbitrary: fallback)
  case (Cons p ps)
  have "find Q (xs @ [x]) = (case find Q xs of Some y \<Rightarrow> Some y | None \<Rightarrow> if Q x then Some x else None)"
    for Q :: "VPAContainerPolicy \<Rightarrow> bool" and xs x by (induction xs) auto
  then show ?case using Cons.IH by (auto simp: policyInForce_def split: option.splits)
qed (simp add: policyInForce_def)

lemma writesCPULimit_iff: "writesCPULimit v container \<longleftrightarrow> vpaWrites v container"
proof -
  have "policyFor v container = (case vpaPolicies v of None \<Rightarrow> None | Some ps \<Rightarrow> policyInForce ps container)"
    by (auto simp: policyFor_def policyLoop_eq policyInForce_def split: option.splits)
  then show ?thesis by (auto simp: writesCPULimit_def vpaWrites_def ResourceCPU_def split: option.splits)
qed

lemma podUnderTarget_iff: "podUnderTarget pod (vpaTargetKind v) (vpaTargetName v) \<longleftrightarrow> vpaTargets v pod"
proof -
  have "(\<exists>r. GetControllerOf pod = Some r \<and> P r) \<longleftrightarrow>
      (\<exists>i r. i < length (pOwnerReferences pod) \<and> r = pOwnerReferences pod ! i \<and> refController r = Some True
         \<and> (\<forall>j < i. refController (pOwnerReferences pod ! j) \<noteq> Some True) \<and> P r)" for P
    unfolding GetControllerOf_def find_Some_iff by blast
  moreover have "podUnderTarget pod k n \<longleftrightarrow> (\<exists>r. GetControllerOf pod = Some r \<and>
      (refKind r = k \<and> refName r = n \<or> refKind r = ''ReplicaSet'' \<and> k \<noteq> ''ReplicaSet'' \<and> generatedFrom n (refName r)
       \<or> refKind r = ''Job'' \<and> k = ''CronJob'' \<and> generatedFrom n (refName r)))" for k n
    unfolding podUnderTarget_def Let_def generated_parent by (auto split: option.splits)
  ultimately show ?thesis unfolding vpaTargets_def by simp
qed

text \<open>C25. A pod is excluded for the first VPA of its namespace that targets its controller,
  directly or as the Deployment or CronJob its controller's name was generated from, and that
  can write the CPU limit of one of its resizable containers by the autoscaler's own rules for
  modes and container policies. Without such a VPA it is not excluded.\<close>

theorem vpa_exclusion_complete:
  "LimitManagingVPA pod rcs vpas =
     (case filter (\<lambda>v. vpaTargets v pod \<and> (\<exists>c \<in> set rcs. vpaWrites v (rcName c))) vpas of
        [] \<Rightarrow> '''' | v # vs \<Rightarrow> vpaName v)"
  by (induction vpas) (auto simp: podUnderTarget_iff writesCPULimit_iff list_ex_iff)

definition sampleVPA :: VPA where
  "sampleVPA = \<lparr>vpaName = ''v'', vpaTargetKind = ''Deployment'', vpaTargetName = ''web'', vpaUpdateMode = ''Auto'',
     vpaPolicies = Some [\<lparr>vpContainerName = ''*'', vpMode = '''', vpControlledResources = None,
                          vpControlledValues = ''RequestsOnly''\<rparr>,
                         \<lparr>vpContainerName = ''proxy'', vpMode = '''', vpControlledResources = Some [''cpu''],
                          vpControlledValues = ''''\<rparr>]\<rparr>"

lemma sampleVPA_targets: "vpaTargets sampleVPA samplePod"
  by (simp add: podUnderTarget_iff [symmetric] sampleVPA_def samplePod_def podUnderTarget_def GetControllerOf_def)

theorem vpa_exclusion_complete_witness:
  "LimitManagingVPA samplePod sampleRcs [sampleVPA] = ''v''
   \<and> LimitManagingVPA samplePod (take 2 sampleRcs) [sampleVPA] = ''''"
  using vpa_exclusion_complete [of samplePod sampleRcs "[sampleVPA]"]
    vpa_exclusion_complete [of samplePod "take 2 sampleRcs" "[sampleVPA]"] sampleVPA_targets
  by (simp add: sampleRcs_def vpaWrites_def policyInForce_def sampleVPA_def)



lemma Cmp_refl [simp]: "Cmp q q = 0"
  by (cases q) (simp_all add: Cmp_def amtCmp_def cmp64_def Dec_Cmp_def upscale_def Let_def)





text \<open>An owner in the core API group (API version \<open>v1\<close>) is compared with an
  exclusion's API group as \<open>v1\<close>, not as the empty group.\<close>

theorem core_owner_group_is_v1:
  "ownerMatches (\<lparr>refAPIVersion = ''v1'', refKind = k, refName = n, refUID = u,
      refController = c, refBlockOwnerDeletion = b\<rparr>)
    \<lparr>eoKind = k, eoAPIGroup = g, eoName = ''''\<rparr> \<longleftrightarrow> g = '''' \<or> g = ''v1''"
  by (auto simp: ownerMatches_def cutBefore_def)

end
