(* ===== verification/VPAPoller.thy ===== *)
theory VPAPoller
  imports Eligibility
begin

text \<open>
  The poller of \<open>internal/vpa/poller.go\<close>: the cluster-wide view of the
  VerticalPodAutoscalers, refreshed by listing every page, and the change events it
  sends. The API reader is a parameter that answers the n-th request of a listing for a
  continue token; the decoding of an item's spec (\<open>unstructured.NestedMap\<close>, then
  \<open>runtime.DefaultUnstructuredConverter\<close>) arrives as its result, the error of either or the
  decoded struct. A listing need not end, so it is a partial function with result None when
  it does not.
\<close>

section \<open>State\<close>

definition stateServed :: string where
  "stateServed = ''served''"

definition stateAbsent :: string where
  "stateAbsent = ''absent''"

definition stateForbidden :: string where
  "stateForbidden = ''forbidden''"

definition stateFailing :: string where
  "stateFailing = ''failing''"

definition changeBuffer :: nat where
  "changeBuffer = 1024"

type_synonym vpaView = "(string, VPA list) gomap"

record Poller =
  pollPeriod :: int
  byNS :: vpaView
  synced :: bool
  pollState :: string
  changes :: "string list"

definition NewPoller :: Poller where
  "NewPoller = \<lparr>pollPeriod = 0, byNS = [], synced = False, pollState = '''', changes = []\<rparr>"

text \<open>A nil poller is synced and sees no VPA.\<close>

definition Synced :: "Poller option \<Rightarrow> bool" where
  "Synced p = (case p of None \<Rightarrow> True | Some p \<Rightarrow> synced p)"

definition nsVPAs :: "vpaView \<Rightarrow> string \<Rightarrow> VPA list" where
  "nsVPAs m ns = (case mget m ns of Some vs \<Rightarrow> vs | None \<Rightarrow> [])"

definition ForNamespace :: "Poller option \<Rightarrow> string \<Rightarrow> VPA list" where
  "ForNamespace p ns = (case p of None \<Rightarrow> [] | Some p \<Rightarrow> nsVPAs (byNS p) ns)"

section \<open>Listing\<close>

record vpaSpec =
  vsTargetKind :: string
  vsTargetName :: string
  vsUpdateMode :: string
  vsPolicies :: "VPAContainerPolicy list option"

datatype specError = ReadSpec string | DecodeSpec string

record vpaItem =
  viNamespace :: string
  viName :: string
  viSpec :: "specError + vpaSpec"

record vpaPage =
  pageItems :: "vpaItem list"
  pageContinue :: string

type_synonym pageReader = "nat \<Rightarrow> string \<Rightarrow> apiError + vpaPage"

definition specErrorText :: "vpaItem \<Rightarrow> specError \<Rightarrow> string" where
  "specErrorText item e =
     (case e of
        ReadSpec t \<Rightarrow> ''read spec of '' @ viNamespace item @ ''/'' @ viName item @ '': '' @ t
      | DecodeSpec t \<Rightarrow> ''decode spec of '' @ viNamespace item @ ''/'' @ viName item @ '': '' @ t)"

fun parse :: "vpaItem list \<Rightarrow> vpaView \<Rightarrow> apiError + vpaView" where
  "parse [] m = Inr m"
| "parse (item # items) m =
     (case viSpec item of
        Inl e \<Rightarrow> Inl (OtherError (specErrorText item e))
      | Inr spec \<Rightarrow>
          parse items (mput (viNamespace item)
            (nsVPAs m (viNamespace item) @
              [\<lparr>vpaName = viName item, vpaTargetKind = vsTargetKind spec, vpaTargetName = vsTargetName spec,
                vpaUpdateMode = vsUpdateMode spec, vpaPolicies = vsPolicies spec\<rparr>]) m))"

partial_function (option) listPages ::
  "pageReader \<Rightarrow> nat \<Rightarrow> string \<Rightarrow> vpaView \<Rightarrow> (apiError + vpaView) option" where
  "listPages rd n token m =
     (case rd n token of
        Inl e \<Rightarrow> Some (Inl e)
      | Inr page \<Rightarrow>
          (case parse (pageItems page) m of
             Inl e \<Rightarrow> Some (Inl e)
           | Inr m' \<Rightarrow> if pageContinue page = '''' then Some (Inr m')
                       else listPages rd (n + 1) (pageContinue page) m'))"

definition pollList :: "pageReader \<Rightarrow> (apiError + vpaView) option" where
  "pollList rd = listPages rd 0 '''' []"

section \<open>Refreshing\<close>

definition send :: "string \<Rightarrow> string list \<Rightarrow> string list" where
  "send ns ch = (if length ch < changeBuffer then ch @ [ns] else ch)"

text \<open>The namespaces a notification is for, in the order the two loops visit them.\<close>

definition changedNamespaces :: "vpaView \<Rightarrow> vpaView \<Rightarrow> string list" where
  "changedNamespaces previous current =
     map fst (filter (\<lambda>(ns, vpas). mget previous ns \<noteq> Some vpas) current)
     @ map fst (filter (\<lambda>(ns, vpas). mget current ns = None) previous)"

definition notify :: "vpaView \<Rightarrow> vpaView \<Rightarrow> string list \<Rightarrow> string list" where
  "notify previous current ch = fold send (changedNamespaces previous current) ch"

definition refreshState :: "apiError + vpaView \<Rightarrow> string" where
  "refreshState r =
     (case r of
        Inr m \<Rightarrow> stateServed
      | Inl (NoMatch e) \<Rightarrow> stateAbsent
      | Inl (NotFound e) \<Rightarrow> stateAbsent
      | Inl (Forbidden e) \<Rightarrow> stateForbidden
      | Inl _ \<Rightarrow> stateFailing)"

definition Refresh :: "pageReader \<Rightarrow> bool \<Rightarrow> Poller \<Rightarrow> Poller option" where
  "Refresh rd cancelled p =
     (case pollList rd of
        None \<Rightarrow> None
      | Some r \<Rightarrow>
          Some (if cancelled then p
            else
              let state = refreshState r;
                  listed = (case r of Inr m \<Rightarrow> m | Inl e \<Rightarrow> []);
                  previous = byNS p;
                  current = (if state \<noteq> stateFailing then listed else previous);
                  p = p\<lparr>byNS := current, synced := True, pollState := state\<rparr>
              in if state \<noteq> stateFailing
                 then p\<lparr>changes := notify previous current (changes p)\<rparr> else p))"

section \<open>The polling loop\<close>

definition defaultPeriod :: int where
  "defaultPeriod = 30 * 1000000000"

definition NeedLeaderElection :: "Poller \<Rightarrow> bool" where
  "NeedLeaderElection p = False"

text \<open>What wakes the loop: the end of its context, or a tick, with the answers the reader gives
  then and whether the context ends while it lists. The loop waits when the list is used up.\<close>

datatype wakeup = CtxDone | Tick pageReader bool

fun startLoop :: "wakeup list \<Rightarrow> Poller \<Rightarrow> Poller option" where
  "startLoop [] p = Some p"
| "startLoop (CtxDone # ws) p = Some p"
| "startLoop (Tick rd cancelled # ws) p =
     (case Refresh rd cancelled p of None \<Rightarrow> None | Some p \<Rightarrow> startLoop ws p)"

text \<open>The period of the ticker, and the poller after the given wake-ups.\<close>

definition pollerStart :: "pageReader \<Rightarrow> bool \<Rightarrow> wakeup list \<Rightarrow> Poller \<Rightarrow> int \<times> Poller option" where
  "pollerStart rd cancelled ws p =
     (let period = (if pollPeriod p \<le> 0 then defaultPeriod else pollPeriod p)
      in (period, case Refresh rd cancelled p of None \<Rightarrow> None | Some p \<Rightarrow> startLoop ws p))"

lemma Refresh_keeps:
  assumes "Refresh rd cancelled p = Some p'"
  shows "synced p \<or> \<not> cancelled \<Longrightarrow> synced p'" "pollPeriod p' = pollPeriod p"
  using assms by (auto simp: Refresh_def Let_def split: option.splits if_splits)

lemma startLoop_synced: "startLoop ws p = Some p' \<Longrightarrow> synced p \<Longrightarrow> synced p'"
  by (induction ws p rule: startLoop.induct) (auto split: option.splits dest: Refresh_keeps(1))

text \<open>Once the first listing has ended the poller stays synced, whatever later ones find: the node
  reconciler, which waits for it, is never held up again.\<close>

lemma pollerStart_synced: "pollerStart rd False ws p = (period, Some p') \<Longrightarrow> Synced (Some p') \<and> 0 < period"
  by (auto simp: pollerStart_def Synced_def defaultPeriod_def Let_def split: option.splits if_splits
      dest: startLoop_synced Refresh_keeps(1))

section \<open>What a listing returns\<close>

text \<open>The items of the pages, and the view they make.\<close>

definition toVPA :: "vpaItem \<Rightarrow> VPA" where
  "toVPA item = (case viSpec item of
     Inr spec \<Rightarrow> \<lparr>vpaName = viName item, vpaTargetKind = vsTargetKind spec, vpaTargetName = vsTargetName spec,
        vpaUpdateMode = vsUpdateMode spec, vpaPolicies = vsPolicies spec\<rparr>
   | Inl e \<Rightarrow> \<lparr>vpaName = '''', vpaTargetKind = '''', vpaTargetName = '''', vpaUpdateMode = '''', vpaPolicies = None\<rparr>)"

definition decodes :: "vpaItem \<Rightarrow> bool" where
  "decodes item = (case viSpec item of Inr s \<Rightarrow> True | Inl e \<Rightarrow> False)"

definition vpasOf :: "vpaItem list \<Rightarrow> string \<Rightarrow> VPA list" where
  "vpasOf items ns = map toVPA (filter (\<lambda>i. viNamespace i = ns) items)"

lemma nsVPAs_mput: "nsVPAs (mput k v m) ns = (if ns = k then v else nsVPAs m ns)"
  by (simp add: nsVPAs_def gomap_simps)

lemma parse_ok:
  "list_all decodes items \<Longrightarrow> gomap_ok m \<Longrightarrow>
   \<exists>m'. parse items m = Inr m' \<and> gomap_ok m' \<and> (\<forall>ns. nsVPAs m' ns = nsVPAs m ns @ vpasOf items ns)
     \<and> (\<forall>ns. mget m' ns = None \<longleftrightarrow> mget m ns = None \<and> vpasOf items ns = [])"
proof (induction items arbitrary: m)
  case Nil
  then show ?case by (simp add: vpasOf_def)
next
  case (Cons i items)
  obtain s where s: "viSpec i = Inr s" using Cons.prems(1) by (auto simp: decodes_def split: sum.splits)
  let ?m = "mput (viNamespace i) (nsVPAs m (viNamespace i) @ [toVPA i]) m"
  have "gomap_ok ?m" using Cons.prems(2) by (rule gm.ok_put)
  then obtain m' where m': "parse items ?m = Inr m'" "gomap_ok m'"
    "\<forall>ns. nsVPAs m' ns = nsVPAs ?m ns @ vpasOf items ns"
    "\<forall>ns. mget m' ns = None \<longleftrightarrow> mget ?m ns = None \<and> vpasOf items ns = []"
    using Cons.IH [of ?m] Cons.prems(1) by auto
  have "parse (i # items) m = Inr m'" using m'(1) s by (simp add: toVPA_def)
  then show ?case using m'(2-4) by (auto simp: nsVPAs_mput vpasOf_def gomap_simps)
qed

lemma parse_fails: "\<not> list_all decodes items \<Longrightarrow> \<exists>t. parse items m = Inl (OtherError t)"
  by (induction items arbitrary: m) (auto simp: decodes_def split: sum.splits)

text \<open>A reader that serves the given pages, one token after the other.\<close>

fun serves :: "pageReader \<Rightarrow> nat \<Rightarrow> string \<Rightarrow> vpaItem list list \<Rightarrow> bool" where
  "serves rd n token [] = False"
| "serves rd n token [items] \<longleftrightarrow> rd n token = Inr \<lparr>pageItems = items, pageContinue = ''''\<rparr>"
| "serves rd n token (items # rest) \<longleftrightarrow>
     (case rd n token of
        Inl e \<Rightarrow> False
      | Inr page \<Rightarrow> pageItems page = items \<and> pageContinue page \<noteq> ''''
          \<and> serves rd (n + 1) (pageContinue page) rest)"

lemma listPages_ok:
  "serves rd n token pages \<Longrightarrow> list_all decodes (concat pages) \<Longrightarrow> gomap_ok m \<Longrightarrow>
   \<exists>m'. listPages rd n token m = Some (Inr m') \<and> gomap_ok m'
     \<and> (\<forall>ns. nsVPAs m' ns = nsVPAs m ns @ vpasOf (concat pages) ns)
     \<and> (\<forall>ns. mget m' ns = None \<longleftrightarrow> mget m ns = None \<and> vpasOf (concat pages) ns = [])"
proof (induction rd n token pages arbitrary: m rule: serves.induct)
  case (2 rd n token items)
  then show ?case using parse_ok [of items m] by (subst listPages.simps) auto
next
  case (3 rd n token items p ps)
  obtain page where page: "rd n token = Inr page" "pageItems page = items" "pageContinue page \<noteq> ''''"
    "serves rd (n + 1) (pageContinue page) (p # ps)"
    using 3(2) by (auto split: sum.splits)
  obtain m1 where m1: "parse items m = Inr m1" "gomap_ok m1" "\<forall>ns. nsVPAs m1 ns = nsVPAs m ns @ vpasOf items ns"
    "\<forall>ns. mget m1 ns = None \<longleftrightarrow> mget m ns = None \<and> vpasOf items ns = []"
    using parse_ok [of items m] 3(3,4) by auto
  obtain m2 where m2: "listPages rd (n + 1) (pageContinue page) m1 = Some (Inr m2)" "gomap_ok m2"
    "\<forall>ns. nsVPAs m2 ns = nsVPAs m1 ns @ vpasOf (concat (p # ps)) ns"
    "\<forall>ns. mget m2 ns = None \<longleftrightarrow> mget m1 ns = None \<and> vpasOf (concat (p # ps)) ns = []"
    using 3(1) [OF page(1,4) _ m1(2)] 3(3) by auto
  have "listPages rd n token m = Some (Inr m2)"
    using page(1-3) m1(1) m2(1) by (subst listPages.simps) simp
  then show ?case using m1(3,4) m2(2-4) by (auto simp: vpasOf_def)
qed simp

lemma fold_send: "fold send nss ch = ch @ take (changeBuffer - length ch) nss"
proof (induction nss arbitrary: ch)
  case (Cons ns nss)
  have "changeBuffer - length ch = Suc (changeBuffer - length (ch @ [ns]))" if "length ch < changeBuffer"
    using that by simp
  then show ?case using Cons.IH [of "ch @ [ns]"] Cons.IH [of ch] by (simp add: send_def)
qed simp

text \<open>The namespaces whose view changed are those that get a notification.\<close>

lemma changedNamespaces_set:
  assumes "gomap_ok previous" "gomap_ok current"
  shows "set (changedNamespaces previous current) = {ns. mget previous ns \<noteq> mget current ns}"
proof -
  have d: "distinct (map fst previous)" "distinct (map fst current)"
    using assms by (simp_all add: gomap_ok_def)
  have c1: "ns \<in> fst ` {x \<in> set current. mget previous (fst x) \<noteq> Some (snd x)} \<longleftrightarrow>
      mget current ns \<noteq> None \<and> mget previous ns \<noteq> mget current ns" for ns
    using d(2) by (force simp: image_iff dest: map_of_SomeD)
  have c2: "ns \<in> fst ` {x \<in> set previous. mget current (fst x) = None} \<longleftrightarrow>
      mget current ns = None \<and> mget previous ns \<noteq> None" for ns
    using d(1) by (force simp: image_iff dest: map_of_SomeD)
  have s: "set (changedNamespaces previous current) =
      fst ` {x \<in> set current. mget previous (fst x) \<noteq> Some (snd x)} \<union> fst ` {x \<in> set previous. mget current (fst x) = None}"
    by (simp add: changedNamespaces_def case_prod_beta)
  show ?thesis
  proof (rule set_eqI)
    fix ns
    show "ns \<in> set (changedNamespaces previous current) \<longleftrightarrow> ns \<in> {ns. mget previous ns \<noteq> mget current ns}"
      unfolding s Un_iff c1 c2 by (cases "mget current ns") auto
  qed
qed

lemma changedNamespaces_distinct:
  assumes "gomap_ok previous" "gomap_ok current"
  shows "distinct (changedNamespaces previous current)"
proof -
  have "fst x \<noteq> fst y" if "x \<in> set current" "mget current (fst y) = None" for x y
    using that by (metis fst_conv map_of_eq_None_iff image_eqI surj_pair)
  then show ?thesis
    using assms by (fastforce simp: changedNamespaces_def gomap_ok_def distinct_map_filter case_prod_beta)
qed

text \<open>What a notification appends to the channel: as many of the changed namespaces, each once,
  as the buffer has room for.\<close>

lemma notify_announces:
  assumes "gomap_ok previous" "gomap_ok current"
  defines "changed \<equiv> {ns. mget previous ns \<noteq> mget current ns}"
  shows "\<exists>nss. notify previous current ch = ch @ nss \<and> distinct nss \<and> set nss \<subseteq> changed
    \<and> length nss = min (card changed) (changeBuffer - length ch)"
proof -
  let ?nss = "changedNamespaces previous current" and ?k = "changeBuffer - length ch"
  have set: "set ?nss = changed" and d: "distinct ?nss"
    using changedNamespaces_set [OF assms(1,2)] changedNamespaces_distinct [OF assms(1,2)] by (simp_all add: changed_def)
  have "length (take ?k ?nss) = min (card changed) ?k"
    using distinct_card [OF d] set by (simp add: min.commute)
  moreover have "set (take ?k ?nss) \<subseteq> changed" using set_take_subset [of ?k ?nss] set by simp
  ultimately show ?thesis using d by (auto simp: notify_def fold_send)
qed

section \<open>Properties\<close>

text \<open>C26. A refresh that can read and decode every page serves exactly the listed VPAs: each
  namespace shows its own, in listing order, and the poller is synced. It announces only
  namespaces whose VPAs differ from the last view, each once, and as many of them as the change
  buffer has room for: all of them while it has.\<close>

theorem refresh_serves_listing:
  assumes "serves rd 0 '''' pages" "list_all decodes (concat pages)" "gomap_ok (byNS p)"
  shows "\<exists>p' nss. Refresh rd False p = Some p' \<and> Synced (Some p') \<and> gomap_ok (byNS p')
    \<and> ForNamespace (Some p') = vpasOf (concat pages)
    \<and> changes p' = changes p @ nss \<and> distinct nss
    \<and> set nss \<subseteq> {ns. mget (byNS p) ns \<noteq> mget (byNS p') ns}
    \<and> length nss = min (card {ns. mget (byNS p) ns \<noteq> mget (byNS p') ns}) (changeBuffer - length (changes p))"
proof -
  obtain m where m: "listPages rd 0 '''' [] = Some (Inr m)" "gomap_ok m"
    "\<forall>ns. nsVPAs m ns = vpasOf (concat pages) ns"
    using listPages_ok [OF assms(1,2), of "[]"] by (auto simp: gm.ok_empty nsVPAs_def)
  define p' where "p' = p\<lparr>byNS := m, synced := True, pollState := stateServed,
      changes := notify (byNS p) m (changes p)\<rparr>"
  have R: "Refresh rd False p = Some p'"
    by (simp add: Refresh_def pollList_def m(1) refreshState_def stateServed_def stateFailing_def p'_def Let_def)
  obtain nss where nss: "notify (byNS p) m (changes p) = changes p @ nss" "distinct nss"
    "set nss \<subseteq> {ns. mget (byNS p) ns \<noteq> mget m ns}"
    "length nss = min (card {ns. mget (byNS p) ns \<noteq> mget m ns}) (changeBuffer - length (changes p))"
    using notify_announces [OF assms(3) m(2)] by blast
  have "ForNamespace (Some p') = vpasOf (concat pages)"
    using m(3) by (simp add: ForNamespace_def p'_def fun_eq_iff)
  then show ?thesis
    using R nss m(2) by (intro exI [of _ p'] exI [of _ nss]) (simp add: Synced_def p'_def)
qed

definition sampleItem :: "string \<Rightarrow> string \<Rightarrow> vpaItem" where
  "sampleItem ns n = \<lparr>viNamespace = ns, viName = n, viSpec = Inr \<lparr>vsTargetKind = ''Deployment'',
     vsTargetName = ''web'', vsUpdateMode = ''Auto'', vsPolicies = None\<rparr>\<rparr>"

definition sampleReader :: pageReader where
  "sampleReader n token =
     (if token = '''' then Inr \<lparr>pageItems = [sampleItem ''a'' ''v1''], pageContinue = ''next''\<rparr>
      else Inr \<lparr>pageItems = [sampleItem ''b'' ''v2'', sampleItem ''a'' ''v3''], pageContinue = ''''\<rparr>)"

lemma sampleReader_serves:
  "serves sampleReader 0 '''' [[sampleItem ''a'' ''v1''], [sampleItem ''b'' ''v2'', sampleItem ''a'' ''v3'']]"
  by (simp add: sampleReader_def)

theorem refresh_serves_listing_witness:
  "\<exists>p'. Refresh sampleReader False NewPoller = Some p'
    \<and> map vpaName (ForNamespace (Some p') ''a'') = [''v1'', ''v3'']"
proof -
  have "list_all decodes (concat [[sampleItem ''a'' ''v1''], [sampleItem ''b'' ''v2'', sampleItem ''a'' ''v3'']])"
    by (simp add: decodes_def sampleItem_def)
  from refresh_serves_listing [OF sampleReader_serves this, of NewPoller] show ?thesis
    by (auto simp: NewPoller_def gm.ok_empty changeBuffer_def vpasOf_def sampleItem_def toVPA_def)
qed

text \<open>A reader that serves some pages and then answers with an error.\<close>

fun failsAfter :: "pageReader \<Rightarrow> nat \<Rightarrow> string \<Rightarrow> vpaItem list list \<Rightarrow> apiError \<Rightarrow> bool" where
  "failsAfter rd n token [] e \<longleftrightarrow> rd n token = Inl e"
| "failsAfter rd n token (items # rest) e \<longleftrightarrow>
     (case rd n token of
        Inl e \<Rightarrow> False
      | Inr page \<Rightarrow> pageItems page = items \<and> pageContinue page \<noteq> ''''
          \<and> failsAfter rd (n + 1) (pageContinue page) rest e)"

lemma listPages_fails:
  "failsAfter rd n token pages e \<Longrightarrow>
   \<exists>t. listPages rd n token m = Some (Inl (if list_all decodes (concat pages) then e else OtherError t))"
proof (induction rd n token pages e arbitrary: m rule: failsAfter.induct)
  case (1 rd n token e)
  then show ?case by (subst listPages.simps) simp
next
  case (2 rd n token items rest e)
  obtain page where page: "rd n token = Inr page" "pageItems page = items" "pageContinue page \<noteq> ''''"
    "failsAfter rd (n + 1) (pageContinue page) rest e"
    using 2(2) by (auto split: sum.splits)
  show ?case
  proof (cases "list_all decodes items")
    case True
    show ?thesis
    proof (cases "parse items m")
      case (Inr m')
      then show ?thesis
        using 2(1) [OF page(1,4), of m'] page(1-3) True by (subst listPages.simps) simp
    next
      case (Inl err)
      have "\<exists>m'. parse items m = Inr m'" using True
        by (induction items arbitrary: m) (auto simp: decodes_def split: sum.splits)
      then show ?thesis using Inl by simp
    qed
  next
    case False
    then show ?thesis
      using parse_fails [OF False, of m] page(1-3) by (subst listPages.simps) auto
  qed
qed

text \<open>C27. A listing that breaks off changes nothing: after an error that is neither
  absence nor a refusal, on any page, the poller keeps its last view and announces no
  change; an absent or forbidden API empties the view and announces every namespace it
  showed.\<close>

theorem refresh_failure_outcomes:
  assumes "failsAfter rd 0 '''' pages e" "list_all decodes (concat pages)"
  shows "\<exists>p'. Refresh rd False p = Some p' \<and> Synced (Some p')
    \<and> (case e of
         Conflict t \<Rightarrow> byNS p' = byNS p \<and> changes p' = changes p
       | OtherError t \<Rightarrow> byNS p' = byNS p \<and> changes p' = changes p
       | _ \<Rightarrow> byNS p' = [] \<and> changes p' = fold send (map fst (byNS p)) (changes p))"
proof -
  obtain r where r: "listPages rd 0 '''' [] = Some (Inl e)" using listPages_fails [OF assms(1)] assms(2) by auto
  have "map fst (filter (\<lambda>(ns, vpas). True) (byNS p)) = map fst (byNS p)" by (simp add: case_prod_beta)
  then show ?thesis
    by (cases e) (simp_all add: Refresh_def pollList_def r refreshState_def stateServed_def stateAbsent_def
        stateForbidden_def stateFailing_def Synced_def notify_def changedNamespaces_def Let_def)
qed

theorem refresh_failure_outcomes_witness:
  "\<exists>p'. Refresh (\<lambda>n t. if t = '''' then sampleReader n t else Inl (OtherError ''timeout'')) False
      (NewPoller\<lparr>byNS := [(''a'', [])]\<rparr>) = Some p' \<and> byNS p' = [(''a'', [])] \<and> changes p' = []"
proof -
  have "failsAfter (\<lambda>n t. if t = '''' then sampleReader n t else Inl (OtherError ''timeout'')) 0 ''''
      [[sampleItem ''a'' ''v1'']] (OtherError ''timeout'')"
    by (simp add: sampleReader_def)
  from refresh_failure_outcomes [OF this, of "NewPoller\<lparr>byNS := [(''a'', [])]\<rparr>"] show ?thesis
    by (auto simp: NewPoller_def decodes_def sampleItem_def)
qed

section \<open>The loop ends its listings\<close>

text \<open>How the API server answers a listing in chunks, by the documentation of the continue
  token: from one snapshot of the collection, each page holding the items from where its token
  points to where its own continue token does, which lies further on, or to the end of the
  snapshot. A request may always fail instead (the page's deadline, an expired token).\<close>

definition chunked :: "pageReader \<Rightarrow> vpaItem list \<Rightarrow> (string \<Rightarrow> nat) \<Rightarrow> bool" where
  "chunked rd snapshot pos \<longleftrightarrow> pos '''' = 0 \<and>
     (\<forall>n token page. rd n token = Inr page \<longrightarrow>
        (if pageContinue page = '''' then pageItems page = drop (pos token) snapshot
         else pos token < pos (pageContinue page) \<and> pos (pageContinue page) \<le> length snapshot \<and>
           pageItems page = drop (pos token) (take (pos (pageContinue page)) snapshot)))"

text \<open>The invariant of the poller: its view is a map and the change channel is within its
  buffer.\<close>

definition pollerOk :: "Poller \<Rightarrow> bool" where
  "pollerOk p \<longleftrightarrow> gomap_ok (byNS p) \<and> length (changes p) \<le> changeBuffer"

lemma parse_view:
  assumes "parse items m = Inr m'" "gomap_ok m"
  shows "gomap_ok m'" "nsVPAs m' ns = nsVPAs m ns @ vpasOf items ns"
proof -
  have "list_all decodes items" using assms(1) parse_fails [of items m] by auto
  then show "gomap_ok m'" "nsVPAs m' ns = nsVPAs m ns @ vpasOf items ns"
    using parse_ok [OF _ assms(2), of items] assms(1) by auto
qed

lemma vpasOf_append: "vpasOf (xs @ ys) ns = vpasOf xs ns @ vpasOf ys ns"
  by (simp add: vpasOf_def)

text \<open>Every further page starts further on in the snapshot, so the listing ends; if no page
  failed, with the view of the whole snapshot.\<close>

lemma listPages_ends:
  assumes "chunked rd snapshot pos" "gomap_ok m" "\<And>ns. nsVPAs m ns = vpasOf (take (pos token) snapshot) ns"
  shows "\<exists>res. listPages rd n token m = Some res \<and>
    (\<forall>m'. res = Inr m' \<longrightarrow> gomap_ok m' \<and> nsVPAs m' = vpasOf snapshot)"
  using assms(2,3)
proof (induction "length snapshot - pos token" arbitrary: n token m rule: less_induct)
  case less
  consider e where "rd n token = Inl e"
    | page e where "rd n token = Inr page" "parse (pageItems page) m = Inl e"
    | page m1 where "rd n token = Inr page" "parse (pageItems page) m = Inr m1" "pageContinue page = ''''"
    | page m1 where "rd n token = Inr page" "parse (pageItems page) m = Inr m1" "pageContinue page \<noteq> ''''"
    by (metis sum.exhaust)
  then show ?case
  proof cases
    case 1
    then show ?thesis by (subst listPages.simps) simp
  next
    case 2
    then show ?thesis by (subst listPages.simps) simp
  next
    case 3
    have "pageItems page = drop (pos token) snapshot" using assms(1) 3 by (auto simp: chunked_def)
    then have "nsVPAs m1 = vpasOf snapshot"
      using parse_view(2) [OF 3(2) less.prems(1)] less.prems(2) by (simp add: fun_eq_iff vpasOf_append [symmetric])
    then show ?thesis using 3 parse_view(1) [OF 3(2) less.prems(1)] by (subst listPages.simps) simp
  next
    case 4
    let ?next = "pos (pageContinue page)"
    have c: "pos token < ?next" "?next \<le> length snapshot"
      "pageItems page = drop (pos token) (take ?next snapshot)"
      using assms(1) 4(1,3) by (auto simp: chunked_def)
    have "take (pos token) snapshot @ pageItems page = take ?next snapshot"
      using append_take_drop_id [of "pos token" "take ?next snapshot"] c(1,3) by (simp add: min_absorb1)
    then have v: "nsVPAs m1 ns = vpasOf (take ?next snapshot) ns" for ns
      using parse_view(2) [OF 4(2) less.prems(1)] less.prems(2) by (simp add: vpasOf_append [symmetric])
    have "length snapshot - ?next < length snapshot - pos token" using c by simp
    from less.hyps [OF this parse_view(1) [OF 4(2) less.prems(1)] v] show ?thesis
      using 4 by (subst listPages.simps) simp
  qed
qed

lemma fold_send_length: "length ch \<le> changeBuffer \<Longrightarrow> length (fold send nss ch) \<le> changeBuffer"
  by (simp add: fold_send)

text \<open>The views a refresh may leave: the last one, none, or the snapshot's.\<close>

lemma Refresh_ends:
  assumes "chunked rd snapshot pos" "pollerOk p"
  shows "\<exists>p'. Refresh rd cancelled p = Some p' \<and> pollerOk p' \<and>
    ForNamespace (Some p') \<in> {ForNamespace (Some p), \<lambda>ns. [], vpasOf snapshot}"
proof -
  have "pos '''' = 0" using assms(1) by (simp add: chunked_def)
  then obtain res where res: "listPages rd 0 '''' [] = Some res"
    "\<forall>m'. res = Inr m' \<longrightarrow> gomap_ok m' \<and> nsVPAs m' = vpasOf snapshot"
    using listPages_ends [OF assms(1) gm.ok_empty, of "''''" 0] by (auto simp: nsVPAs_def vpasOf_def)
  have empty: "nsVPAs [] = (\<lambda>ns. [])" by (simp add: nsVPAs_def fun_eq_iff)
  from res show ?thesis
    using assms(2) by (cases res)
      (auto simp: Refresh_def pollList_def pollerOk_def notify_def fold_send_length gm.ok_empty
        ForNamespace_def empty Let_def)
qed

lemma startLoop_ends:
  assumes "\<forall>rd c. Tick rd c \<in> set ws \<longrightarrow> (\<exists>pos. chunked rd (snap rd) pos)" "pollerOk p"
  shows "\<exists>p'. startLoop ws p = Some p' \<and> pollerOk p' \<and>
    ForNamespace (Some p') \<in> {ForNamespace (Some p), \<lambda>ns. []} \<union> {vpasOf (snap rd) |rd c. Tick rd c \<in> set ws}"
  using assms
proof (induction ws p rule: startLoop.induct)
  case (3 rd cancelled ws p)
  obtain pos where "chunked rd (snap rd) pos" using "3.prems"(1) by auto
  from Refresh_ends [OF this "3.prems"(2), of cancelled] obtain p1 where p1: "Refresh rd cancelled p = Some p1"
    "pollerOk p1" "ForNamespace (Some p1) \<in> {ForNamespace (Some p), \<lambda>ns. [], vpasOf (snap rd)}" by blast
  have "\<forall>rd c. Tick rd c \<in> set ws \<longrightarrow> (\<exists>pos. chunked rd (snap rd) pos)" using "3.prems"(1) by auto
  from "3.IH" [OF p1(1) this p1(2)] obtain p' where p': "startLoop ws p1 = Some p'" "pollerOk p'"
    "ForNamespace (Some p') \<in> {ForNamespace (Some p1), \<lambda>ns. []} \<union> {vpasOf (snap rd) |rd c. Tick rd c \<in> set ws}" by blast
  have "ForNamespace (Some p') \<in> {ForNamespace (Some p), \<lambda>ns. []}
      \<union> {vpasOf (snap rd') |rd' c. Tick rd' c \<in> set (Tick rd cancelled # ws)}"
    using p'(3) p1(3) by (auto 0 3)
  then show ?case using p' p1(1) by simp
qed auto

text \<open>C36. Whatever the wake-ups, with a server that lists in chunks of a snapshot, the loop of
  the poller never gets stuck: it comes back from every refresh, whatever page failed, with a
  positive period and the channel within its buffer, so that an absent consumer of the changes
  never blocks it. It is synced once the first listing was not cut off by the end of its context.
  The view it shows is never part of a listing: it is the initial one, the empty one or all of
  one of the snapshots.\<close>

theorem poller_start_returns:
  assumes "\<forall>rd' \<in> insert rd {rd'. \<exists>c. Tick rd' c \<in> set ws}. \<exists>pos. chunked rd' (snap rd') pos"
    and "gomap_ok (byNS p)" "length (changes p) \<le> changeBuffer"
  shows "\<exists>period p'. pollerStart rd cancelled ws p = (period, Some p') \<and> 0 < period
    \<and> (\<not> cancelled \<longrightarrow> Synced (Some p')) \<and> gomap_ok (byNS p') \<and> length (changes p') \<le> changeBuffer
    \<and> (ForNamespace (Some p') = ForNamespace (Some p) \<or> ForNamespace (Some p') = (\<lambda>ns. [])
       \<or> (\<exists>rd' \<in> insert rd {rd'. \<exists>c. Tick rd' c \<in> set ws}. ForNamespace (Some p') = vpasOf (snap rd')))"
proof -
  have ok: "pollerOk p" using assms(2,3) by (simp add: pollerOk_def)
  obtain pos where "chunked rd (snap rd) pos" using assms(1) by blast
  from Refresh_ends [OF this ok, of cancelled] obtain p1 where p1: "Refresh rd cancelled p = Some p1"
    "pollerOk p1" "ForNamespace (Some p1) \<in> {ForNamespace (Some p), \<lambda>ns. [], vpasOf (snap rd)}" by blast
  have ticks: "\<forall>rd c. Tick rd c \<in> set ws \<longrightarrow> (\<exists>pos. chunked rd (snap rd) pos)" using assms(1) by blast
  from startLoop_ends [OF ticks p1(2)] obtain p' where p': "startLoop ws p1 = Some p'" "pollerOk p'"
    "ForNamespace (Some p') \<in> {ForNamespace (Some p1), \<lambda>ns. []} \<union> {vpasOf (snap rd) |rd c. Tick rd c \<in> set ws}" by blast
  obtain period where start: "pollerStart rd cancelled ws p = (period, Some p')"
    using p1(1) p'(1) by (simp add: pollerStart_def Let_def)
  have "0 < period" using start by (auto simp: pollerStart_def defaultPeriod_def Let_def split: if_splits)
  moreover have "\<not> cancelled \<longrightarrow> Synced (Some p')" using start pollerStart_synced by auto
  moreover have "ForNamespace (Some p') = ForNamespace (Some p) \<or> ForNamespace (Some p') = (\<lambda>ns. [])
      \<or> (\<exists>rd' \<in> insert rd {rd'. \<exists>c. Tick rd' c \<in> set ws}. ForNamespace (Some p') = vpasOf (snap rd'))"
    using p1(3) p'(3) by auto
  ultimately show ?thesis using start p'(2) by (simp add: pollerOk_def)
qed

definition timeoutReader :: pageReader where
  "timeoutReader n token = Inl (OtherError ''context deadline exceeded'')"

definition sampleSnapshot :: "vpaItem list" where
  "sampleSnapshot = [sampleItem ''a'' ''v1'', sampleItem ''b'' ''v2'', sampleItem ''a'' ''v3'']"

lemma sampleReader_chunked: "chunked sampleReader sampleSnapshot (\<lambda>token. if token = '''' then 0 else 1)"
  by (auto simp: chunked_def sampleReader_def sampleSnapshot_def)

theorem poller_start_returns_witness:
  "\<exists>period p'. pollerStart sampleReader False [Tick timeoutReader False, Tick sampleReader True, CtxDone] NewPoller
        = (period, Some p')
      \<and> 0 < period \<and> Synced (Some p') \<and> length (changes p') \<le> changeBuffer
      \<and> ForNamespace (Some p') \<in> {\<lambda>ns. [], vpasOf sampleSnapshot}"
proof -
  let ?ws = "[Tick timeoutReader False, Tick sampleReader True, CtxDone]"
  have "chunked timeoutReader sampleSnapshot (\<lambda>token. 0)" by (simp add: chunked_def timeoutReader_def)
  then have "\<forall>rd' \<in> insert sampleReader {rd'. \<exists>c. Tick rd' c \<in> set ?ws}. \<exists>pos. chunked rd' sampleSnapshot pos"
    using sampleReader_chunked by auto
  moreover have "gomap_ok (byNS NewPoller)" "length (changes NewPoller) \<le> changeBuffer"
    "ForNamespace (Some NewPoller) = (\<lambda>ns. [])"
    by (simp_all add: NewPoller_def gm.ok_empty ForNamespace_def nsVPAs_def fun_eq_iff)
  ultimately show ?thesis
    using poller_start_returns [where snap = "\<lambda>rd. sampleSnapshot", of sampleReader ?ws NewPoller False] by auto
qed

end
