(* ===== verification/WebhookDefaulter.thy ===== *)
theory WebhookDefaulter
  imports VPAPoller SampleObjects
begin

text \<open>
  The birth-limit webhook, \<open>internal/webhook/v1/pod_webhook.go\<close>: at pod creation it
  gives every container that has a CPU request and no CPU limit a limit of request times
  a multiplier. The pod is mutated in place through pointers into its two container
  slices, so a pointer of the model is an index into one of them. The reader of the
  configuration and of namespaces is a parameter.
\<close>

section \<open>The handler\<close>

text \<open>What the handler asks of the API: the \<open>HeadroomConfig\<close> singleton, a namespace by
  name, and the namespace of the admission request when the context carries one.\<close>

record webhookReader =
  getSingleton :: "apiError + HeadroomConfig"
  getNamespace :: "string \<Rightarrow> apiError + Namespace"
  requestNamespace :: "string option"

datatype containerPtr = AppPtr nat | InitPtr nat

definition containerPtrsByName :: "Pod \<Rightarrow> (string, containerPtr) gomap" where
  "containerPtrsByName pod =
     fold (\<lambda>i m. mput (cName (pInitContainers pod ! i)) (InitPtr i) m) [0..<length (pInitContainers pod)]
       (fold (\<lambda>i m. mput (cName (pContainers pod ! i)) (AppPtr i) m) [0..<length (pContainers pod)] [])"

definition quantizeMilli :: "int64 \<Rightarrow> int64 \<Rightarrow> int64" where
  "quantizeMilli v q = (if q \<le> 0 then v else mul64 (div64 (add64 v (div64 q 2)) q) q)"

text \<open>The assignment to \<open>c.Resources.Limits[cpu]\<close>, allocating the map when it is nil.\<close>

definition withCPULimit :: "int64 \<Rightarrow> Container \<Rightarrow> Container" where
  "withCPULimit target c =
     c\<lparr>cResources := (cResources c)\<lparr>Limits :=
        Some (mput ResourceCPU (NewMilliQuantity target) (entries (Limits (cResources c))))\<rparr>\<rparr>"

definition writeLimit :: "containerPtr \<Rightarrow> int64 \<Rightarrow> Pod \<Rightarrow> Pod" where
  "writeLimit p target pod =
     (case p of
        AppPtr i \<Rightarrow> pod\<lparr>pContainers := (pContainers pod)[i := withCPULimit target (pContainers pod ! i)]\<rparr>
      | InitPtr i \<Rightarrow> pod\<lparr>pInitContainers := (pInitContainers pod)[i := withCPULimit target (pInitContainers pod ! i)]\<rparr>)"

definition birthTarget :: "float64 \<Rightarrow> int64 \<Rightarrow> int64 \<Rightarrow> int64" where
  "birthTarget multiplier quantumMilli request =
     quantizeMilli (int_of_float (fround (fmul (float_of_int request) multiplier))) quantumMilli"

fun seedLoop :: "(string, containerPtr) gomap \<Rightarrow> float64 \<Rightarrow> int64 \<Rightarrow> ResizableContainer list \<Rightarrow>
    Pod \<times> string list \<Rightarrow> Pod \<times> string list" where
  "seedLoop byName multiplier quantumMilli [] st = st"
| "seedLoop byName multiplier quantumMilli (rc # rcs) (pod, seeded) =
     (if rcRequestMilli rc \<le> 0 \<or> rcLimitMilli rc > 0
      then seedLoop byName multiplier quantumMilli rcs (pod, seeded)
      else let target = birthTarget multiplier quantumMilli (rcRequestMilli rc) in
        if target \<le> rcRequestMilli rc then seedLoop byName multiplier quantumMilli rcs (pod, seeded)
        else case mget byName (rcName rc) of
            None \<Rightarrow> seedLoop byName multiplier quantumMilli rcs (pod, seeded)
          | Some c \<Rightarrow> seedLoop byName multiplier quantumMilli rcs
                        (writeLimit c target pod, seeded @ [rcName rc]))"

definition clampMultiplier :: "float64 \<Rightarrow> float64 \<Rightarrow> float64" where
  "clampMultiplier multiplier maxMultiplier =
     (if fless (F 0) maxMultiplier \<and> fless maxMultiplier multiplier then maxMultiplier else multiplier)"

definition seedBirthLimits :: "Pod \<Rightarrow> ResizableContainer list \<Rightarrow> float64 \<Rightarrow> float64 \<Rightarrow> int64 \<Rightarrow>
    Pod \<times> string list" where
  "seedBirthLimits pod rcs multiplier maxMultiplier quantumMilli =
     (let multiplier = clampMultiplier multiplier maxMultiplier in
      if fle multiplier (F 1) then (pod, [])
      else seedLoop (containerPtrsByName pod) multiplier quantumMilli rcs (pod, []))"

record webhookConfig =
  wcEnabled :: bool
  wcDryRun :: bool
  wcMultiplier :: float64
  wcMaxMultiplier :: float64
  wcQuantumMilli :: int64
  wcSpec :: "HeadroomConfigSpec option"

text \<open>The zero value of the struct, with the fields the composite literals leave out.\<close>

definition zeroWebhookConfig :: webhookConfig where
  "zeroWebhookConfig = \<lparr>wcEnabled = False, wcDryRun = False, wcMultiplier = F 0, wcMaxMultiplier = F 0,
     wcQuantumMilli = 0, wcSpec = None\<rparr>"

definition webhookLoadConfig :: "webhookReader \<Rightarrow> webhookConfig \<times> bool" where
  "webhookLoadConfig reader =
     (case getSingleton reader of
        Inl (NotFound m) \<Rightarrow> (zeroWebhookConfig\<lparr>wcDryRun := True\<rparr>, True)
      | Inl e \<Rightarrow> (zeroWebhookConfig, False)
      | Inr hc \<Rightarrow>
          let s = hcSpec hc in
          (\<lparr>wcEnabled = (case whEnabled (specWebhook s) of Some b \<Rightarrow> b | None \<Rightarrow> True),
            wcDryRun = (case specDryRun s of Some b \<Rightarrow> b | None \<Rightarrow> True),
            wcMultiplier = AsApproximateFloat64 (whInitialMultiplier (specWebhook s)),
            wcMaxMultiplier = AsApproximateFloat64 (specMaxMultiplier s),
            wcQuantumMilli = MilliValue (specQuantum s),
            wcSpec = Some s\<rparr>, True))"

definition webhookNamespaceManaged :: "webhookReader \<Rightarrow> Pod \<Rightarrow> HeadroomConfigSpec \<Rightarrow> bool" where
  "webhookNamespaceManaged reader pod spec =
     (let name = (if pNamespace pod = ''''
                  then (case requestNamespace reader of Some n \<Rightarrow> n | None \<Rightarrow> '''') else pNamespace pod)
      in if name = '''' then False
         else case getNamespace reader name of
             Inl e \<Rightarrow> False
           | Inr ns \<Rightarrow> NamespaceManaged ns spec)"

text \<open>\<open>Default\<close> returns the error and the mutated pod; None is the panic of a nil
  configuration pointer.\<close>

definition Default :: "webhookReader \<Rightarrow> Poller option \<Rightarrow> Pod \<Rightarrow> (apiError option \<times> Pod) option" where
  "Default reader vpas pod =
     (let (cfg, ok) = webhookLoadConfig reader in
      if \<not> ok \<or> \<not> wcEnabled cfg \<or> wcDryRun cfg then Some (None, pod)
      else if OptedOut pod \<or> HasPodLevelResources pod then Some (None, pod)
      else case wcSpec cfg of
          None \<Rightarrow> None
        | Some spec \<Rightarrow>
            if \<not> webhookNamespaceManaged reader pod spec then Some (None, pod)
            else if OwnerExcluded pod (specExcludedOwners spec) then Some (None, pod)
            else let rcs = ResizableContainers pod in
              if HasRestartOnResize rcs then Some (None, pod)
              else if LimitManagingVPA pod rcs (ForNamespace vpas (pNamespace pod)) \<noteq> '''' then Some (None, pod)
              else Some (None, fst (seedBirthLimits pod rcs (wcMultiplier cfg) (wcMaxMultiplier cfg)
                                      (wcQuantumMilli cfg))))"

definition podName :: "Pod \<Rightarrow> string" where
  "podName pod = (if pName pod \<noteq> '''' then pName pod else pGenerateName pod @ ''<pending>'')"

section \<open>Pointers\<close>

fun deref :: "Pod \<Rightarrow> containerPtr \<Rightarrow> Container" where
  "deref pod (AppPtr i) = pContainers pod ! i"
| "deref pod (InitPtr i) = pInitContainers pod ! i"

fun validPtr :: "Pod \<Rightarrow> containerPtr \<Rightarrow> bool" where
  "validPtr pod (AppPtr i) \<longleftrightarrow> i < length (pContainers pod)"
| "validPtr pod (InitPtr i) \<longleftrightarrow> i < length (pInitContainers pod)"

text \<open>The pod without its containers, which no write touches.\<close>

definition podFrame :: "Pod \<Rightarrow> Pod" where
  "podFrame pod = pod\<lparr>pContainers := [], pInitContainers := []\<rparr>"

definition resizablePtrs :: "Pod \<Rightarrow> containerPtr list" where
  "resizablePtrs pod = map AppPtr [0..<length (pContainers pod)]
     @ map InitPtr (filter (\<lambda>i. isRestartableInitContainer (pInitContainers pod ! i))
                       [0..<length (pInitContainers pod)])"

definition containerNames :: "Pod \<Rightarrow> string list" where
  "containerNames pod = map cName (pContainers pod) @ map cName (pInitContainers pod)"

lemma writeLimit_frame [simp]:
  "podFrame (writeLimit p t pod) = podFrame pod"
  "length (pContainers (writeLimit p t pod)) = length (pContainers pod)"
  "length (pInitContainers (writeLimit p t pod)) = length (pInitContainers pod)"
  by (cases p; simp add: writeLimit_def podFrame_def)+

lemma deref_writeLimit [simp]:
  "validPtr pod p \<Longrightarrow> deref (writeLimit p t pod) p' = (if p' = p then withCPULimit t (deref pod p) else deref pod p')"
  by (cases p; cases p') (auto simp: writeLimit_def)

lemma pod_eqI:
  assumes "podFrame a = podFrame b" "length (pContainers a) = length (pContainers b)"
    "length (pInitContainers a) = length (pInitContainers b)" "\<And>p. validPtr b p \<Longrightarrow> deref a p = deref b p"
  shows "a = b"
proof -
  have "pContainers a = pContainers b"
    using assms(2) assms(4) [of "AppPtr _"] by (intro nth_equalityI) auto
  moreover have "pInitContainers a = pInitContainers b"
    using assms(3) assms(4) [of "InitPtr _"] by (intro nth_equalityI) auto
  ultimately show ?thesis using assms(1) by (cases a; cases b) (simp add: podFrame_def)
qed

lemma map_nth_upt: "map (\<lambda>i. f (xs ! i)) [0..<length xs] = map f xs"
  by (rule nth_equalityI) simp_all

lemma filter_nth_upt: "map (\<lambda>i. f (xs ! i)) (filter (\<lambda>i. P (xs ! i)) [0..<length xs]) = map f (filter P xs)"
proof -
  have "map f (filter P xs) = map f (filter P (map ((!) xs) [0..<length xs]))" by (simp add: map_nth)
  also have "\<dots> = map (\<lambda>i. f (xs ! i)) (filter (\<lambda>i. P (xs ! i)) [0..<length xs])"
    by (simp only: filter_map map_map comp_def)
  finally show ?thesis by simp
qed

lemma ResizableContainers_ptrs:
  "ResizableContainers pod = map (\<lambda>p. toResizable (deref pod p)) (resizablePtrs pod)"
  by (simp add: ResizableContainers_def resizablePtrs_def map_nth_upt filter_nth_upt comp_def)

lemma resizablePtrs_distinct: "distinct (resizablePtrs pod)"
  by (auto simp: resizablePtrs_def distinct_map inj_on_def)

lemma resizablePtrs_valid: "p \<in> set (resizablePtrs pod) \<Longrightarrow> validPtr pod p"
  by (auto simp: resizablePtrs_def)

lemma mput_fold_key:
  assumes "distinct (map f is)" "i \<in> set is"
  shows "mget (fold (\<lambda>i m. mput (f i) (g i) m) is m) (f i) = Some (g i)"
  using assms by (induction "is" arbitrary: m rule: rev_induct) (auto simp: gomap_simps image_iff)

lemma mput_fold_other:
  "k \<notin> f ` set is \<Longrightarrow> mget (fold (\<lambda>i m. mput (f i) (g i) m) is m) k = mget m k"
  by (induction "is" arbitrary: m) (auto simp: gomap_simps)

lemma containerPtrs_lookup:
  assumes "distinct (containerNames pod)" "validPtr pod p"
  shows "mget (containerPtrsByName pod) (cName (deref pod p)) = Some p"
proof -
  let ?a = "\<lambda>i. cName (pContainers pod ! i)" and ?b = "\<lambda>i. cName (pInitContainers pod ! i)"
  have a: "map ?a [0..<length (pContainers pod)] = map cName (pContainers pod)"
    and b: "map ?b [0..<length (pInitContainers pod)] = map cName (pInitContainers pod)"
    by (rule map_nth_upt)+
  have "distinct (map ?a [0..<length (pContainers pod)])" "distinct (map ?b [0..<length (pInitContainers pod)])"
    unfolding a b using assms(1) by (simp_all add: containerNames_def)
  note look = this [THEN mput_fold_key]
  show ?thesis
  proof (cases p)
    case (AppPtr i)
    have "?a i \<notin> ?b ` set [0..<length (pInitContainers pod)]"
      using assms AppPtr by (auto simp: containerNames_def) (metis disjoint_iff image_eqI nth_mem)
    then show ?thesis using look(1) [of i AppPtr "[]"] assms(2) AppPtr
      by (simp add: containerPtrsByName_def mput_fold_other)
  next
    case (InitPtr i)
    then show ?thesis using look(2) [of i InitPtr] assms(2) by (simp add: containerPtrsByName_def)
  qed
qed

section \<open>Seeding, container by container\<close>

text \<open>The birth limit of one container.\<close>

definition seedOf :: "float64 \<Rightarrow> int64 \<Rightarrow> Container \<Rightarrow> Container" where
  "seedOf multiplier quantumMilli c =
     (let rc = toResizable c; target = birthTarget multiplier quantumMilli (rcRequestMilli rc) in
      if rcRequestMilli rc \<le> 0 \<or> rcLimitMilli rc > 0 \<or> target \<le> rcRequestMilli rc then c
      else withCPULimit target c)"

definition seedPod :: "float64 \<Rightarrow> int64 \<Rightarrow> Pod \<Rightarrow> Pod" where
  "seedPod multiplier quantumMilli pod =
     pod\<lparr>pContainers := map (seedOf multiplier quantumMilli) (pContainers pod),
         pInitContainers := map (\<lambda>c. if isRestartableInitContainer c then seedOf multiplier quantumMilli c else c)
                              (pInitContainers pod)\<rparr>"

lemma withCPULimit_simps [simp]:
  "cName (withCPULimit t c) = cName c"
  "cRestartPolicy (withCPULimit t c) = cRestartPolicy c"
  "cResizePolicy (withCPULimit t c) = cResizePolicy c"
  "Requests (cResources (withCPULimit t c)) = Requests (cResources c)"
  "Cpu (Limits (cResources (withCPULimit t c))) = NewMilliQuantity t"
  by (simp_all add: withCPULimit_def Cpu_def resourceNamed_def entries_def gomap_simps)

lemma toResizable_withCPULimit [simp]:
  "toResizable (withCPULimit t c) = (toResizable c)\<lparr>rcLimitMilli := t\<rparr>"
  by (simp add: toResizable_def cpuRestartOnResize_def)

lemma seedLoop_deref:
  assumes "distinct ps" "\<forall>p \<in> set ps. validPtr pod p \<and> mget byName (cName (deref pod p)) = Some p"
    and "pod' = fst (seedLoop byName m q (map (\<lambda>p. toResizable (deref pod p)) ps) (pod, sd))"
  shows "podFrame pod' = podFrame pod \<and> length (pContainers pod') = length (pContainers pod)
    \<and> length (pInitContainers pod') = length (pInitContainers pod)
    \<and> (\<forall>p. deref pod' p = (if p \<in> set ps then seedOf m q (deref pod p) else deref pod p))"
  using assms
proof (induction ps arbitrary: pod sd)
  case Nil
  then show ?case by simp
next
  case (Cons p ps)
  define c rc t where "c = deref pod p" and "rc = toResizable c" and "t = birthTarget m q (rcRequestMilli rc)"
  define pod1 where "pod1 = (if rcRequestMilli rc \<le> 0 \<or> rcLimitMilli rc > 0 \<or> t \<le> rcRequestMilli rc then pod
    else writeLimit p t pod)"
  have v: "validPtr pod p" and n: "mget byName (cName c) = Some p" using Cons.prems(2) by (auto simp: c_def)
  have d1: "deref pod1 p' = (if p' = p then seedOf m q c else deref pod p')" for p'
    using v by (auto simp: pod1_def seedOf_def c_def rc_def t_def Let_def)
  have f1: "podFrame pod1 = podFrame pod \<and> length (pContainers pod1) = length (pContainers pod)
      \<and> length (pInitContainers pod1) = length (pInitContainers pod)"
    by (simp add: pod1_def)
  have v1: "validPtr pod1 p' \<longleftrightarrow> validPtr pod p'" for p' using f1 by (cases p') auto
  have r: "map (\<lambda>p. toResizable (deref pod p)) ps = map (\<lambda>p. toResizable (deref pod1 p)) ps"
    using Cons.prems(1) d1 by auto
  have nm: "rcName rc = cName c" by (simp add: rc_def toResizable_def)
  define sd1 where "sd1 = (if rcRequestMilli rc \<le> 0 \<or> rcLimitMilli rc > 0 \<or> t \<le> rcRequestMilli rc then sd
    else sd @ [rcName rc])"
  have "seedLoop byName m q (map (\<lambda>p. toResizable (deref pod p)) (p # ps)) (pod, sd)
      = seedLoop byName m q (map (\<lambda>p. toResizable (deref pod p)) ps) (pod1, sd1)"
    using n nm by (simp add: pod1_def sd1_def c_def [symmetric] rc_def [symmetric] t_def [symmetric] Let_def)
  then have "pod' = fst (seedLoop byName m q (map (\<lambda>p. toResizable (deref pod1 p)) ps) (pod1, sd1))"
    using Cons.prems(3) r by simp
  moreover have "\<forall>p \<in> set ps. validPtr pod1 p \<and> mget byName (cName (deref pod1 p)) = Some p"
    using Cons.prems(1,2) d1 v1 by auto
  ultimately have "podFrame pod' = podFrame pod1 \<and> length (pContainers pod') = length (pContainers pod1)
    \<and> length (pInitContainers pod') = length (pInitContainers pod1)
    \<and> (\<forall>p. deref pod' p = (if p \<in> set ps then seedOf m q (deref pod1 p) else deref pod1 p))"
    using Cons.IH [of pod1 sd1] Cons.prems(1) by simp
  then show ?case using f1 d1 Cons.prems(1) by (auto simp: c_def)
qed

lemma deref_seedPod:
  assumes "validPtr pod p"
  shows "deref (seedPod m q pod) p = (if p \<in> set (resizablePtrs pod) then seedOf m q (deref pod p) else deref pod p)"
  using assms by (cases p) (auto simp: seedPod_def resizablePtrs_def)

text \<open>With distinct container names, the loop over names and pointers seeds each
  resizable container by itself.\<close>

lemma seedLoop_seedPod:
  assumes "distinct (containerNames pod)"
  shows "fst (seedLoop (containerPtrsByName pod) m q (ResizableContainers pod) (pod, sd)) = seedPod m q pod"
    (is "?pod' = _")
proof (rule pod_eqI)
  note loop = seedLoop_deref [OF resizablePtrs_distinct, where pod' = ?pod' and pod = pod and sd = sd]
  have l: "podFrame ?pod' = podFrame pod \<and> length (pContainers ?pod') = length (pContainers pod)
    \<and> length (pInitContainers ?pod') = length (pInitContainers pod)
    \<and> (\<forall>p. deref ?pod' p = (if p \<in> set (resizablePtrs pod) then seedOf m q (deref pod p) else deref pod p))"
    using containerPtrs_lookup [OF assms] resizablePtrs_valid
    by (intro loop [of pod "containerPtrsByName pod" m q]) (auto simp: ResizableContainers_ptrs)
  show "podFrame ?pod' = podFrame (seedPod m q pod)" using l by (simp add: podFrame_def seedPod_def)
  show "length (pContainers ?pod') = length (pContainers (seedPod m q pod))"
    "length (pInitContainers ?pod') = length (pInitContainers (seedPod m q pod))"
    using l by (simp_all add: seedPod_def)
  show "deref ?pod' p = deref (seedPod m q pod) p" if "validPtr (seedPod m q pod) p" for p
  proof -
    have "validPtr pod p" using that by (cases p) (auto simp: seedPod_def)
    then show ?thesis using l deref_seedPod by simp
  qed
qed

section \<open>What the handler does\<close>

text \<open>The configuration that lets the webhook act on a pod, when every gate passes.\<close>

definition seedingConfig :: "webhookReader \<Rightarrow> Poller option \<Rightarrow> Pod \<Rightarrow> HeadroomConfigSpec option" where
  "seedingConfig reader vpas pod =
     (case getSingleton reader of
        Inl e \<Rightarrow> None
      | Inr hc \<Rightarrow>
          if whEnabled (specWebhook (hcSpec hc)) \<noteq> Some False \<and> specDryRun (hcSpec hc) = Some False
            \<and> \<not> OptedOut pod \<and> \<not> HasPodLevelResources pod
            \<and> webhookNamespaceManaged reader pod (hcSpec hc)
            \<and> \<not> OwnerExcluded pod (specExcludedOwners (hcSpec hc))
            \<and> \<not> list_ex rcRestartOnResize (ResizableContainers pod)
            \<and> LimitManagingVPA pod (ResizableContainers pod) (ForNamespace vpas (pNamespace pod)) = ''''
          then Some (hcSpec hc) else None)"

definition birthMultiplier :: "HeadroomConfigSpec \<Rightarrow> float64" where
  "birthMultiplier spec = clampMultiplier (AsApproximateFloat64 (whInitialMultiplier (specWebhook spec)))
     (AsApproximateFloat64 (specMaxMultiplier spec))"

lemma Default_cases:
  "Default reader vpas pod = Some (None, case seedingConfig reader vpas pod of
      None \<Rightarrow> pod
    | Some spec \<Rightarrow> fst (seedBirthLimits pod (ResizableContainers pod)
        (AsApproximateFloat64 (whInitialMultiplier (specWebhook spec)))
        (AsApproximateFloat64 (specMaxMultiplier spec)) (MilliValue (specQuantum spec))))"
  by (auto simp: Default_def seedingConfig_def webhookLoadConfig_def zeroWebhookConfig_def Let_def HasRestartOnResize_def
      split: sum.splits apiError.splits option.splits)

lemma seedBirthLimits_seedPod:
  assumes "distinct (containerNames pod)"
  shows "fst (seedBirthLimits pod (ResizableContainers pod) a b q) =
    (if fle (clampMultiplier a b) (F 1) then pod else seedPod (clampMultiplier a b) q pod)"
  by (simp add: seedBirthLimits_def Let_def seedLoop_seedPod [OF assms])

lemma Default_seedPod:
  assumes "distinct (containerNames pod)"
  shows "Default reader vpas pod = Some (None, case seedingConfig reader vpas pod of
      None \<Rightarrow> pod
    | Some spec \<Rightarrow> if fle (birthMultiplier spec) (F 1) then pod
        else seedPod (birthMultiplier spec) (MilliValue (specQuantum spec)) pod)"
  by (simp add: Default_cases birthMultiplier_def seedBirthLimits_seedPod [OF assms] split: option.split)

subsection \<open>Seeding again changes nothing\<close>

lemma seedOf_simps [simp]:
  "cName (seedOf m q c) = cName c"
  "isRestartableInitContainer (seedOf m q c) = isRestartableInitContainer c"
  "cpuRestartOnResize (seedOf m q c) = cpuRestartOnResize c"
  by (simp_all add: seedOf_def Let_def isRestartableInitContainer_def cpuRestartOnResize_def)

lemma seedOf_idem [simp]: "seedOf m q (seedOf m q c) = seedOf m q c"
  by (simp add: seedOf_def Let_def)

lemma seedPod_simps [simp]:
  "containerNames (seedPod m q pod) = containerNames pod"
  "pNamespace (seedPod m q pod) = pNamespace pod"
  "OptedOut (seedPod m q pod) = OptedOut pod"
  "HasPodLevelResources (seedPod m q pod) = HasPodLevelResources pod"
  "OwnerExcluded (seedPod m q pod) es = OwnerExcluded pod es"
  "webhookNamespaceManaged reader (seedPod m q pod) spec = webhookNamespaceManaged reader pod spec"
  "podUnderTarget (seedPod m q pod) k n = podUnderTarget pod k n"
  by (simp_all add: seedPod_def containerNames_def OptedOut_def HasPodLevelResources_def OwnerExcluded_def
      webhookNamespaceManaged_def podUnderTarget_def GetControllerOf_def comp_def if_distrib cong: if_cong)

lemma seedPod_idem: "seedPod m q (seedPod m q pod) = seedPod m q pod"
  by (simp add: seedPod_def comp_def if_distrib cong: if_cong)

lemma seedPod_rcs:
  "map rcName (ResizableContainers (seedPod m q pod)) = map rcName (ResizableContainers pod)"
  "map rcRestartOnResize (ResizableContainers (seedPod m q pod)) = map rcRestartOnResize (ResizableContainers pod)"
proof -
  have "filter isRestartableInitContainer
      (map (\<lambda>c. if isRestartableInitContainer c then seedOf m q c else c) cs)
      = map (seedOf m q) (filter isRestartableInitContainer cs)" for cs
    by (induction cs) simp_all
  then show "map rcName (ResizableContainers (seedPod m q pod)) = map rcName (ResizableContainers pod)"
    "map rcRestartOnResize (ResizableContainers (seedPod m q pod)) = map rcRestartOnResize (ResizableContainers pod)"
    by (simp_all add: ResizableContainers_def seedPod_def toResizable_def comp_def)
qed

lemma list_ex_map_id: "list_ex f xs = list_ex (\<lambda>b. b) (map f xs)"
  by (induction xs) auto

lemma seedingConfig_seedPod [simp]:
  "seedingConfig reader vpas (seedPod m q pod) = seedingConfig reader vpas pod"
proof -
  have "LimitManagingVPA (seedPod m q pod) (ResizableContainers (seedPod m q pod)) vs
      = LimitManagingVPA pod (ResizableContainers pod) vs" for vs
    by (intro LimitManagingVPA_names) (simp_all add: seedPod_rcs)
  moreover have "list_ex rcRestartOnResize (ResizableContainers (seedPod m q pod))
      = list_ex rcRestartOnResize (ResizableContainers pod)"
    by (simp only: list_ex_map_id [of rcRestartOnResize] seedPod_rcs)
  ultimately show ?thesis by (simp add: seedingConfig_def cong: sum.case_cong)
qed

subsection \<open>The size of a birth limit\<close>

lemma quantizeMilli_le:
  assumes "0 \<le> v" "v \<le> 2 ^ 60" "0 \<le> q" "q \<le> 2 ^ 60"
  shows "2 * quantizeMilli v q \<le> 2 * v + q \<and> (0 < q \<longrightarrow> q dvd quantizeMilli v q)"
proof (cases "q = 0")
  case False
  then have q: "0 < q" using assms by simp
  define w where "w = (v + q div 2) div q"
  have h: "0 \<le> q div 2" "2 * (q div 2) \<le> q" using q by simp_all
  have "w * q + (v + q div 2) mod q = v + q div 2" unfolding w_def by (rule div_mult_mod_eq)
  moreover have "0 \<le> (v + q div 2) mod q" using q by simp
  ultimately have w: "w * q \<le> v + q div 2" by linarith
  have w0: "0 \<le> w" using q assms h by (simp add: w_def pos_imp_zdiv_nonneg_iff)
  have "w * q \<le> 2 ^ 61" using w h assms by simp
  moreover have "0 \<le> w * q" using w0 q by simp
  ultimately have "quantizeMilli v q = w * q"
    using q assms h by (simp add: quantizeMilli_def int64_simps in64_def w_def)
  then show ?thesis using w h q by simp
qed (use assms in \<open>simp add: quantizeMilli_def\<close>)

lemma birthTarget_le:
  assumes "0 < req" "req \<le> 2 ^ 40" "0 \<le> m" "m \<le> 1000" "0 \<le> q" "q \<le> 2 ^ 40"
  shows "2 * birthTarget (F m) q req \<le> 2 * \<lceil>of_int req * m\<rceil> + q \<and> (0 < q \<longrightarrow> q dvd birthTarget (F m) q req)"
proof -
  define x where "x = of_int req * m"
  have "x \<le> of_int (2 ^ 40) * 1000"
    unfolding x_def using assms by (intro mult_mono) (auto simp del: of_int_power of_int_numeral)
  then have x: "0 \<le> x" "x \<le> of_int (2 ^ 50)" using assms by (simp_all add: x_def)
  have c: "0 \<le> \<lceil>x\<rceil>" "\<lceil>x\<rceil> \<le> 2 ^ 50" using x by (linarith, simp only: ceiling_le_iff)
  have "rnd64 x \<le> of_int \<lceil>x\<rceil>" using c by (intro b64.le_grid repr64_int) simp_all
  then have r: "round_away (rnd64 x) \<le> \<lceil>x\<rceil>"
    using round_away_mono [of "rnd64 x" "of_int \<lceil>x\<rceil>"] by simp
  have r0: "0 \<le> round_away (rnd64 x)"
    using round_away_mono [of 0 "rnd64 x"] b64.nonneg [OF x(1)] by (simp add: round_away_def)
  have "fmul (float_of_int req) (F m) = F (rnd64 x)"
    using assms x fnorm_small [of x] by (simp add: float_of_int_exact x_def)
  moreover have r2: "round_away (rnd64 x) \<le> 2 ^ 50" using r c(2) by (rule order_trans)
  then have "in64 (round_away (rnd64 x))" using r0 by (simp add: in64_def)
  ultimately have "birthTarget (F m) q req = quantizeMilli (round_away (rnd64 x)) q"
    by (simp add: birthTarget_def)
  moreover have "2 * quantizeMilli (round_away (rnd64 x)) q \<le> 2 * round_away (rnd64 x) + q
      \<and> (0 < q \<longrightarrow> q dvd quantizeMilli (round_away (rnd64 x)) q)"
    using r2 r0 assms by (intro quantizeMilli_le) simp_all
  ultimately show ?thesis using r by (simp add: x_def)
qed

section \<open>Properties\<close>

text \<open>A container without its CPU limit; the pod with all of them removed.\<close>

definition stripLimit :: "Container \<Rightarrow> Container" where
  "stripLimit c = c\<lparr>cResources := (cResources c)\<lparr>Limits := Some (mdel ResourceCPU (entries (Limits (cResources c))))\<rparr>\<rparr>"

definition withoutCPULimits :: "Pod \<Rightarrow> Pod" where
  "withoutCPULimits pod = pod\<lparr>pContainers := map stripLimit (pContainers pod),
     pInitContainers := map stripLimit (pInitContainers pod)\<rparr>"

lemma delete_update_same: "mdel k (mput k v m) = mdel k m"
  by (induction m) (auto simp: AList.delete_eq)

lemma stripLimit_withCPULimit [simp]: "stripLimit (withCPULimit t c) = stripLimit c"
  by (simp add: stripLimit_def withCPULimit_def entries_def delete_update_same)

lemma withoutCPULimits_writeLimit [simp]: "withoutCPULimits (writeLimit p t pod) = withoutCPULimits pod"
proof -
  have "map stripLimit (xs[i := withCPULimit t (xs ! i)]) = map stripLimit xs" for i and xs :: "Container list"
    by (cases "i < length xs") (simp_all add: map_update list_update_same_conv list_update_beyond)
  then show ?thesis by (cases p) (simp_all add: writeLimit_def withoutCPULimits_def)
qed

lemma withoutCPULimits_seedLoop:
  "withoutCPULimits (fst (seedLoop byName m q rcs st)) = withoutCPULimits (fst st)"
  by (induction byName m q rcs st rule: seedLoop.induct) (auto simp: Let_def split: option.splits)

text \<open>C28. The webhook never returns an error and never panics, whatever the API reads
  return, and the only thing it can change on a pod is the CPU limit of a container.\<close>

theorem webhook_fails_open:
  "\<exists>pod'. Default reader vpas pod = Some (None, pod') \<and> withoutCPULimits pod' = withoutCPULimits pod"
  by (auto simp: Default_cases seedBirthLimits_def Let_def withoutCPULimits_seedLoop split: option.splits)

text \<open>C12. For a pod with distinct container names the handler has exactly this effect:
  nothing unless the configuration is readable, enabled and enforcing and every gate
  passes; otherwise each app or sidecar container with a request and without a limit gets
  its birth limit, and the loop through names and pointers writes no other container.\<close>

theorem webhook_seeds_exactly:
  assumes "distinct (containerNames pod)"
  shows "Default reader vpas pod = Some (None, case seedingConfig reader vpas pod of
      None \<Rightarrow> pod
    | Some spec \<Rightarrow> if fle (birthMultiplier spec) (F 1) then pod
        else seedPod (birthMultiplier spec) (MilliValue (specQuantum spec)) pod)"
  by (rule Default_seedPod [OF assms])

text \<open>C29. A limit the webhook writes is above the container's request, on a container
  that had a request and no limit, on the quantum's grid, and at most half a quantum above
  request times either multiplier (up to the next milli-core).\<close>

theorem birth_limit_bounds:
  assumes "distinct (containerNames pod)" "0 \<le> q" "q \<le> 2 ^ 40" "0 \<le> a" "a \<le> 1000" "0 \<le> b" "b \<le> 1000"
    and "\<forall>rc \<in> set (ResizableContainers pod). rcRequestMilli rc \<le> 2 ^ 40"
    and "pod' = fst (seedBirthLimits pod (ResizableContainers pod) (F a) (F b) q)"
  shows "list_all2 (\<lambda>c c'. c' = c \<or>
      (let req = rcRequestMilli (toResizable c); lim = rcLimitMilli (toResizable c') in
       0 < req \<and> rcLimitMilli (toResizable c) \<le> 0 \<and> c' = withCPULimit lim c \<and> req < lim
       \<and> 2 * lim \<le> 2 * \<lceil>of_int req * a\<rceil> + q \<and> (0 < b \<longrightarrow> 2 * lim \<le> 2 * \<lceil>of_int req * b\<rceil> + q)
       \<and> (0 < q \<longrightarrow> q dvd lim)))
     (pContainers pod @ pInitContainers pod) (pContainers pod' @ pInitContainers pod')"
    (is "list_all2 ?R _ _")
proof -
  define m where "m = (if 0 < b \<and> b < a then b else a)"
  have cl: "clampMultiplier (F a) (F b) = F m" and m: "0 \<le> m" "m \<le> a" "0 < b \<longrightarrow> m \<le> b"
    using assms(4,6) by (auto simp: clampMultiplier_def m_def)
  have R: "?R c (seedOf (F m) q c)" if "rcRequestMilli (toResizable c) \<le> 2 ^ 40" for c
  proof -
    define req where "req = rcRequestMilli (toResizable c)"
    have "2 * birthTarget (F m) q req \<le> 2 * \<lceil>of_int req * m\<rceil> + q \<and> (0 < q \<longrightarrow> q dvd birthTarget (F m) q req)"
      if "0 < req"
      using that m assms(2,3,5) \<open>rcRequestMilli (toResizable c) \<le> 2 ^ 40\<close>
      by (intro birthTarget_le) (simp_all add: req_def)
    moreover have "\<lceil>of_int req * m\<rceil> \<le> \<lceil>of_int req * a\<rceil>" "0 < b \<longrightarrow> \<lceil>of_int req * m\<rceil> \<le> \<lceil>of_int req * b\<rceil>"
      if "0 < req" using that m by (auto intro!: ceiling_mono mult_left_mono)
    ultimately show ?thesis unfolding seedOf_def Let_def req_def by (auto simp: not_le not_less)
  qed
  have rcs: "rcRequestMilli (toResizable c) \<le> 2 ^ 40"
    if "c \<in> set (pContainers pod) \<or> c \<in> set (pInitContainers pod) \<and> isRestartableInitContainer c" for c
    using that assms(8) by (auto simp: ResizableContainers_def)
  have "pod' = (if fle (F m) (F 1) then pod else seedPod (F m) q pod)"
    using assms(9) by (simp add: seedBirthLimits_seedPod [OF assms(1)] cl)
  moreover have "list_all2 ?R xs xs" for xs by (simp only: list_all2_same) simp
  moreover have "list_all2 ?R (pContainers pod) (map (seedOf (F m) q) (pContainers pod))"
    by (simp only: list_all2_map2 list_all2_same) (intro ballI R rcs, simp)
  moreover have "list_all2 ?R (pInitContainers pod)
      (map (\<lambda>c. if isRestartableInitContainer c then seedOf (F m) q c else c) (pInitContainers pod))"
    unfolding list_all2_map2 list_all2_same
  proof
    fix c assume "c \<in> set (pInitContainers pod)"
    then show "?R c (if isRestartableInitContainer c then seedOf (F m) q c else c)"
      using R [of c] rcs [of c] by (cases "isRestartableInitContainer c") (simp_all only: if_True if_False simp_thms)
  qed
  moreover have "pContainers (seedPod (F m) q pod) = map (seedOf (F m) q) (pContainers pod)"
    "pInitContainers (seedPod (F m) q pod) =
      map (\<lambda>c. if isRestartableInitContainer c then seedOf (F m) q c else c) (pInitContainers pod)"
    by (simp_all add: seedPod_def)
  ultimately show ?thesis
    by (cases "fle (F m) (F 1)") (simp_all only: if_True if_False list_all2_appendI)
qed

text \<open>C30. Admission may run a mutating webhook again on its own output: the second run
  changes nothing.\<close>

theorem webhook_idempotent:
  assumes "distinct (containerNames pod)" "Default reader vpas pod = Some (e, pod')"
  shows "Default reader vpas pod' = Some (e, pod')"
proof (cases "seedingConfig reader vpas pod")
  case None
  then have "pod' = pod" "e = None" using assms(2) by (auto simp: Default_seedPod [OF assms(1)])
  then show ?thesis using assms(2) by simp
next
  case (Some spec)
  let ?m = "birthMultiplier spec" and ?q = "MilliValue (specQuantum spec)"
  have "pod' = (if fle ?m (F 1) then pod else seedPod ?m ?q pod)" "e = None"
    using assms(2) Some by (auto simp: Default_seedPod [OF assms(1)])
  then show ?thesis
    using Some assms(1) by (auto simp: Default_seedPod seedPod_idem)
qed

subsection \<open>A concrete admission\<close>

definition sampleWebhookReader :: webhookReader where
  "sampleWebhookReader = \<lparr>getSingleton = Inr sampleConfig, getNamespace = (\<lambda>n. Inr sampleNamespace),
     requestNamespace = None\<rparr>"

lemma samplePod_names: "distinct (containerNames samplePod)"
  by (simp add: containerNames_def sample_pod_defs)

lemma sampleMultiplier: "birthMultiplier sampleSpec = F 2"
  by (simp add: birthMultiplier_def clampMultiplier_def AsApproximateFloat64_def sampleSpec_def float_of_int_exact)

lemma samplePod_seeding: "seedingConfig sampleWebhookReader None samplePod = Some sampleSpec"
  by (simp add: seedingConfig_def sampleWebhookReader_def sampleConfig_def sampleSpec_def sampleNamespace_def
      sample_pod_defs OptedOut_def strGet_def HasPodLevelResources_def webhookNamespaceManaged_def NamespaceManaged_def
      OwnerExcluded_def ResizableContainers_def toResizable_def isRestartableInitContainer_def cpuRestartOnResize_def
      ForNamespace_def ModeUnmanaged_def)

lemma birthTarget_sample: "birthTarget (F 2) 10 200 = 400" "birthTarget (F 2) 10 100 = 200"
  by (simp_all add: birthTarget_def quantizeMilli_def int64_eval float_eval Let_def)

lemma toResizable_plain:
  "toResizable (plainContainer n m) = \<lparr>rcName = n, rcRequestMilli = m, rcLimitMilli = 0, rcRestartOnResize = False\<rparr>"
  by (simp add: toResizable_def plainContainer_def cpuList_def Cpu_def resourceNamed_def entries_def cpuRestartOnResize_def)

lemma seedPod_sample:
  "map (rcLimitMilli \<circ> toResizable) (pContainers (seedPod (F 2) 10 samplePod)) = [400]"
  "seedPod (F 2) 10 samplePod \<noteq> samplePod"
proof -
  show "map (rcLimitMilli \<circ> toResizable) (pContainers (seedPod (F 2) 10 samplePod)) = [400]"
    by (simp add: seedPod_def samplePod_def seedOf_def toResizable_plain birthTarget_sample Let_def)
  moreover have "map (rcLimitMilli \<circ> toResizable) (pContainers samplePod) = [0]"
    by (simp add: samplePod_def toResizable_plain)
  ultimately show "seedPod (F 2) 10 samplePod \<noteq> samplePod" by force
qed

lemma Default_sample: "Default sampleWebhookReader None samplePod = Some (None, seedPod (F 2) 10 samplePod)"
  by (simp add: Default_seedPod [OF samplePod_names] samplePod_seeding sampleMultiplier)
    (simp add: sampleSpec_def)

theorem webhook_seeds_exactly_witness:
  "\<exists>pod'. Default sampleWebhookReader None samplePod = Some (None, pod')
    \<and> map (rcLimitMilli \<circ> toResizable) (pContainers pod') = [400]"
  using webhook_seeds_exactly [OF samplePod_names, of sampleWebhookReader None] seedPod_sample(1)
  by (simp add: samplePod_seeding sampleMultiplier) (simp add: sampleSpec_def)

theorem webhook_idempotent_witness:
  "Default sampleWebhookReader None (seedPod (F 2) 10 samplePod) = Some (None, seedPod (F 2) 10 samplePod)
    \<and> seedPod (F 2) 10 samplePod \<noteq> samplePod"
  using webhook_idempotent [OF samplePod_names Default_sample] seedPod_sample(2) by simp

theorem birth_limit_bounds_witness:
  "map (rcLimitMilli \<circ> toResizable)
     (pContainers (fst (seedBirthLimits samplePod (ResizableContainers samplePod) (F 2) (F 10) 10))) = [400]
   \<and> length (pInitContainers (fst (seedBirthLimits samplePod (ResizableContainers samplePod) (F 2) (F 10) 10))) = 2"
proof -
  have rcs: "\<forall>rc \<in> set (ResizableContainers samplePod). rcRequestMilli rc \<le> 2 ^ 40"
    by (simp add: ResizableContainers_def samplePod_def toResizable_plain isRestartableInitContainer_def
        plainContainer_def toResizable_def cpuList_def Cpu_def resourceNamed_def entries_def)
  have "fst (seedBirthLimits samplePod (ResizableContainers samplePod) (F 2) (F 10) 10) = seedPod (F 2) 10 samplePod"
    by (simp add: seedBirthLimits_seedPod [OF samplePod_names] clampMultiplier_def)
  moreover have "length (pContainers samplePod @ pInitContainers samplePod) = 3" by (simp add: samplePod_def)
  ultimately show ?thesis
    using birth_limit_bounds [OF samplePod_names _ _ _ _ _ _ rcs refl, of 10 2 10] seedPod_sample(1)
    by (auto dest!: list_all2_lengthD)
qed

end
