(* ===== verification/RateLimiter.thy ===== *)
theory RateLimiter
  imports Float64
begin

text \<open>
  The token bucket behind the per-node patch budget,
  \<open>vendor/golang.org/x/time/rate/rate.go\<close>, with the operations the node reconciler uses:
  \<open>NewLimiter\<close>, \<open>Allow\<close>, \<open>SetLimit\<close> and \<open>SetBurst\<close>. A \<open>time.Time\<close> is a number of nanoseconds
  since the zero time, a \<open>time.Duration\<close> a 64-bit number of nanoseconds. The locale
  \<open>token_bucket\<close> is what the reconciler relies on: how many calls a bucket can admit.
\<close>

section \<open>Time\<close>

type_synonym Time = int
type_synonym Duration = int64

definition Second :: Duration where
  "Second = 1000000000"

text \<open>\<open>Time.Sub\<close> saturates at the largest and the smallest duration.\<close>

definition timeSub :: "Time \<Rightarrow> Time \<Rightarrow> Duration" where
  "timeSub t u = max (- (2 ^ 63)) (min MaxInt64 (t - u))"

definition Seconds :: "Duration \<Rightarrow> float64" where
  "Seconds d = fadd (float_of_int (div64 d Second)) (fdiv (float_of_int (d smod Second)) (F 1000000000))"

section \<open>The limiter\<close>

record Limiter =
  limLimit :: float64
  limBurst :: int
  limTokens :: float64
  limLast :: Time
  limLastEvent :: Time

definition InfLimit :: float64 where
  "InfLimit = F (2 ^ 1024 - 2 ^ 971)"

definition NewLimiter :: "float64 \<Rightarrow> int \<Rightarrow> Limiter" where
  "NewLimiter r b = \<lparr>limLimit = r, limBurst = b, limTokens = float_of_int b, limLast = 0, limLastEvent = 0\<rparr>"

definition durationFromTokens :: "float64 \<Rightarrow> float64 \<Rightarrow> Duration" where
  "durationFromTokens limit tokens =
     (if fle limit (F 0) then MaxInt64
      else let duration = fmul (fdiv tokens limit) (F 1000000000) in
           if fless (float_of_int MaxInt64) duration then MaxInt64 else int_of_float duration)"

definition tokensFromDuration :: "float64 \<Rightarrow> Duration \<Rightarrow> float64" where
  "tokensFromDuration limit d = (if fle limit (F 0) then F 0 else fmul (Seconds d) limit)"

definition advance :: "Limiter \<Rightarrow> Time \<Rightarrow> float64" where
  "advance bucket t =
     (let last = (if t < limLast bucket then t else limLast bucket);
          elapsed = timeSub t last;
          delta = tokensFromDuration (limLimit bucket) elapsed;
          tokens = fadd (limTokens bucket) delta;
          burst = float_of_int (limBurst bucket)
      in if fless burst tokens then burst else tokens)"

record Reservation =
  resOk :: bool
  resTokens :: int
  resTimeToAct :: Time
  resLimit :: float64

definition reserveN :: "Limiter \<Rightarrow> Time \<Rightarrow> int \<Rightarrow> Duration \<Rightarrow> Reservation \<times> Limiter" where
  "reserveN bucket t n maxFutureReserve =
     (if feq (limLimit bucket) InfLimit
      then (\<lparr>resOk = True, resTokens = n, resTimeToAct = t, resLimit = F 0\<rparr>, bucket)
      else
        let tokens = fsub (advance bucket t) (float_of_int n);
            waitDuration = (if fless tokens (F 0) then durationFromTokens (limLimit bucket) (fneg tokens) else 0);
            ok = (n \<le> limBurst bucket \<and> waitDuration \<le> maxFutureReserve)
        in if ok
           then (\<lparr>resOk = True, resTokens = n, resTimeToAct = t + waitDuration, resLimit = limLimit bucket\<rparr>,
                 bucket\<lparr>limLast := t, limTokens := tokens, limLastEvent := t + waitDuration\<rparr>)
           else (\<lparr>resOk = False, resTokens = 0, resTimeToAct = 0, resLimit = limLimit bucket\<rparr>, bucket))"

definition AllowN :: "Limiter \<Rightarrow> Time \<Rightarrow> int \<Rightarrow> bool \<times> Limiter" where
  "AllowN bucket t n = (let (r, bucket') = reserveN bucket t n 0 in (resOk r, bucket'))"

definition SetLimitAt :: "Limiter \<Rightarrow> Time \<Rightarrow> float64 \<Rightarrow> Limiter" where
  "SetLimitAt bucket t newLimit = bucket\<lparr>limLast := t, limTokens := advance bucket t, limLimit := newLimit\<rparr>"

definition SetBurstAt :: "Limiter \<Rightarrow> Time \<Rightarrow> int \<Rightarrow> Limiter" where
  "SetBurstAt bucket t newBurst = bucket\<lparr>limLast := t, limTokens := advance bucket t, limBurst := newBurst\<rparr>"

section \<open>The contract\<close>

text \<open>
  A bucket with a rate per second and a burst, as its clients see it. The float
  arithmetic may grant a little more than the exact bucket: at most \<open>1/2\<close> token of debt and
  \<open>eps\<close> tokens per call.
\<close>

locale token_bucket =
  fixes allow :: "'b \<Rightarrow> Time \<Rightarrow> bool \<times> 'b"
    and level :: "'b \<Rightarrow> rat" and lastAt :: "'b \<Rightarrow> Time" and rate :: "'b \<Rightarrow> rat" and burst :: "'b \<Rightarrow> rat"
    and ok :: "'b \<Rightarrow> bool" and eps :: rat
  assumes ok_allow: "ok b \<Longrightarrow> allow b t = (a, b') \<Longrightarrow> ok b'"
    and same_knobs: "allow b t = (a, b') \<Longrightarrow> rate b' = rate b \<and> burst b' = burst b"
    and denied: "allow b t = (False, b') \<Longrightarrow> b' = b"
    and granted: "ok b \<Longrightarrow> lastAt b \<le> t \<Longrightarrow> allow b t = (True, b') \<Longrightarrow>
      lastAt b' = t \<and> level b' + 1 \<le> burst b + eps
      \<and> level b' + 1 \<le> level b + rate b * of_int (t - lastAt b) / 1000000000 + eps"
    and debt: "ok b \<Longrightarrow> - (1 / 2) \<le> level b"
    and rate_pos: "ok b \<Longrightarrow> 0 \<le> rate b" and eps_pos: "0 \<le> eps"
begin

fun grants :: "'b \<Rightarrow> Time list \<Rightarrow> nat" where
  "grants b [] = 0"
| "grants b (t # ts) = (case allow b t of (a, b') \<Rightarrow> (if a then 1 else 0) + grants b' ts)"

lemma grants_level:
  assumes "ok b" "sorted (lastAt b # ts)" "\<forall>t \<in> set ts. t \<le> u"
  shows "of_nat (grants b ts) \<le> level b + rate b * of_int (max 0 (u - lastAt b)) / 1000000000 + 1 / 2
    + eps * of_nat (length ts)"
  using assms
proof (induction ts arbitrary: b)
  case Nil
  have "0 \<le> rate b * of_int (max 0 (u - lastAt b)) / 1000000000"
    using rate_pos [OF Nil.prems(1)] by (intro divide_nonneg_pos mult_nonneg_nonneg) simp_all
  then show ?case using debt [OF Nil.prems(1)] by simp
next
  case (Cons t ts)
  obtain a b' where s: "allow b t = (a, b')" by fastforce
  show ?case
  proof (cases a)
    case True
    then have g: "lastAt b' = t" "level b' + 1 \<le> level b + rate b * of_int (t - lastAt b) / 1000000000 + eps"
      using granted [of b t b'] Cons.prems s by auto
    have ih: "of_nat (grants b' ts) \<le> level b' + rate b' * of_int (max 0 (u - lastAt b')) / 1000000000 + 1 / 2
        + eps * of_nat (length ts)"
      using Cons.prems s g(1) by (intro Cons.IH) (auto intro: ok_allow)
    have r: "rate b' = rate b" using same_knobs [OF s] by simp
    have "lastAt b \<le> t" "t \<le> u" using Cons.prems by auto
    then have eq: "rate b * of_int (t - lastAt b) / 1000000000 + rate b * of_int (max 0 (u - t)) / 1000000000
        = rate b * of_int (max 0 (u - lastAt b)) / 1000000000"
      by (simp add: algebra_simps add_divide_distrib diff_divide_distrib)
    have "of_nat (grants b (t # ts)) = (1 + of_nat (grants b' ts) :: rat)" using True s by simp
    moreover have "eps * of_nat (length (t # ts)) = eps + eps * of_nat (length ts)" by (simp add: algebra_simps)
    ultimately show ?thesis using ih [unfolded r g(1)] g(2) eq by linarith
  next
    case False
    then have b': "b' = b" using denied s by simp
    have "of_nat (grants b ts) \<le> level b + rate b * of_int (max 0 (u - lastAt b)) / 1000000000 + 1 / 2
        + eps * of_nat (length ts)"
      using Cons.prems by (intro Cons.IH) auto
    then show ?thesis using False s b' eps_pos by (simp add: algebra_simps)
  qed
qed

lemma first_grant:
  assumes "ok b" "sorted (lastAt b # t # ts)" "\<forall>s \<in> set ts. s \<le> u" "t \<le> u"
    "eps * of_nat (length (t # ts)) \<le> 1 / 2" "ts = [] \<or> fst (allow b t)" "0 \<le> burst b"
  shows "of_nat (grants b (t # ts)) \<le> burst b + rate b * of_int (u - t) / 1000000000 + 1"
proof (cases "fst (allow b t)")
  case True
  then obtain b' where call: "allow b t = (True, b')" by (metis prod.collapse)
  then have g: "lastAt b' = t" "level b' + 1 \<le> burst b + eps"
    using granted [of b t b'] assms by auto
  have "of_nat (grants b' ts) \<le> level b' + rate b' * of_int (max 0 (u - lastAt b')) / 1000000000 + 1 / 2
      + eps * of_nat (length ts)"
    using assms call g(1) by (intro grants_level) (auto intro: ok_allow)
  then show ?thesis using call g assms(4,5) same_knobs [OF call] by (simp add: algebra_simps)
next
  case False
  then have "ts = []" using assms by simp
  moreover have "0 \<le> rate b * of_int (u - t) / 1000000000" using rate_pos [OF assms(1)] assms(4) by simp
  ultimately show ?thesis using False assms(7) by (cases "allow b t") simp
qed

text \<open>A bucket admits at most its burst and the refill of the period the calls span,
  and one call more.\<close>

lemma grants_bound:
  assumes "ok b" "sorted (lastAt b # t # ts)" "\<forall>s \<in> set ts. s \<le> u" "t \<le> u"
    "eps * of_nat (length (t # ts)) \<le> 1 / 2" "0 \<le> burst b"
  shows "of_nat (grants b (t # ts)) \<le> burst b + rate b * of_int (u - t) / 1000000000 + 1"
  using assms
proof (induction ts arbitrary: t)
  case Nil
  then show ?case using first_grant [of b t "[]" u] by auto
next
  case (Cons s ts)
  have mono: "rate b * of_int (u - s) / 1000000000 \<le> rate b * of_int (u - t) / 1000000000"
    using Cons.prems(2) rate_pos [OF Cons.prems(1)] by (intro divide_right_mono mult_left_mono) auto
  obtain a b' where call: "allow b t = (a, b')" by fastforce
  show ?case
  proof (cases a)
    case True
    then show ?thesis using first_grant [of b t "s # ts" u] Cons.prems call by auto
  next
    case False
    have "eps * of_nat (length (s # ts)) \<le> eps * of_nat (length (t # s # ts))"
      using eps_pos by (intro mult_left_mono) auto
    then have "of_nat (grants b (s # ts)) \<le> burst b + rate b * of_int (u - s) / 1000000000 + 1"
      using Cons.prems by (intro Cons.IH) auto
    then show ?thesis using False call denied [of b t b'] mono by simp
  qed
qed

end

section \<open>The limiter keeps the contract\<close>

definition limiter_level :: "Limiter \<Rightarrow> rat" where
  "limiter_level bucket = (case limTokens bucket of F x \<Rightarrow> x | _ \<Rightarrow> 0)"

definition limiter_rate :: "Limiter \<Rightarrow> rat" where
  "limiter_rate bucket = (case limLimit bucket of F x \<Rightarrow> x | _ \<Rightarrow> 0)"

text \<open>Rates of at most \<open>2 ^ 18\<close> patches a second, which covers every sensible
  \<open>perNodePatchesPerSecond\<close>.\<close>

definition limiter_ok :: "Limiter \<Rightarrow> bool" where
  "limiter_ok bucket \<longleftrightarrow> (\<exists>r x. limLimit bucket = F (of_int r) \<and> 1 \<le> r \<and> r \<le> 2 ^ 18
     \<and> 1 \<le> limBurst bucket \<and> limBurst bucket \<le> 2 ^ 18
     \<and> limTokens bucket = F x \<and> - (1 / 2 ^ 11) \<le> x \<and> x \<le> 2 ^ 18)"

text \<open>A millisecond more than a second is measured as more than a second.\<close>

lemma rested_seconds:
  assumes "1001000000 \<le> sec * 1000000000 + ns" "0 \<le> ns" "ns < 1000000000"
  shows "1 + 1 / 2 ^ 10 \<le> rnd64 (of_int sec + rnd64 (of_int ns / 1000000000))"
proof (rule b64.ge_grid)
  let ?q = "rnd64 (of_int ns / 1000000000)"
  show "repr64 (1 + 1 / 2 ^ 10)" by (rule repr64I [of _ 1025 "- 10"]) (simp_all add: pow2_num)
  show "1 + 1 / 2 ^ 10 \<le> of_int sec + ?q"
  proof (cases "sec = 1")
    case True
    then have "1 / 2 ^ 10 \<le> (of_int ns / 1000000000 :: rat)" using assms(1) by simp
    then have "1 / 2 ^ 10 \<le> ?q" by (intro b64.ge_grid repr64I [of _ 1 "- 10"]) (simp_all add: pow2_num)
    then show ?thesis by (simp add: True)
  next
    case False
    then have "2 \<le> sec" using assms by (cases "sec \<le> 0") auto
    then have "(2 :: rat) \<le> of_int sec" by simp
    moreover have "0 \<le> ?q" using assms(2) by (intro b64.nonneg) simp
    ultimately show ?thesis by simp
  qed
qed

lemma Seconds_F:
  assumes "0 \<le> d" "d < 2 ^ 63"
  shows "\<exists>s. Seconds d = F s \<and> 0 \<le> s \<and> s \<le> of_int d / 1000000000 * (1 + 1 / 2 ^ 50) + 1 / 2 ^ 90
    \<and> (1001000000 \<le> d \<longrightarrow> 1 + 1 / 2 ^ 10 \<le> s)"
proof -
  define sec ns where "sec = d div 1000000000" and "ns = d mod 1000000000"
  define a where "a = (of_int ns / 1000000000 :: rat)"
  define q where "q = rnd64 a"
  define z where "z = of_int sec + q"
  have sec: "0 \<le> sec" "sec < 2 ^ 34" using assms by (auto simp: sec_def)
  have ns: "0 \<le> ns" "ns < 1000000000" by (simp_all add: ns_def)
  have d: "d = sec * 1000000000 + ns" by (simp add: sec_def ns_def)
  have a: "0 \<le> a" "a \<le> 1" using ns by (simp_all add: a_def)
  have D: "of_int d / 1000000000 = of_int sec + a" by (simp add: d a_def add_divide_distrib)
  have q: "0 \<le> q" "q \<le> 1" "q \<le> a + a / 2 ^ 53 + 1 / 2 ^ 100"
    using b64.nonneg [OF a(1)] b64.le_grid [OF repr64_int [of 1], of a] a rnd64_err [of a]
    by (auto simp: q_def abs_le_iff)
  have secR: "0 \<le> (of_int sec :: rat)" "(of_int sec :: rat) \<le> 2 ^ 34"
    using sec by (simp, simp only: of_int_le_numeral_power_cancel_iff less_imp_le)
  have z: "0 \<le> z" "z \<le> 2 ^ 35" using q secR by (auto simp: z_def)
  have "div64 d Second = sec" "d smod Second = ns"
    using assms by (simp_all add: Second_def div64_pos sec_def ns_def signed_modulo_int_def sgn_if abs_if)
  moreover have "float_of_int sec = F (of_int sec)" "float_of_int ns = F (of_int ns)"
    using sec ns by (simp_all add: float_of_int_exact)
  moreover have "fnorm a = F q" using a by (simp add: fnorm_moderate q_def)
  moreover have "fnorm z = F (rnd64 z)" using z by (simp add: fnorm_moderate)
  ultimately have S: "Seconds d = F (rnd64 z)" by (simp add: Seconds_def a_def z_def)
  have e: "rnd64 z \<le> z + z / 2 ^ 53 + 1 / 2 ^ 100" using rnd64_err [of z] z(1) by simp
  have step: "w + w / 2 ^ 53 + 1 / 2 ^ 100 \<le> (S + a) * (1 + 1 / 2 ^ 50) + 1 / 2 ^ 90"
    if "w = S + q" "0 \<le> S" for w S using that q(3) a(1) by (simp add: algebra_simps add_divide_distrib)
  have up: "rnd64 z \<le> (of_int sec + a) * (1 + 1 / 2 ^ 50) + 1 / 2 ^ 90"
    using e step [OF z_def secR(1)] by (rule order_trans)
  have low: "1 + 1 / 2 ^ 10 \<le> rnd64 z" if "1001000000 \<le> d"
    using rested_seconds [OF that [unfolded d] ns] by (simp add: z_def q_def a_def)
  show ?thesis using S b64.nonneg [OF z(1)] up low by (simp add: D)
qed

text \<open>The tokens of \<open>T\<close> seconds at a rate \<open>R\<close>, computed from a measured \<open>s\<close>, and what they add to
  a bucket at \<open>x\<close>.\<close>

lemma refill_delta:
  fixes R T s :: rat
  assumes R: "1 \<le> R" "R \<le> 2 ^ 18" and T: "0 \<le> T" "T \<le> 2 ^ 34"
    and s: "0 \<le> s" "s \<le> T * (1 + 1 / 2 ^ 50) + 1 / 2 ^ 90"
  shows "0 \<le> s * R" "s * R \<le> of_int (2 ^ 53)" "0 \<le> rnd64 (s * R)" "rnd64 (s * R) \<le> of_int (2 ^ 53)"
    and "R * T \<le> 2 ^ 19 \<Longrightarrow> rnd64 (s * R) \<le> R * T + 1 / 2 ^ 30 - 1 / 2 ^ 32"
proof -
  have "s * R \<le> (T * (1 + 1 / 2 ^ 50) + 1 / 2 ^ 90) * R" using s(2) R by (intro mult_right_mono) linarith+
  moreover have "1 / 2 ^ 90 * R \<le> 1 / 2 ^ 90 * 2 ^ 18" using R by (intro mult_left_mono) simp_all
  ultimately have sR: "s * R \<le> R * T * (1 + 1 / 2 ^ 50) + 1 / 2 ^ 72" by (simp add: algebra_simps)
  have "R * T \<le> 2 ^ 18 * 2 ^ 34" using R T by (intro mult_mono) simp_all
  then show b: "s * R \<le> of_int (2 ^ 53)" using sR by (simp add: algebra_simps)
  show n: "0 \<le> s * R" using s R by simp
  show "0 \<le> rnd64 (s * R)" "rnd64 (s * R) \<le> of_int (2 ^ 53)"
    using b64.nonneg [OF n] b64.le_grid [OF repr64_int [of "2 ^ 53"] b] by simp_all
  have "rnd64 v \<le> v + v / 2 ^ 53 + 1 / 2 ^ 100" if "0 \<le> v" for v using rnd64_err [of v] that by (simp add: abs_le_iff)
  from this [OF n] show "rnd64 (s * R) \<le> R * T + 1 / 2 ^ 30 - 1 / 2 ^ 32" if "R * T \<le> 2 ^ 19"
    using sR that by (simp add: algebra_simps)
qed

lemma refill_bound:
  fixes x delta Y :: rat
  assumes "- (1 / 2 ^ 11) \<le> x" "x \<le> 2 ^ 18" "0 \<le> delta" "delta \<le> Y + 1 / 2 ^ 30 - 1 / 2 ^ 32" "Y \<le> 2 ^ 19"
  shows "rnd64 (x + delta) \<le> x + Y + 1 / 2 ^ 30"
proof -
  have "\<bar>x + delta\<bar> \<le> 2 ^ 20" using assms by (simp add: abs_le_iff)
  then have "\<bar>rnd64 (x + delta) - (x + delta)\<bar> \<le> 2 ^ 20 / 2 ^ 53 + 1 / 2 ^ 100" by (rule rnd64_err_at)
  then have "rnd64 (x + delta) \<le> x + delta + (2 ^ 20 / 2 ^ 53 + 1 / 2 ^ 100)" by linarith
  then show ?thesis using assms(4) by simp
qed

lemma advance_F:
  assumes "limLimit bucket = F (of_int r)" "1 \<le> r" "r \<le> 2 ^ 18" "1 \<le> limBurst bucket" "limBurst bucket \<le> 2 ^ 18"
    "limTokens bucket = F x" "- (1 / 2 ^ 11) \<le> x" "x \<le> 2 ^ 18"
  shows "\<exists>y. advance bucket t = F y \<and> - (1 / 2 ^ 11) \<le> y \<and> y \<le> of_int (limBurst bucket)
    \<and> y \<le> x + of_int r * of_int (max 0 (t - limLast bucket)) / 1000000000 + 1 / 2 ^ 30
    \<and> (limLast bucket + 1001000000 \<le> t \<longrightarrow> 1 \<le> y)"
proof -
  define b where "b = (of_int (limBurst bucket) :: rat)"
  define D where "D = max 0 (t - limLast bucket)"
  define d where "d = min MaxInt64 D"
  have d: "0 \<le> d" "d < 2 ^ 63" "d \<le> D" by (simp_all add: d_def D_def MaxInt64_def)
  obtain s where s: "Seconds d = F s" "0 \<le> s" "s \<le> of_int d / 1000000000 * (1 + 1 / 2 ^ 50) + 1 / 2 ^ 90"
    "1001000000 \<le> d \<longrightarrow> 1 + 1 / 2 ^ 10 \<le> s" using Seconds_F [OF d(1,2)] by auto
  have R: "1 \<le> (of_int r :: rat)" "(of_int r :: rat) \<le> 2 ^ 18"
    using assms(2,3) by (simp, simp only: of_int_le_numeral_power_cancel_iff)
  have b: "1 \<le> b" "b \<le> 2 ^ 18"
    unfolding b_def using assms(4,5) by (simp, simp only: of_int_le_numeral_power_cancel_iff)
  define T where "T = (of_int d / 1000000000 :: rat)"
  define delta where "delta = rnd64 (s * of_int r)"
  define y where "y = rnd64 (x + delta)"
  have "(of_int d :: rat) \<le> of_int (2 ^ 63)" using d(2) by (simp only: of_int_le_iff)
  then have T: "0 \<le> T" "T \<le> 2 ^ 34" using d(1) by (simp_all add: T_def)
  note de = refill_delta [OF R T s(2) s(3) [folded T_def], folded delta_def]
  have "fmul (Seconds d) (limLimit bucket) = F delta"
    using de(1,2) by (simp add: s(1) assms(1) fnorm_moderate delta_def)
  moreover have "fadd (F x) (F delta) = F y"
    using de(3,4) assms(7,8) by (simp add: fnorm_moderate y_def abs_le_iff)
  moreover have "timeSub t (if t < limLast bucket then t else limLast bucket) = d"
    by (auto simp: timeSub_def d_def D_def MaxInt64_def)
  moreover have "float_of_int (limBurst bucket) = F b" using assms(4,5) by (simp add: float_of_int_exact b_def)
  moreover have "\<not> fle (limLimit bucket) (F 0)" using assms(1,2) by simp
  ultimately have adv: "advance bucket t = F (if b < y then b else y)"
    using assms(6) by (simp add: advance_def tokensFromDuration_def Let_def)
  have low: "- (1 / 2 ^ 11) \<le> y"
    unfolding y_def using de(3) assms(7)
    by (intro b64.ge_grid repr64I [of _ "- 1" "- 11"]) (simp_all add: pow2_num)
  have "(of_int d :: rat) \<le> of_int D" using d(3) by simp
  then have YD: "of_int r * T \<le> of_int r * of_int D / 1000000000" using R by (simp add: T_def divide_right_mono)
  have up: "(if b < y then b else y) \<le> x + of_int r * T + 1 / 2 ^ 30"
  proof (cases "of_int r * T \<le> 2 ^ 19")
    case True
    then show ?thesis using refill_bound [OF assms(7,8) de(3) de(5) [OF True] True] by (simp add: y_def)
  next
    case False
    then show ?thesis using b assms(7) by simp
  qed
  have live: "1 \<le> y" if "limLast bucket + 1001000000 \<le> t"
  proof -
    have "1001000000 \<le> d" using that by (simp add: d_def D_def MaxInt64_def)
    then have "(1 + 1 / 2 ^ 10) * of_int r \<le> s * of_int r" using s(4) R by (intro mult_right_mono) simp_all
    then have "of_int (1025 * r) / 2 ^ 10 \<le> s * of_int r" by (simp add: algebra_simps)
    then have "of_int (1025 * r) / 2 ^ 10 \<le> delta"
      unfolding delta_def using assms(2,3) by (intro b64.ge_grid b64.grid_dyadic) simp_all
    then have "1 \<le> x + delta" using assms(7) R by (simp add: algebra_simps)
    then show ?thesis unfolding y_def using b64.ge_grid [OF repr64_int [of 1], of "x + delta"] by simp
  qed
  show ?thesis
    using adv low up YD live b by (auto simp: b_def D_def split: if_splits)
qed

text \<open>A debt of more than \<open>1 / 2 ^ 11\<close> tokens takes at least a nanosecond to refill.\<close>

lemma debt_waits:
  assumes "1 \<le> r" "r \<le> 2 ^ 18" "w < - (1 / 2 ^ 11)" "- 2 \<le> w"
  shows "0 < durationFromTokens (F (of_int r)) (F (- w))"
proof -
  define c where "c = rnd64 (- w / of_int r)"
  define g where "g = rnd64 (c * 1000000000)"
  have R: "1 \<le> (of_int r :: rat)" "(of_int r :: rat) \<le> 2 ^ 18"
    using assms(1,2) by (simp, simp only: of_int_le_numeral_power_cancel_iff)
  have "1 / 2 ^ 11 / 2 ^ 18 \<le> - w / of_int r" using R assms(3) by (intro frac_le) simp_all
  then have c1: "1 / 2 ^ 29 \<le> c"
    unfolding c_def by (intro b64.ge_grid repr64I [of _ 1 "- 29"]) (simp_all add: pow2_num)
  have q2: "- w / of_int r \<le> 2"
    using R assms(4) frac_le [of 2 "- w" 1 "of_int r"] by simp
  then have c2: "c \<le> 2" using b64.le_grid [OF repr64_int [of 2], of "- w / of_int r"] by (simp add: c_def)
  have "1 \<le> c * 1000000000" using c1 by simp
  then have g1: "1 \<le> g" unfolding g_def using b64.ge_grid [OF repr64_int [of 1], of "c * 1000000000"] by simp
  have "c * 1000000000 \<le> of_int (2 ^ 40)" using c2 by simp
  then have g2: "g \<le> of_int (2 ^ 40)" unfolding g_def by (intro b64.le_grid repr64_int) simp_all
  have "fdiv (F (- w)) (F (of_int r)) = F c"
    using R assms(1,3) q2 fnorm_moderate [of "- w / of_int r"] by (simp add: c_def abs_le_iff)
  moreover have "fmul (F c) (F 1000000000) = F g" using c1 c2 by (simp add: g_def fnorm_moderate abs_le_iff)
  moreover have "\<not> fless (float_of_int MaxInt64) (F g)"
  proof -
    have "2 ^ 40 \<le> rnd64 (of_int MaxInt64)"
      using b64.ge_grid [OF repr64_int [of "2 ^ 40"], of "of_int MaxInt64"] by (simp add: MaxInt64_def)
    then show ?thesis using g2 by (simp add: float_of_int_def fnorm_moderate MaxInt64_def)
  qed
  ultimately have "durationFromTokens (F (of_int r)) (F (- w)) = int_of_float (F g)"
    using assms(1) by (simp add: durationFromTokens_def)
  moreover have "\<lfloor>g\<rfloor> \<le> 2 ^ 40" "1 \<le> \<lfloor>g\<rfloor>"
    using floor_mono [OF g2] g1 by (simp_all only: floor_of_int one_le_floor)
  ultimately show ?thesis using g1 by (simp add: trunc_def in64_def)
qed

lemma AllowN_F:
  assumes "limLimit bucket = F (of_int r)" "1 \<le> r" "r \<le> 2 ^ 18" "1 \<le> limBurst bucket" "limBurst bucket \<le> 2 ^ 18"
    "advance bucket t = F y" "- (1 / 2 ^ 11) \<le> y" "y \<le> of_int (limBurst bucket)"
  shows "1 \<le> y \<Longrightarrow> fst (AllowN bucket t 1)"
    and "AllowN bucket t 1 = (True, bucket') \<Longrightarrow>
         \<exists>w e. bucket' = bucket\<lparr>limLast := t, limTokens := F w, limLastEvent := e\<rparr>
           \<and> - (1 / 2 ^ 11) \<le> w \<and> w + 1 \<le> y + 1 / 2 ^ 30"
proof -
  define w where "w = rnd64 (y - 1)"
  define wait where "wait = (if w < 0 then durationFromTokens (F (of_int r)) (F (- w)) else 0)"
  have b: "(of_int (limBurst bucket) :: rat) \<le> 2 ^ 18" using assms(5) by (simp only: of_int_le_numeral_power_cancel_iff)
  have y: "\<bar>y - 1\<bar> \<le> 2 ^ 18" using assms(7,8) b by (auto simp: abs_le_iff)
  have err: "\<bar>w - (y - 1)\<bar> \<le> 2 ^ 18 / 2 ^ 53 + 1 / 2 ^ 100" unfolding w_def by (rule rnd64_err_at [OF y])
  then have "w \<le> y - 1 + (2 ^ 18 / 2 ^ 53 + 1 / 2 ^ 100)" by linarith
  then have up: "w + 1 \<le> y + 1 / 2 ^ 30" by simp
  have w2: "- 2 \<le> w" unfolding w_def using b64.ge_grid [OF repr64_int [of "- 2"], of "y - 1"] assms(7) by simp
  have "float_of_int 1 = F 1" using float_of_int_exact [of 1] by simp
  moreover have "(of_int r :: rat) \<le> 2 ^ 18" using assms(3) by (simp only: of_int_le_numeral_power_cancel_iff)
  then have "(of_int r :: rat) \<noteq> 2 ^ 1024 - 2 ^ 971" by (auto simp del: of_int_eq_numeral_iff)
  then have "\<not> feq (limLimit bucket) InfLimit"
    by (simp only: feq_def InfLimit_def assms(1) float64.inject) simp
  moreover have "fnorm (y - 1) = F w" using y by (simp add: w_def fnorm_moderate)
  ultimately have A: "AllowN bucket t 1 = (if wait \<le> 0
      then (True, bucket\<lparr>limLast := t, limTokens := F w, limLastEvent := t + wait\<rparr>) else (False, bucket))"
    using assms(4) by (simp add: AllowN_def reserveN_def assms(1,6) fsub_def wait_def Let_def)
  show "fst (AllowN bucket t 1)" if "1 \<le> y"
    using b64.nonneg [of "y - 1"] that by (simp add: A wait_def w_def)
  show "\<exists>w e. bucket' = bucket\<lparr>limLast := t, limTokens := F w, limLastEvent := e\<rparr>
           \<and> - (1 / 2 ^ 11) \<le> w \<and> w + 1 \<le> y + 1 / 2 ^ 30" if "AllowN bucket t 1 = (True, bucket')"
  proof -
    have "wait \<le> 0" "bucket' = bucket\<lparr>limLast := t, limTokens := F w, limLastEvent := t + wait\<rparr>"
      using that A by (auto split: if_splits)
    moreover have "- (1 / 2 ^ 11) \<le> w"
      using debt_waits [OF assms(2,3) _ w2] \<open>wait \<le> 0\<close> by (cases "w < - (1 / 2 ^ 11)") (auto simp: wait_def split: if_splits)
    ultimately show ?thesis using up by blast
  qed
qed

lemma limiter_okE:
  assumes "limiter_ok bucket"
  obtains r x where "limLimit bucket = F (of_int r)" "1 \<le> r" "r \<le> 2 ^ 18" "1 \<le> limBurst bucket"
    "limBurst bucket \<le> 2 ^ 18" "limTokens bucket = F x" "- (1 / 2 ^ 11) \<le> x" "x \<le> 2 ^ 18"
  using assms unfolding limiter_ok_def by blast

lemma AllowN_denied: "AllowN bucket t 1 = (False, bucket') \<Longrightarrow> bucket' = bucket"
  by (auto simp: AllowN_def reserveN_def Let_def split: if_splits)

lemma AllowN_knobs:
  "AllowN bucket t 1 = (a, bucket') \<Longrightarrow> limLimit bucket' = limLimit bucket \<and> limBurst bucket' = limBurst bucket"
  by (auto simp: AllowN_def reserveN_def Let_def split: if_splits)

definition limiterEps :: rat where
  "limiterEps = 1 / 2 ^ 29"

lemma limiter_granted:
  assumes "limiter_ok bucket" "AllowN bucket t 1 = (True, bucket')"
  shows "limiter_ok bucket' \<and> limLast bucket' = t \<and> limiter_level bucket' + 1 \<le> of_int (limBurst bucket) + limiterEps
    \<and> limiter_level bucket' + 1
      \<le> limiter_level bucket + limiter_rate bucket * of_int (max 0 (t - limLast bucket)) / 1000000000 + limiterEps"
proof -
  obtain r x where o: "limLimit bucket = F (of_int r)" "1 \<le> r" "r \<le> 2 ^ 18" "1 \<le> limBurst bucket"
    "limBurst bucket \<le> 2 ^ 18" "limTokens bucket = F x" "- (1 / 2 ^ 11) \<le> x" "x \<le> 2 ^ 18"
    using assms(1) by (rule limiter_okE)
  obtain y where y: "advance bucket t = F y" "- (1 / 2 ^ 11) \<le> y" "y \<le> of_int (limBurst bucket)"
    "y \<le> x + of_int r * of_int (max 0 (t - limLast bucket)) / 1000000000 + 1 / 2 ^ 30"
    using advance_F [OF o] by blast
  obtain w e where w: "bucket' = bucket\<lparr>limLast := t, limTokens := F w, limLastEvent := e\<rparr>"
    "- (1 / 2 ^ 11) \<le> w" "w + 1 \<le> y + 1 / 2 ^ 30"
    using AllowN_F(2) [OF o(1-5) y(1-3) assms(2)] by blast
  have b: "(of_int (limBurst bucket) :: rat) \<le> 2 ^ 18" using o(5) by (simp only: of_int_le_numeral_power_cancel_iff)
  have "w \<le> 2 ^ 18" using w(3) y(3) b by simp
  then have "limiter_ok bucket'" unfolding limiter_ok_def w(1) using o w(2) by auto
  then show ?thesis
    using w y by (simp add: limiter_level_def limiter_rate_def o limiterEps_def)
qed

interpretation lb: token_bucket "\<lambda>bucket t. AllowN bucket t 1" limiter_level limLast limiter_rate
  "\<lambda>bucket. of_int (limBurst bucket)" limiter_ok limiterEps
proof unfold_locales
  fix b b' t a
  show "limiter_ok b'" if "limiter_ok b" "AllowN b t 1 = (a, b')"
    using limiter_granted [OF that(1), of t b'] that AllowN_denied by (cases a) auto
  show "limiter_rate b' = limiter_rate b \<and> rat_of_int (limBurst b') = of_int (limBurst b)"
    if "AllowN b t 1 = (a, b')" using AllowN_knobs [OF that] by (simp add: limiter_rate_def)
  show "b' = b" if "AllowN b t 1 = (False, b')" using that by (rule AllowN_denied)
  show "limLast b' = t \<and> limiter_level b' + 1 \<le> of_int (limBurst b) + limiterEps
      \<and> limiter_level b' + 1 \<le> limiter_level b + limiter_rate b * of_int (t - limLast b) / 1000000000 + limiterEps"
    if "limiter_ok b" "limLast b \<le> t" "AllowN b t 1 = (True, b')"
    using limiter_granted [OF that(1,3)] that(2) by (simp add: max_def split: if_splits)
  show "- (1 / 2) \<le> limiter_level b" "0 \<le> limiter_rate b" if "limiter_ok b"
    using that by (auto simp: limiter_ok_def limiter_level_def limiter_rate_def)
  show "0 \<le> limiterEps" by (simp add: limiterEps_def)
qed

lemma limiter_ok_New: "1 \<le> r \<Longrightarrow> r \<le> 2 ^ 18 \<Longrightarrow> limiter_ok (NewLimiter (F (of_int r)) r)"
  using of_int_le_rat [of r 18] by (auto simp: limiter_ok_def NewLimiter_def float_of_int_exact)

lemma limiter_ok_set:
  assumes "limiter_ok bucket" "1 \<le> r" "r \<le> 2 ^ 18"
  shows "limiter_ok (SetLimitAt bucket t (F (of_int r)))" "limiter_ok (SetBurstAt bucket t r)"
proof -
  obtain q x where o: "limLimit bucket = F (of_int q)" "1 \<le> q" "q \<le> 2 ^ 18" "1 \<le> limBurst bucket"
    "limBurst bucket \<le> 2 ^ 18" "limTokens bucket = F x" "- (1 / 2 ^ 11) \<le> x" "x \<le> 2 ^ 18"
    using assms(1) by (rule limiter_okE)
  obtain y where y: "advance bucket t = F y" "- (1 / 2 ^ 11) \<le> y" "y \<le> of_int (limBurst bucket)"
    using advance_F [OF o] by blast
  have "(of_int (limBurst bucket) :: rat) \<le> 2 ^ 18" using o(5) by (simp only: of_int_le_numeral_power_cancel_iff)
  then have "y \<le> 2 ^ 18" using y(3) by linarith
  then show "limiter_ok (SetLimitAt bucket t (F (of_int r)))" "limiter_ok (SetBurstAt bucket t r)"
    unfolding limiter_ok_def SetLimitAt_def SetBurstAt_def using o y assms(2,3) by auto
qed

section \<open>Properties\<close>

text \<open>How many of a sequence of calls at the given times are allowed.\<close>

fun allowedCount :: "Limiter \<Rightarrow> Time list \<Rightarrow> nat" where
  "allowedCount bucket [] = 0"
| "allowedCount bucket (t # ts) =
     (case AllowN bucket t 1 of (a, bucket') \<Rightarrow> (if a then 1 else 0) + allowedCount bucket' ts)"

lemma allowedCount_grants: "allowedCount bucket ts = lb.grants bucket ts"
  by (induction ts arbitrary: bucket) (auto split: prod.splits)

lemma allowedCount_bound:
  assumes "limiter_ok bucket" "sorted (limLast bucket # t # ts)" "\<forall>s \<in> set ts. s \<le> u" "t \<le> u"
    "length (t # ts) \<le> 2 ^ 28"
  shows "of_nat (allowedCount bucket (t # ts))
    \<le> of_int (limBurst bucket) + limiter_rate bucket * of_int (u - t) / 1000000000 + 1"
proof -
  have "(of_nat (length (t # ts)) :: rat) \<le> 2 ^ 28" using assms(5) by (simp only: of_nat_le_numeral_power_cancel_iff)
  then have "limiterEps * of_nat (length (t # ts)) \<le> 1 / 2" by (simp add: limiterEps_def)
  moreover have "0 \<le> rat_of_int (limBurst bucket)" using assms(1) by (auto simp: limiter_ok_def)
  ultimately show ?thesis
    unfolding allowedCount_grants by (intro lb.grants_bound [OF assms(1-4)])
qed

text \<open>Over any sequence of calls in time order the limiter admits at most its burst,
  the refill of the period the calls span, and one call more, with the rounding of the
  float64 token count included.\<close>

theorem rate_limiter_bound:
  assumes "limiter_ok bucket" "sorted (limLast bucket # t # ts)" "\<forall>s \<in> set ts. s \<le> u" "t \<le> u"
    "length (t # ts) \<le> 2 ^ 28"
  shows "of_nat (allowedCount bucket (t # ts))
    \<le> of_int (limBurst bucket) + limiter_rate bucket * of_int (u - t) / 1000000000 + 1"
  using assms by (rule allowedCount_bound)

lemma AllowN_rested:
  assumes "limiter_ok bucket" "limLast bucket + 1001000000 \<le> t"
  shows "fst (AllowN bucket t 1)"
proof -
  obtain r x where o: "limLimit bucket = F (of_int r)" "1 \<le> r" "r \<le> 2 ^ 18" "1 \<le> limBurst bucket"
    "limBurst bucket \<le> 2 ^ 18" "limTokens bucket = F x" "- (1 / 2 ^ 11) \<le> x" "x \<le> 2 ^ 18"
    using assms(1) by (rule limiter_okE)
  obtain y where "advance bucket t = F y" "- (1 / 2 ^ 11) \<le> y" "y \<le> of_int (limBurst bucket)" "1 \<le> y"
    using advance_F [OF o] assms(2) by blast
  then show ?thesis using AllowN_F(1) [OF o(1-5)] by blast
qed

text \<open>C23. A limiter that has been left alone for a second and a millisecond allows the
  next call, at every rate of at least one per second and whatever it granted before: a
  node that ran out of budget gets a patch through on its follow-up reconciles.\<close>

theorem rate_limiter_progress:
  assumes "limiter_ok bucket" "limLast bucket + 1001000000 \<le> t"
  shows "fst (AllowN bucket t 1)"
  using assms by (rule AllowN_rested)

theorem rate_limiter_bound_witness:
  "allowedCount (NewLimiter (F 2) 2) [5, 5, 5, 500000005] \<le> 4"
proof -
  have "limiter_ok (NewLimiter (F 2) 2)" using limiter_ok_New [of 2] by simp
  from rate_limiter_bound [OF this, of 5 "[5, 5, 500000005]" 500000005] show ?thesis
    by (simp add: NewLimiter_def limiter_rate_def)
qed

theorem rate_limiter_progress_witness:
  "fst (AllowN (NewLimiter (F 1) 1) 1001000000 1)"
  using rate_limiter_progress [of "NewLimiter (F 1) 1" 1001000000] limiter_ok_New [of 1]
  by (simp add: NewLimiter_def)

end
