(* ===== verification/GoFormat.thy ===== *)
theory GoFormat
  imports RateLimiter
begin

text \<open>
  What the program uses of \<open>fmt\<close>, \<open>strings\<close> and the printing half of \<open>time\<close>: decimal
  integers, \<open>%.2f\<close>, \<open>Duration.String\<close> and the RFC 3339 layout. A Go string is its list of
  bytes.
\<close>

section \<open>Integers\<close>

definition digitChar :: "int \<Rightarrow> char" where
  "digitChar n = (''0123456789'' ! nat (n mod 10))"

text \<open>The digits of a number that is not negative.\<close>

function showNat :: "int \<Rightarrow> string" where
  "showNat n = (if n < 10 then [digitChar n] else showNat (n div 10) @ [digitChar n])"
  by pat_completeness auto
termination
  by (relation "measure nat") auto

declare showNat.simps [simp del]

text \<open>\<open>%d\<close>\<close>

definition showInt :: "int \<Rightarrow> string" where
  "showInt i = (if i < 0 then CHR ''-'' # showNat (- i) else showNat i)"

text \<open>Decimal digits, padded with zeros on the left to a width.\<close>

fun padNat :: "nat \<Rightarrow> int \<Rightarrow> string" where
  "padNat 0 n = []"
| "padNat (Suc w) n = padNat w (n div 10) @ [digitChar n]"

section \<open>Floats and durations\<close>

text \<open>\<open>%.2f\<close>: the exact value, rounded to two decimals with ties to even.\<close>

fun showFixed2 :: "float64 \<Rightarrow> string" where
  "showFixed2 (F x) =
     (let n = rne (\<bar>x\<bar> * 100) in
      (if x < 0 then ''-'' else '''') @ showNat (n div 100) @ ''.'' @ padNat 2 n)"
| "showFixed2 PInf = ''+Inf''"
| "showFixed2 NInf = ''-Inf''"
| "showFixed2 NaN = ''NaN''"

text \<open>\<open>fmtFrac\<close>: the last \<open>prec\<close> digits as a fraction, without trailing zeros.\<close>

definition stripZeros :: "string \<Rightarrow> string" where
  "stripZeros s = rev (dropWhile (\<lambda>c. c = CHR ''0'') (rev s))"

definition fmtFrac :: "int \<Rightarrow> nat \<Rightarrow> string" where
  "fmtFrac u prec = (let frac = stripZeros (padNat prec u) in if frac = '''' then '''' else ''.'' @ frac)"

text \<open>\<open>Duration.String\<close>; the micro sign is the bytes C2 B5.\<close>

definition durationString :: "Duration \<Rightarrow> string" where
  "durationString d =
     (let u = \<bar>d\<bar>;
          body =
            (if u = 0 then ''0s''
             else if u < 1000 then showNat u @ ''ns''
             else if u < 1000000 then showNat (u div 1000) @ fmtFrac u 3 @ [CHR 0xC2, CHR 0xB5] @ ''s''
             else if u < 1000000000 then showNat (u div 1000000) @ fmtFrac u 6 @ ''ms''
             else
               let sec = u div 1000000000; mins = sec div 60; hours = mins div 60 in
               (if hours > 0 then showNat hours @ ''h'' else '''')
               @ (if mins > 0 then showNat (mins mod 60) @ ''m'' else '''')
               @ showNat (sec mod 60) @ fmtFrac u 9 @ ''s'')
      in if d < 0 then ''-'' @ body else body)"

section \<open>Calendar time\<close>

definition isLeap :: "int \<Rightarrow> bool" where
  "isLeap y \<longleftrightarrow> y mod 4 = 0 \<and> (y mod 100 \<noteq> 0 \<or> y mod 400 = 0)"

text \<open>The year and the day of the year of a day counted from 1 January of year 1.\<close>

definition civilYear :: "int \<Rightarrow> int \<times> int" where
  "civilYear days =
     (let n400 = days div 146097; r400 = days mod 146097;
          n100 = min 3 (r400 div 36524); r100 = r400 - n100 * 36524;
          n4 = r100 div 1461; r4 = r100 mod 1461;
          n1 = min 3 (r4 div 365)
      in (400 * n400 + 100 * n100 + 4 * n4 + n1 + 1, r4 - n1 * 365))"

definition monthLengths :: "int \<Rightarrow> int list" where
  "monthLengths y = [31, if isLeap y then 29 else 28, 31, 30, 31, 30, 31, 31, 30, 31, 30, 31]"

fun civilMonth :: "int list \<Rightarrow> int \<Rightarrow> int \<Rightarrow> int \<times> int" where
  "civilMonth [] m d = (m, d)"
| "civilMonth (l # ls) m d = (if d < l then (m, d + 1) else civilMonth ls (m + 1) (d - l))"

text \<open>\<open>t.UTC().Format(time.RFC3339)\<close>\<close>

definition formatRFC3339 :: "Time \<Rightarrow> string" where
  "formatRFC3339 t =
     (let sec = t div Second; days = sec div 86400; sod = sec mod 86400;
          (y, yday) = civilYear days; (m, d) = civilMonth (monthLengths y) 1 yday
      in padNat 4 y @ ''-'' @ padNat 2 m @ ''-'' @ padNat 2 d @ ''T'' @ padNat 2 (sod div 3600) @ '':''
         @ padNat 2 (sod div 60 mod 60) @ '':'' @ padNat 2 (sod mod 60) @ ''Z'')"

section \<open>Strings\<close>

text \<open>\<open>strings.Contains\<close>\<close>

fun strPrefix :: "string \<Rightarrow> string \<Rightarrow> bool" where
  "strPrefix [] s = True"
| "strPrefix (c # cs) [] = False"
| "strPrefix (c # cs) (x # xs) = (c = x \<and> strPrefix cs xs)"

fun strContains :: "string \<Rightarrow> string \<Rightarrow> bool" where
  "strContains [] w = (w = [])"
| "strContains (c # cs) w = (strPrefix w (c # cs) \<or> strContains cs w)"

lemma strPrefix_iff: "strPrefix w s \<longleftrightarrow> (\<exists>rest. s = w @ rest)"
  by (induction w s rule: strPrefix.induct) auto

lemma strContains_iff: "strContains s w \<longleftrightarrow> (\<exists>before after. s = before @ w @ after)"
proof (induction s w rule: strContains.induct)
  case (2 c cs w)
  have "strContains (c # cs) w \<longleftrightarrow> (\<exists>rest. c # cs = w @ rest) \<or> (\<exists>b a. cs = b @ w @ a)"
    using 2 by (simp add: strPrefix_iff)
  also have "\<dots> \<longleftrightarrow> (\<exists>before after. c # cs = before @ w @ after)"
    by (auto simp: Cons_eq_append_conv)
  finally show ?case .
qed simp

section \<open>Decimal digits\<close>

definition digitSet :: "char set" where
  "digitSet = set ''0123456789''"

lemma digitChar_in: "digitChar n \<in> digitSet"
  unfolding digitChar_def digitSet_def by (rule nth_mem) (simp add: nat_less_iff)

lemma showNat_less: "n < 10 \<Longrightarrow> showNat n = [digitChar n]"
  by (subst showNat.simps) simp

lemma showNat_ge: "\<not> n < 10 \<Longrightarrow> showNat n = showNat (n div 10) @ [digitChar n]"
  by (subst showNat.simps) simp

lemma showNat_nonempty [simp]: "showNat n \<noteq> []"
  by (cases "n < 10") (simp_all add: showNat_less showNat_ge)

lemma showNat_digits: "set (showNat n) \<subseteq> digitSet"
proof (induction n rule: showNat.induct)
  case (1 n)
  then show ?case by (cases "n < 10") (simp_all add: showNat_less showNat_ge digitChar_in)
qed

lemma padNat_digits: "set (padNat w n) \<subseteq> digitSet"
  by (induction w n rule: padNat.induct) (auto simp: digitChar_in)

lemma digitChar_inj:
  assumes "digitChar m = digitChar n"
  shows "m mod 10 = n mod 10"
proof -
  have "nat (m mod 10) = nat (n mod 10)"
    using assms unfolding digitChar_def by (subst (asm) nth_eq_iff_index_eq) (simp_all add: nat_less_iff)
  then show ?thesis by (simp add: nat_eq_iff)
qed

text \<open>Different numbers print differently.\<close>

lemma showNat_inj: "0 \<le> m \<Longrightarrow> 0 \<le> n \<Longrightarrow> showNat m = showNat n \<Longrightarrow> m = n"
proof (induction m arbitrary: n rule: showNat.induct)
  case (1 m)
  note eq = 1(4)
  show ?case
  proof (cases "m < 10")
    case True
    have "n < 10" using eq [symmetric] True by (cases "n < 10") (simp_all add: showNat_less showNat_ge)
    then show ?thesis using eq True 1(2,3) digitChar_inj [of m n] by (simp add: showNat_less)
  next
    case False
    have n: "\<not> n < 10" using eq False by (cases "n < 10") (simp_all add: showNat_less showNat_ge)
    have parts: "showNat (m div 10) = showNat (n div 10)" "digitChar m = digitChar n"
      using eq False n by (simp_all add: showNat_ge [of m] showNat_ge [of n])
    have "0 \<le> m div 10" "0 \<le> n div 10" using 1(2,3) by (simp_all add: pos_imp_zdiv_nonneg_iff)
    then have d: "m div 10 = n div 10" using parts(1) by (rule 1(1) [OF False])
    have r: "m mod 10 = n mod 10" using parts(2) by (rule digitChar_inj)
    have "m = m div 10 * 10 + m mod 10" by simp
    also have "\<dots> = n" by (simp only: d r div_mult_mod_eq)
    finally show ?thesis .
  qed
qed

lemma showNat_no_minus: "showNat m \<noteq> CHR ''-'' # s"
  using showNat_digits [of m] by (auto simp: digitSet_def)

lemma showInt_inj: "showInt i = showInt j \<Longrightarrow> i = j"
  using showNat_no_minus [of i] showNat_no_minus [of j] showNat_inj [of i j] showNat_inj [of "- i" "- j"]
  by (auto simp: showInt_def split: if_splits dest: sym)

end
