(* ===== verification/JSON.thy ===== *)
theory JSON
  imports GoFormat "HOL-Library.Monad_Syntax"
begin

text \<open>
  What the program uses of \<open>encoding/json\<close>: the syntax a document must have, the values
  it denotes, and the printing of strings. Documents are UTF-8, which the API server
  guarantees for the strings of an object, so bytes above 127 are taken as they are.
\<close>

datatype json = JNull | JBool bool | JNum string | JStr string | JArr "json list" | JObj "(string \<times> json) list"

section \<open>Strings\<close>

definition byte :: "char \<Rightarrow> int" where
  "byte c = of_char c"

definition charAt :: "int \<Rightarrow> char" where
  "charAt n = char_of (nat n)"

definition quoteMark :: char where
  "quoteMark = CHR 0x22"

definition backslash :: char where
  "backslash = CHR 0x5C"

definition hexDigit :: "int \<Rightarrow> char" where
  "hexDigit n = (''0123456789abcdef'' ! nat (n mod 16))"

definition hexValue :: "char \<Rightarrow> int option" where
  "hexValue c =
     (let b = byte c in
      if 48 \<le> b \<and> b \<le> 57 then Some (b - 48)
      else if 97 \<le> b \<and> b \<le> 102 then Some (b - 87)
      else if 65 \<le> b \<and> b \<le> 70 then Some (b - 55)
      else None)"

fun hex4 :: "string \<Rightarrow> (int \<times> string) option" where
  "hex4 (a # b # c # d # rest) =
     do { w \<leftarrow> hexValue a; x \<leftarrow> hexValue b; y \<leftarrow> hexValue c; z \<leftarrow> hexValue d;
          Some (w * 4096 + x * 256 + y * 16 + z, rest) }"
| "hex4 _ = None"

text \<open>The UTF-8 encoding of a code point.\<close>

definition encodeRune :: "int \<Rightarrow> string" where
  "encodeRune r =
     (if r < 128 then [charAt r]
      else if r < 2048 then [charAt (192 + r div 64), charAt (128 + r mod 64)]
      else if r < 65536 then [charAt (224 + r div 4096), charAt (128 + r div 64 mod 64), charAt (128 + r mod 64)]
      else [charAt (240 + r div 262144), charAt (128 + r div 4096 mod 64), charAt (128 + r div 64 mod 64),
            charAt (128 + r mod 64)])"

definition isHigh :: "int \<Rightarrow> bool" where
  "isHigh r \<longleftrightarrow> 0xD800 \<le> r \<and> r < 0xDC00"

definition isLow :: "int \<Rightarrow> bool" where
  "isLow r \<longleftrightarrow> 0xDC00 \<le> r \<and> r < 0xE000"

text \<open>The second half of a surrogate pair, if the text goes on with one.\<close>

definition lowSurrogate :: "string \<Rightarrow> (int \<times> string) option" where
  "lowSurrogate s =
     (case s of
        a # b # rest \<Rightarrow>
          if a = backslash \<and> b = CHR ''u'' then
            (case hex4 rest of Some (r, rest') \<Rightarrow> if isLow r then Some (r, rest') else None | None \<Rightarrow> None)
          else None
      | _ \<Rightarrow> None)"

text \<open>The character after \<open>\u\<close>; a lone surrogate becomes U+FFFD.\<close>

definition unicodeEscape :: "string \<Rightarrow> (string \<times> string) option" where
  "unicodeEscape s =
     (case hex4 s of
        None \<Rightarrow> None
      | Some (r, rest) \<Rightarrow>
          if isHigh r then
            (case lowSurrogate rest of
               Some (r2, rest2) \<Rightarrow> Some (encodeRune (65536 + (r - 0xD800) * 1024 + (r2 - 0xDC00)), rest2)
             | None \<Rightarrow> Some (encodeRune 0xFFFD, rest))
          else if isLow r then Some (encodeRune 0xFFFD, rest)
          else Some (encodeRune r, rest))"

definition simpleEscape :: "char \<Rightarrow> char option" where
  "simpleEscape c =
     (if c = quoteMark \<or> c = backslash \<or> c = CHR ''/'' then Some c
      else if c = CHR ''b'' then Some (CHR 8) else if c = CHR ''f'' then Some (CHR 12)
      else if c = CHR ''n'' then Some (CHR 10) else if c = CHR ''r'' then Some (CHR 13)
      else if c = CHR ''t'' then Some (CHR 9) else None)"

lemma hex4_length: "hex4 s = Some (r, rest) \<Longrightarrow> length rest < length s"
  by (induction s rule: hex4.induct) (auto split: bind_splits)

lemma unicodeEscape_length: "unicodeEscape s = Some (w, rest) \<Longrightarrow> length rest < length s"
  by (auto simp: unicodeEscape_def lowSurrogate_def dest!: hex4_length split: option.splits if_splits list.splits)

text \<open>The rest of a string literal after its opening quote: its value and what follows.\<close>

function parseString :: "string \<Rightarrow> (string \<times> string) option" where
  "parseString [] = None"
| "parseString (c # cs) =
     (if c = quoteMark then Some ([], cs)
      else if c = backslash then
        (case cs of
           [] \<Rightarrow> None
         | e # r \<Rightarrow>
             if e = CHR ''u'' then
               (case unicodeEscape r of
                  None \<Rightarrow> None
                | Some (w, rest) \<Rightarrow> map_option (\<lambda>(v, t). (w @ v, t)) (parseString rest))
             else (case simpleEscape e of
                     None \<Rightarrow> None
                   | Some x \<Rightarrow> map_option (\<lambda>(v, t). (x # v, t)) (parseString r)))
      else if byte c < 32 then None
      else map_option (\<lambda>(v, t). (c # v, t)) (parseString cs))"
  by pat_completeness auto
termination
  by (relation "measure length") (auto dest: unicodeEscape_length)

text \<open>Printing, with the characters that HTML gives a meaning escaped as \<open>Marshal\<close> does.\<close>

definition escapeChar :: "char \<Rightarrow> string" where
  "escapeChar c =
     (if c = quoteMark \<or> c = backslash then [backslash, c]
      else if c = CHR 8 then [backslash, CHR ''b''] else if c = CHR 12 then [backslash, CHR ''f'']
      else if c = CHR 10 then [backslash, CHR ''n''] else if c = CHR 13 then [backslash, CHR ''r'']
      else if c = CHR 9 then [backslash, CHR ''t'']
      else if byte c < 32 \<or> c \<in> set ''<>&''
      then [backslash, CHR ''u'', CHR ''0'', CHR ''0'', hexDigit (byte c div 16), hexDigit (byte c)]
      else [c])"

definition quoteString :: "string \<Rightarrow> string" where
  "quoteString s = [quoteMark] @ concat (map escapeChar s) @ [quoteMark]"

section \<open>Documents\<close>

definition isSpace :: "char \<Rightarrow> bool" where
  "isSpace c \<longleftrightarrow> c = CHR '' '' \<or> c = CHR 9 \<or> c = CHR 10 \<or> c = CHR 13"

definition skipWs :: "string \<Rightarrow> string" where
  "skipWs s = dropWhile isSpace s"

definition expectChar :: "char \<Rightarrow> string \<Rightarrow> string option" where
  "expectChar c s = (case skipWs s of x # r \<Rightarrow> if x = c then Some r else None | [] \<Rightarrow> None)"

definition isDig :: "char \<Rightarrow> bool" where
  "isDig c \<longleftrightarrow> c \<in> set ''0123456789''"

definition digitsOf :: "string \<Rightarrow> string" where
  "digitsOf s = takeWhile isDig s"

text \<open>The integer part of a number: 0, or digits that do not start with 0.\<close>

definition intPart :: "string \<Rightarrow> string option" where
  "intPart s = (case digitsOf s of [] \<Rightarrow> None | d # ds \<Rightarrow> if d = CHR ''0'' then Some ''0'' else Some (d # ds))"

definition fracPart :: "string \<Rightarrow> string option" where
  "fracPart s =
     (case s of
        c # r \<Rightarrow> if c = CHR ''.'' then (if digitsOf r = [] then None else Some (c # digitsOf r)) else Some []
      | [] \<Rightarrow> Some [])"

definition expPart :: "string \<Rightarrow> string option" where
  "expPart s =
     (case s of
        c # r \<Rightarrow>
          if c = CHR ''e'' \<or> c = CHR ''E'' then
            (let sgn = (case r of x # _ \<Rightarrow> if x = CHR ''+'' \<or> x = CHR ''-'' then [x] else [] | [] \<Rightarrow> []);
                 ds = digitsOf (drop (length sgn) r)
             in if ds = [] then None else Some (c # sgn @ ds))
          else Some []
      | [] \<Rightarrow> Some [])"

definition parseNumber :: "string \<Rightarrow> (string \<times> string) option" where
  "parseNumber s =
     (let sgn = (case s of c # _ \<Rightarrow> if c = CHR ''-'' then [c] else [] | [] \<Rightarrow> []); s1 = drop (length sgn) s in
      do { i \<leftarrow> intPart s1; f \<leftarrow> fracPart (drop (length i) s1);
           e \<leftarrow> expPart (drop (length f) (drop (length i) s1));
           Some (sgn @ i @ f @ e, drop (length e) (drop (length f) (drop (length i) s1))) })"

definition literal :: "string \<Rightarrow> json \<Rightarrow> string \<Rightarrow> (json \<times> string) option" where
  "literal w v s = (if take (length w) s = w then Some (v, drop (length w) s) else None)"

definition maxNestingDepth :: nat where
  "maxNestingDepth = 10000"

text \<open>Recursive descent; the fuel is the length of the document, and every call
  consumes a character before it recurses.\<close>

fun parseValue :: "nat \<Rightarrow> nat \<Rightarrow> string \<Rightarrow> (json \<times> string) option"
and parseMembers :: "nat \<Rightarrow> nat \<Rightarrow> string \<Rightarrow> ((string \<times> json) list \<times> string) option"
and parseElements :: "nat \<Rightarrow> nat \<Rightarrow> string \<Rightarrow> (json list \<times> string) option" where
  "parseValue 0 depth s = None"
| "parseValue (Suc n) depth s =
     (case skipWs s of
        [] \<Rightarrow> None
      | c # r \<Rightarrow>
          if c = CHR ''{'' then
            (if depth \<ge> maxNestingDepth then None
             else case expectChar (CHR ''}'') r of
                 Some rest \<Rightarrow> Some (JObj [], rest)
               | None \<Rightarrow> map_option (\<lambda>(ms, rest). (JObj ms, rest)) (parseMembers n (Suc depth) r))
          else if c = CHR ''['' then
            (if depth \<ge> maxNestingDepth then None
             else case expectChar (CHR '']'') r of
                 Some rest \<Rightarrow> Some (JArr [], rest)
               | None \<Rightarrow> map_option (\<lambda>(vs, rest). (JArr vs, rest)) (parseElements n (Suc depth) r))
          else if c = quoteMark then map_option (\<lambda>(v, rest). (JStr v, rest)) (parseString r)
          else if c = CHR ''t'' then literal ''rue'' (JBool True) r
          else if c = CHR ''f'' then literal ''alse'' (JBool False) r
          else if c = CHR ''n'' then literal ''ull'' JNull r
          else map_option (\<lambda>(l, rest). (JNum l, rest)) (parseNumber (c # r)))"
| "parseMembers 0 depth s = None"
| "parseMembers (Suc n) depth s =
     do { r \<leftarrow> expectChar quoteMark s;
          (k, r1) \<leftarrow> parseString r;
          r2 \<leftarrow> expectChar (CHR '':'') r1;
          (v, r3) \<leftarrow> parseValue n depth r2;
          case expectChar (CHR '','') r3 of
            Some r4 \<Rightarrow> map_option (\<lambda>(ms, rest). ((k, v) # ms, rest)) (parseMembers n depth r4)
          | None \<Rightarrow> map_option (\<lambda>rest. ([(k, v)], rest)) (expectChar (CHR ''}'') r3) }"
| "parseElements 0 depth s = None"
| "parseElements (Suc n) depth s =
     do { (v, r) \<leftarrow> parseValue n depth s;
          case expectChar (CHR '','') r of
            Some r1 \<Rightarrow> map_option (\<lambda>(vs, rest). (v # vs, rest)) (parseElements n depth r1)
          | None \<Rightarrow> map_option (\<lambda>rest. ([v], rest)) (expectChar (CHR '']'') r) }"

definition parseJSON :: "string \<Rightarrow> json option" where
  "parseJSON s =
     (case parseValue (Suc (length s)) 0 s of
        None \<Rightarrow> None
      | Some (v, rest) \<Rightarrow> if skipWs rest = [] then Some v else None)"

section \<open>Printed strings read back\<close>

lemma byte_bounds: "0 \<le> byte c" "byte c < 256"
proof -
  have "byte c = int (of_char c)" by (simp add: byte_def of_nat_of_char)
  then show "0 \<le> byte c" "byte c < 256" using nat_of_char_less_256 [of c] by simp_all
qed

lemma charAt_byte [simp]: "charAt (byte c) = c"
  by (simp add: charAt_def byte_def)

lemma byte_quote [simp]: "byte quoteMark = 34" "byte backslash = 92"
  by (simp_all add: byte_def quoteMark_def backslash_def)

lemma quote_neq [simp]: "quoteMark \<noteq> backslash" "backslash \<noteq> quoteMark"
  by (simp_all add: quoteMark_def backslash_def)

lemma hexValue_hexDigit: "hexValue (hexDigit n) = Some (n mod 16)"
proof -
  have "n mod 16 \<in> {0, 1, 2, 3, 4, 5, 6, 7, 8, 9, 10, 11, 12, 13, 14, 15}" by auto presburger
  then show ?thesis by (auto simp: hexValue_def hexDigit_def byte_def Let_def)
qed

lemma hex4_escaped: "hex4 ([CHR ''0'', CHR ''0'', hexDigit (byte c div 16), hexDigit (byte c)] @ rest) = Some (byte c, rest)"
proof -
  have z: "hexValue (CHR ''0'') = Some 0" by (simp add: hexValue_def byte_def)
  have "byte c div 16 mod 16 = byte c div 16" using byte_bounds [of c] by simp
  then show ?thesis by (simp add: z hexValue_hexDigit)
qed

lemma parseString_escapeChar:
  "parseString (escapeChar c @ s) = map_option (\<lambda>(v, t). (c # v, t)) (parseString s)"
proof -
  consider (plain) "escapeChar c = [c]" "c \<noteq> quoteMark" "c \<noteq> backslash" "\<not> byte c < 32"
    | (simple) e where "escapeChar c = [backslash, e]" "simpleEscape e = Some c" "e \<noteq> CHR ''u''"
    | (uni) "escapeChar c = [backslash, CHR ''u'', CHR ''0'', CHR ''0'', hexDigit (byte c div 16), hexDigit (byte c)]"
      "byte c < 128"
  proof (cases "c = quoteMark \<or> c = backslash \<or> c = CHR 8 \<or> c = CHR 12 \<or> c = CHR 10 \<or> c = CHR 13 \<or> c = CHR 9")
    case True
    then have "\<exists>e. escapeChar c = [backslash, e] \<and> simpleEscape e = Some c \<and> e \<noteq> CHR ''u''"
      by (elim disjE) (simp_all add: escapeChar_def simpleEscape_def quoteMark_def backslash_def)
    then show thesis using simple by blast
  next
    case False
    show thesis
    proof (cases "byte c < 32 \<or> c \<in> set ''<>&''")
      case True
      then have "byte c < 128" by (auto simp: byte_def)
      then show thesis using uni True False by (simp add: escapeChar_def)
    next
      case neither: False
      then show thesis using plain False by (simp add: escapeChar_def)
    qed
  qed
  then show ?thesis
  proof cases
    case plain
    then show ?thesis by simp
  next
    case simple
    then show ?thesis by simp
  next
    case uni
    have "unicodeEscape ([CHR ''0'', CHR ''0'', hexDigit (byte c div 16), hexDigit (byte c)] @ s) = Some ([c], s)"
      unfolding unicodeEscape_def hex4_escaped using uni(2) by (simp add: isHigh_def isLow_def encodeRune_def)
    then show ?thesis using uni(1) by simp
  qed
qed

lemma parseString_quoted:
  "parseString (concat (map escapeChar v) @ quoteMark # rest) = Some (v, rest)"
  by (induction v) (simp_all add: parseString_escapeChar)

lemma expectChar_Cons: "\<not> isSpace x \<Longrightarrow> expectChar c (x # r) = (if x = c then Some r else None)"
  by (simp add: expectChar_def skipWs_def)

lemma not_space [simp]:
  "\<not> isSpace quoteMark" "\<not> isSpace (CHR '','')" "\<not> isSpace (CHR '':'')" "\<not> isSpace (CHR ''{'')" "\<not> isSpace (CHR ''}'')"
  by (simp_all add: isSpace_def quoteMark_def)

text \<open>Reading a value that a printer wrote, in front of a comma or a closing brace.\<close>

definition readsAs :: "string \<Rightarrow> json \<Rightarrow> bool" where
  "readsAs txt v \<longleftrightarrow> (\<forall>n d c rest. c \<in> set '',}'' \<longrightarrow> parseValue (Suc n) d (txt @ c # rest) = Some (v, c # rest))"

lemma readsAs_string: "readsAs (quoteString v) (JStr v)"
proof -
  have "quoteMark \<noteq> CHR ''{''" "quoteMark \<noteq> CHR ''[''" by (simp_all add: quoteMark_def)
  then show ?thesis by (simp add: readsAs_def quoteString_def skipWs_def parseString_quoted)
qed

lemma readsAs_true: "readsAs ''true'' (JBool True)"
  by (simp add: readsAs_def skipWs_def isSpace_def literal_def quoteMark_def)

lemma parseMembers_field:
  assumes "readsAs txt v" "2 \<le> n"
  shows "parseMembers n d (quoteString k @ CHR '':'' # txt @ CHR '','' # rest) =
      map_option (\<lambda>(ms, r). ((k, v) # ms, r)) (parseMembers (n - 1) d rest)"
    and "parseMembers n d (quoteString k @ CHR '':'' # txt @ CHR ''}'' # rest) = Some ([(k, v)], rest)"
proof -
  obtain m where n: "n = Suc (Suc m)" using assms(2) by (metis add_2_eq_Suc le_Suc_ex)
  have q: "expectChar quoteMark (quoteString k @ s) = Some (concat (map escapeChar k) @ quoteMark # s)" for s
    by (simp add: quoteString_def expectChar_Cons)
  show "parseMembers n d (quoteString k @ CHR '':'' # txt @ CHR '','' # rest) =
      map_option (\<lambda>(ms, r). ((k, v) # ms, r)) (parseMembers (n - 1) d rest)"
    using assms(1) by (simp add: n q parseString_quoted expectChar_Cons readsAs_def)
  show "parseMembers n d (quoteString k @ CHR '':'' # txt @ CHR ''}'' # rest) = Some ([(k, v)], rest)"
    using assms(1) by (simp add: n q parseString_quoted expectChar_Cons readsAs_def)
qed

subsection \<open>Numbers\<close>

lemma isDig_digitSet: "isDig c \<longleftrightarrow> c \<in> digitSet"
  by (simp add: isDig_def digitSet_def)

lemma digitsOf_showNat: "\<not> isDig c \<Longrightarrow> digitsOf (showNat n @ c # rest) = showNat n"
  using showNat_digits [of n] by (auto simp: digitsOf_def isDig_digitSet takeWhile_append)

lemma showNat_zero: "0 \<le> n \<Longrightarrow> hd (showNat n) = CHR ''0'' \<Longrightarrow> n = 0"
proof (induction n rule: showNat.induct)
  case (1 n)
  show ?case
  proof (cases "n < 10")
    case True
    have "digitChar 0 = CHR ''0''" by (simp add: digitChar_def)
    then show ?thesis using 1(2,3) True digitChar_inj [of n 0] by (simp add: showNat_less)
  next
    case False
    then have "hd (showNat (n div 10)) = CHR ''0''" using 1(3) by (simp add: showNat_ge)
    moreover have "0 \<le> n div 10" using 1(2) by (simp add: pos_imp_zdiv_nonneg_iff)
    ultimately have "n div 10 = 0" using 1(1) [OF False] by blast
    then show ?thesis using False 1(2) by presburger
  qed
qed

lemma intPart_showNat: "0 \<le> n \<Longrightarrow> \<not> isDig c \<Longrightarrow> intPart (showNat n @ c # rest) = Some (showNat n)"
proof -
  assume n: "0 \<le> n" and c: "\<not> isDig c"
  obtain x xs where x: "showNat n = x # xs" by (cases "showNat n") auto
  moreover have "n = 0" if "x = CHR ''0''" using showNat_zero [OF n] that x by simp
  moreover have "showNat 0 = ''0''" by (simp add: showNat_less digitChar_def)
  ultimately show ?thesis using digitsOf_showNat [OF c, of n rest] by (auto simp: intPart_def)
qed

lemma parseNumber_showInt:
  assumes "c \<in> set '',}''"
  shows "parseNumber (showInt n @ c # rest) = Some (showInt n, c # rest)"
proof -
  have c: "\<not> isDig c" "fracPart (c # rest) = Some []" "expPart (c # rest) = Some []"
    using assms by (auto simp: isDig_def fracPart_def expPart_def)
  show ?thesis
  proof (cases "n < 0")
    case True
    then show ?thesis using c intPart_showNat [of "- n" c rest] by (simp add: parseNumber_def showInt_def)
  next
    case False
    moreover obtain x xs where x: "showNat n = x # xs" by (cases "showNat n") auto
    moreover have "x \<noteq> CHR ''-''" using showNat_no_minus [of n xs] x by auto
    ultimately show ?thesis using c intPart_showNat [of n c rest] by (simp add: parseNumber_def showInt_def)
  qed
qed

lemma readsAs_showInt: "readsAs (showInt n) (JNum (showInt n))"
  unfolding readsAs_def
proof (intro allI impI)
  fix m d c rest assume c: "c \<in> set '',}''"
  obtain x xs where x: "showInt n = x # xs" by (cases "showInt n") (auto simp: showInt_def split: if_splits)
  have "x \<in> insert (CHR ''-'') digitSet"
    using x showNat_digits [of n] showNat_digits [of "- n"] by (auto simp: showInt_def split: if_splits)
  then have "\<not> isSpace x" "x \<noteq> CHR ''{''" "x \<noteq> CHR ''[''" "x \<noteq> quoteMark" "x \<noteq> CHR ''t''" "x \<noteq> CHR ''f''" "x \<noteq> CHR ''n''"
    by (auto simp: digitSet_def isSpace_def quoteMark_def)
  then show "parseValue (Suc m) d (showInt n @ c # rest) = Some (JNum (showInt n), c # rest)"
    using parseNumber_showInt [OF c, of n rest] by (simp add: x skipWs_def)
qed

end
