(* ===== verification/Observability.thy ===== *)
theory Observability
  imports JSON Policy KubeTypes
begin

text \<open>
  The observability surface of the node reconciler, \<open>internal/controller/observability.go\<close>
  and \<open>metrics.go\<close>: the status annotation and its JSON form, event reasons and messages,
  and the Prometheus series as a record of maps.
\<close>

section \<open>The status annotation\<close>

definition policyName :: string where
  "policyName = ''proportional-v1''"

record podStatus =
  psFactor :: string
  psSlack :: string
  psManagedRequests :: string
  psNodePods :: int64
  psTargetLimit :: string
  psPolicy :: string
  psDryRun :: bool
  psComputedAt :: string

definition zeroStatus :: podStatus where
  "zeroStatus = \<lparr>psFactor = '''', psSlack = '''', psManagedRequests = '''', psNodePods = 0, psTargetLimit = '''',
     psPolicy = '''', psDryRun = False, psComputedAt = ''''\<rparr>"

definition milliString :: "int64 \<Rightarrow> string" where
  "milliString m = showInt m @ ''m''"

definition buildPodStatus :: "NodeStats \<Rightarrow> int64 \<Rightarrow> int64 \<Rightarrow> bool \<Rightarrow> podStatus" where
  "buildPodStatus stats nodePods targetMilli dryRun =
     \<lparr>psFactor = showFixed2 (Factor stats), psSlack = milliString (SlackMilli stats),
      psManagedRequests = milliString (ManagedRequestsMilli stats), psNodePods = nodePods,
      psTargetLimit = milliString targetMilli, psPolicy = policyName, psDryRun = dryRun, psComputedAt = ''''\<rparr>"

text \<open>\<open>json.Marshal\<close> of the struct: the fields in order, \<open>dryRun\<close> left out when false.\<close>

definition jsonField :: "string \<Rightarrow> string \<Rightarrow> string" where
  "jsonField name rendered = quoteString name @ '':'' @ rendered"

definition marshalStatus :: "podStatus \<Rightarrow> string" where
  "marshalStatus s =
     ''{'' @ jsonField ''factor'' (quoteString (psFactor s))
     @ '','' @ jsonField ''slack'' (quoteString (psSlack s))
     @ '','' @ jsonField ''managedRequests'' (quoteString (psManagedRequests s))
     @ '','' @ jsonField ''nodePods'' (showInt (psNodePods s))
     @ '','' @ jsonField ''targetLimit'' (quoteString (psTargetLimit s))
     @ '','' @ jsonField ''policy'' (quoteString (psPolicy s))
     @ (if psDryRun s then '','' @ jsonField ''dryRun'' ''true'' else '''')
     @ '','' @ jsonField ''computedAt'' (quoteString (psComputedAt s)) @ ''}''"

text \<open>Keys are matched exactly or, failing that, under case folding, for which the
  long s (C5 BF) and the Kelvin sign (E2 84 AA) fold to ASCII letters.\<close>

definition upperASCII :: "char \<Rightarrow> char" where
  "upperASCII c = (if 97 \<le> byte c \<and> byte c \<le> 122 then charAt (byte c - 32) else c)"

fun foldName :: "string \<Rightarrow> string" where
  "foldName [] = []"
| "foldName (a # s) =
     (if a = CHR 0xC5 \<and> s \<noteq> [] \<and> hd s = CHR 0xBF then CHR ''S'' # foldName (tl s)
      else if a = CHR 0xE2 \<and> take 2 s = [CHR 0x84, CHR 0xAA] then CHR ''K'' # foldName (drop 2 s)
      else upperASCII a # foldName s)"

definition statusFields :: "string list" where
  "statusFields = [''factor'', ''slack'', ''managedRequests'', ''nodePods'', ''targetLimit'', ''policy'',
     ''dryRun'', ''computedAt'']"

definition matchField :: "string \<Rightarrow> string option" where
  "matchField key =
     (if key \<in> set statusFields then Some key
      else find (\<lambda>f. foldName f = foldName key) statusFields)"

text \<open>\<open>strconv.ParseInt\<close> of a JSON number: None for a fraction, an exponent or a value
  out of range.\<close>

fun readDigits :: "string \<Rightarrow> int \<Rightarrow> int option" where
  "readDigits [] acc = Some acc"
| "readDigits (c # cs) acc = (if isDig c then readDigits cs (acc * 10 + (byte c - 48)) else None)"

definition parseInt :: "string \<Rightarrow> int64 option" where
  "parseInt s =
     (let neg = (s \<noteq> [] \<and> hd s = CHR ''-''); ds = (if neg then tl s else s) in
      if ds = [] then None
      else case readDigits ds 0 of
          None \<Rightarrow> None
        | Some n \<Rightarrow> let v = (if neg then - n else n) in if in64 v then Some v else None)"

text \<open>Storing one member; the flag records a value of the wrong type, after which
  decoding goes on and \<open>Unmarshal\<close> returns an error at the end. A null leaves the field.\<close>

definition storeString :: "(string \<Rightarrow> podStatus \<Rightarrow> podStatus) \<Rightarrow> json \<Rightarrow> podStatus \<times> bool \<Rightarrow> podStatus \<times> bool" where
  "storeString upd v st =
     (case v of JStr s \<Rightarrow> (upd s (fst st), snd st) | JNull \<Rightarrow> st | _ \<Rightarrow> (fst st, False))"

definition storeField :: "string \<times> json \<Rightarrow> podStatus \<times> bool \<Rightarrow> podStatus \<times> bool" where
  "storeField kv st =
     (case matchField (fst kv) of
        None \<Rightarrow> st
      | Some f \<Rightarrow>
          let v = snd kv in
          if f = ''nodePods'' then
            (case v of
               JNum l \<Rightarrow> (case parseInt l of Some n \<Rightarrow> ((fst st)\<lparr>psNodePods := n\<rparr>, snd st) | None \<Rightarrow> (fst st, False))
             | JNull \<Rightarrow> st | _ \<Rightarrow> (fst st, False))
          else if f = ''dryRun'' then
            (case v of JBool b \<Rightarrow> ((fst st)\<lparr>psDryRun := b\<rparr>, snd st) | JNull \<Rightarrow> st | _ \<Rightarrow> (fst st, False))
          else if f = ''factor'' then storeString (\<lambda>s. psFactor_update (\<lambda>_. s)) v st
          else if f = ''slack'' then storeString (\<lambda>s. psSlack_update (\<lambda>_. s)) v st
          else if f = ''managedRequests'' then storeString (\<lambda>s. psManagedRequests_update (\<lambda>_. s)) v st
          else if f = ''targetLimit'' then storeString (\<lambda>s. psTargetLimit_update (\<lambda>_. s)) v st
          else if f = ''policy'' then storeString (\<lambda>s. psPolicy_update (\<lambda>_. s)) v st
          else storeString (\<lambda>s. psComputedAt_update (\<lambda>_. s)) v st)"

text \<open>\<open>json.Unmarshal\<close> into a zero status; None is an error.\<close>

definition unmarshalStatus :: "string \<Rightarrow> podStatus option" where
  "unmarshalStatus doc =
     (case parseJSON doc of
        Some (JObj members) \<Rightarrow> (let (s, ok) = fold storeField members (zeroStatus, True) in if ok then Some s else None)
      | Some JNull \<Rightarrow> Some zeroStatus
      | _ \<Rightarrow> None)"

section \<open>Events\<close>

definition reasonCPULimitAdjusted :: string where
  "reasonCPULimitAdjusted = ''CPULimitAdjusted''"

definition reasonResizeInfeasible :: string where
  "reasonResizeInfeasible = ''ResizeInfeasible''"

definition reasonResizeForbidden :: string where
  "reasonResizeForbidden = ''ResizeForbidden''"

definition reasonResizeLimitRange :: string where
  "reasonResizeLimitRange = ''ResizeLimitRangeDenied''"

definition reasonVPAManagesLimit :: string where
  "reasonVPAManagesLimit = ''VPAManagesLimit''"

definition actionResize :: string where
  "actionResize = ''Resizing''"

definition eventNoteLimit :: nat where
  "eventNoteLimit = 1024"

text \<open>The arrow is the bytes E2 86 92.\<close>

definition adjustMessage :: "int64 \<Rightarrow> int64 \<Rightarrow> NodeStats \<Rightarrow> bool \<Rightarrow> string" where
  "adjustMessage currentMilli targetMilli stats dryRun =
     (if dryRun then ''(dry-run) would adjust '' else '''') @ ''CPU limit '' @ milliString currentMilli
     @ '' '' @ [CHR 0xE2, CHR 0x86, CHR 0x92] @ '' '' @ milliString targetMilli
     @ '' (node factor '' @ showFixed2 (Factor stats) @ '', slack '' @ milliString (SlackMilli stats)
     @ ''/'' @ milliString (AllocatableMilli stats) @ '')''"

section \<open>Metrics\<close>

definition resultApplied :: string where
  "resultApplied = ''applied''"

definition resultDryRun :: string where
  "resultDryRun = ''dry-run''"

definition resultInfeasible :: string where
  "resultInfeasible = ''infeasible''"

definition resultQuotaDenied :: string where
  "resultQuotaDenied = ''quota-denied''"

definition resultLimitRangeDenied :: string where
  "resultLimitRangeDenied = ''limitrange-denied''"

definition resultForbidden :: string where
  "resultForbidden = ''forbidden''"

definition resultConflict :: string where
  "resultConflict = ''conflict''"

definition resultError :: string where
  "resultError = ''error''"

text \<open>The series of the registry by label values; the histogram of reconcile durations is
  not kept.\<close>

record Metrics =
  nodeFactor :: "(string, float64) gomap"
  nodeSlackCores :: "(string, float64) gomap"
  nodeManagedPods :: "(string, float64) gomap"
  nodeResizesDeferred :: "(string, float64) gomap"
  resizesTotal :: "(string, nat) gomap"
  podLimitCores :: "(string \<times> string, float64) gomap"
  podsManaged :: float64

text \<open>The registry after \<open>init\<close>, which creates one counter per outcome.\<close>

definition initMetrics :: Metrics where
  "initMetrics = \<lparr>nodeFactor = [], nodeSlackCores = [], nodeManagedPods = [], nodeResizesDeferred = [],
     resizesTotal = map (\<lambda>r. (r, 0)) [resultApplied, resultDryRun, resultInfeasible, resultQuotaDenied,
       resultLimitRangeDenied, resultForbidden, resultConflict, resultError],
     podLimitCores = [], podsManaged = F 0\<rparr>"

definition incResizes :: "string \<Rightarrow> Metrics \<Rightarrow> Metrics" where
  "incResizes result m =
     m\<lparr>resizesTotal := mput result (case mget (resizesTotal m) result of Some n \<Rightarrow> n + 1 | None \<Rightarrow> 1) (resizesTotal m)\<rparr>"

section \<open>The annotation reads back\<close>

lemma readDigits_append: "readDigits (a @ b) acc = (case readDigits a acc of None \<Rightarrow> None | Some n \<Rightarrow> readDigits b n)"
  by (induction a arbitrary: acc) auto

lemma byte_digitChar: "byte (digitChar n) - 48 = n mod 10"
proof -
  have "n mod 10 \<in> {0, 1, 2, 3, 4, 5, 6, 7, 8, 9}" by auto presburger
  then show ?thesis by (auto simp: digitChar_def byte_def)
qed

lemma readDigits_showNat: "0 \<le> n \<Longrightarrow> readDigits (showNat n) 0 = Some n"
proof (induction n rule: showNat.induct)
  case (1 n)
  have d: "isDig (digitChar n)" using digitChar_in by (simp add: isDig_digitSet)
  show ?case
  proof (cases "n < 10")
    case True
    then show ?thesis using d 1(2) by (simp add: showNat_less byte_digitChar)
  next
    case False
    have "0 \<le> n div 10" using 1(2) by (simp add: pos_imp_zdiv_nonneg_iff)
    then have "readDigits (showNat (n div 10)) 0 = Some (n div 10)" by (rule 1(1) [OF False])
    moreover have "n div 10 * 10 + n mod 10 = n" by simp
    ultimately show ?thesis using False d by (simp add: showNat_ge readDigits_append byte_digitChar)
  qed
qed

lemma parseInt_showInt: "in64 n \<Longrightarrow> parseInt (showInt n) = Some n"
proof (cases "n < 0")
  case False
  moreover obtain x xs where x: "showNat n = x # xs" by (cases "showNat n") auto
  moreover have "x \<noteq> CHR ''-''" using showNat_no_minus [of n xs] x by auto
  moreover have "readDigits (showNat n) 0 = Some n" using False by (simp add: readDigits_showNat)
  moreover assume "in64 n"
  ultimately show ?thesis by (simp add: parseInt_def showInt_def)
qed (simp add: parseInt_def showInt_def readDigits_showNat)

lemma statusFields_match: "f \<in> set statusFields \<Longrightarrow> matchField f = Some f"
  by (simp add: matchField_def)

lemma storeField_simps:
  "storeField (''factor'', JStr v) st = ((fst st)\<lparr>psFactor := v\<rparr>, snd st)"
  "storeField (''slack'', JStr v) st = ((fst st)\<lparr>psSlack := v\<rparr>, snd st)"
  "storeField (''managedRequests'', JStr v) st = ((fst st)\<lparr>psManagedRequests := v\<rparr>, snd st)"
  "storeField (''targetLimit'', JStr v) st = ((fst st)\<lparr>psTargetLimit := v\<rparr>, snd st)"
  "storeField (''policy'', JStr v) st = ((fst st)\<lparr>psPolicy := v\<rparr>, snd st)"
  "storeField (''computedAt'', JStr v) st = ((fst st)\<lparr>psComputedAt := v\<rparr>, snd st)"
  "storeField (''dryRun'', JBool b) st = ((fst st)\<lparr>psDryRun := b\<rparr>, snd st)"
  "in64 n \<Longrightarrow> storeField (''nodePods'', JNum (showInt n)) st = ((fst st)\<lparr>psNodePods := n\<rparr>, snd st)"
  by (simp_all add: storeField_def storeString_def statusFields_match statusFields_def parseInt_showInt)

definition statusMembers :: "podStatus \<Rightarrow> (string \<times> json) list" where
  "statusMembers s =
     [(''factor'', JStr (psFactor s)), (''slack'', JStr (psSlack s)), (''managedRequests'', JStr (psManagedRequests s)),
      (''nodePods'', JNum (showInt (psNodePods s))), (''targetLimit'', JStr (psTargetLimit s)),
      (''policy'', JStr (psPolicy s))]
     @ (if psDryRun s then [(''dryRun'', JBool True)] else [])
     @ [(''computedAt'', JStr (psComputedAt s))]"

lemma parseJSON_marshalStatus: "parseJSON (marshalStatus s) = Some (JObj (statusMembers s))"
proof -
  define n where "n = length (marshalStatus s)"
  have n: "20 \<le> n" by (simp add: n_def marshalStatus_def jsonField_def quoteString_def)
  obtain body where body: "marshalStatus s = CHR ''{'' # body" "body = tl (marshalStatus s)"
    by (simp add: marshalStatus_def)
  have "parseMembers n (Suc 0) body = Some (statusMembers s, [])"
    using n unfolding body(2) marshalStatus_def jsonField_def statusMembers_def
    by (cases "psDryRun s") (simp_all add: parseMembers_field [OF readsAs_string]
      parseMembers_field [OF readsAs_showInt] parseMembers_field [OF readsAs_true, simplified])
  moreover have "expectChar (CHR ''}'') body = None"
    by (simp add: body(2) marshalStatus_def jsonField_def quoteString_def expectChar_Cons) (simp add: quoteMark_def)
  ultimately have "parseValue (Suc n) 0 (marshalStatus s) = Some (JObj (statusMembers s), [])"
    unfolding body(1) by (simp add: skipWs_def maxNestingDepth_def)
  then show ?thesis by (simp add: parseJSON_def n_def skipWs_def)
qed

lemma unmarshal_marshal: "in64 (psNodePods s) \<Longrightarrow> unmarshalStatus (marshalStatus s) = Some s"
  unfolding unmarshalStatus_def parseJSON_marshalStatus statusMembers_def
  by (cases s) (simp add: storeField_simps zeroStatus_def)

text \<open>C24. Whatever the controller writes into the status annotation it reads back
  unchanged: \<open>json.Unmarshal\<close> after \<open>json.Marshal\<close> is the identity on every status whose pod
  count fits an \<open>int\<close>, for all strings in its fields.\<close>

theorem status_annotation_roundtrip:
  assumes "in64 (psNodePods s)"
  shows "unmarshalStatus (marshalStatus s) = Some s"
  using assms by (rule unmarshal_marshal)

theorem status_annotation_roundtrip_witness:
  "unmarshalStatus (marshalStatus (zeroStatus\<lparr>psNodePods := 12, psFactor := ''2.00'', psDryRun := True\<rparr>))
    = Some (zeroStatus\<lparr>psNodePods := 12, psFactor := ''2.00'', psDryRun := True\<rparr>)"
  by (rule status_annotation_roundtrip) (simp add: in64_def)

end
