(* ===== verification/NodeReconciler.thy ===== *)
theory NodeReconciler
  imports Observability PodInputs VPAPoller
begin

text \<open>
  The node reconciler, \<open>internal/controller/node_controller.go\<close> with \<open>writePodStatus\<close> and
  \<open>recordEvent\<close> of \<open>observability.go\<close>: its state as a record, one function per method, the
  state passed through.

  What the reconciler asks of the outside world is an environment of functions that take
  the number of the call, so every call may be answered differently: the cache may
  change, the clock may advance and the API server may fail between any two of them. What
  it does to the outside world is a trace of effects, in order. A panic is the result
  None, together with the state it was raised in.
\<close>

section \<open>State and environment\<close>

record podSeriesRef =
  srNamespace :: string
  srName :: string

text \<open>The apply body of a resize: the limits by container, in the two lists of the spec.\<close>

record ResizePatch =
  ptNamespace :: string
  ptName :: string
  ptContainers :: "(string \<times> Quantity) list"
  ptInitContainers :: "(string \<times> Quantity) list"
  ptFieldOwner :: string

datatype effect =
    StatusPatched string string
  | ResizePatched ResizePatch
  | EventRecorded string string string string string
  | Enqueued string Duration

text \<open>A nil \<open>Recorder\<close> is \<open>nrRecorder = False\<close>. The metrics are the process's registry.\<close>

record NodeReconciler =
  nrRecorder :: bool
  nrFieldManager :: string
  nrDebouncePeriod :: Duration
  nrBackoffPeriod :: Duration
  nrDynamicDebounce :: int64
  nrLimiters :: "(string, Limiter) gomap"
  nrBackoff :: "(string, Time) gomap"
  nrVPASkipped :: "(string, string) gomap"
  nrPodSeries :: "(string, (string, podSeriesRef) gomap) gomap"
  nrMetrics :: Metrics
  nrTick :: nat
  nrTrace :: "effect list"

text \<open>\<open>r.Patch\<close> decodes the server's answer into the pod it was given. \<open>envClock\<close> is the
  reconciler's clock, \<open>envWall\<close> is \<open>time.Now\<close>.\<close>

record nodeEnv =
  envVPAs :: "nat \<Rightarrow> Poller option"
  envConfig :: "nat \<Rightarrow> apiError + HeadroomConfig"
  envNode :: "nat \<Rightarrow> string \<Rightarrow> apiError + Node"
  envPodsOn :: "nat \<Rightarrow> string \<Rightarrow> apiError + Pod list"
  envNamespace :: "nat \<Rightarrow> string \<Rightarrow> apiError + Namespace"
  envLimitRanges :: "nat \<Rightarrow> string \<Rightarrow> apiError + LimitRange list"
  envPatchStatus :: "nat \<Rightarrow> Pod \<Rightarrow> string \<Rightarrow> apiError + Pod"
  envPatchResize :: "nat \<Rightarrow> ResizePatch \<Rightarrow> apiError option"
  envClock :: "nat \<Rightarrow> Time"
  envWall :: "nat \<Rightarrow> Time"
  envRand :: "nat \<Rightarrow> float64"
  envParseQuantity :: parser

text \<open>One call of the environment: its answer, and the state with the call counted.\<close>

definition ask :: "(nat \<Rightarrow> 'a) \<Rightarrow> NodeReconciler \<Rightarrow> 'a \<times> NodeReconciler" where
  "ask f st = (f (nrTick st), st\<lparr>nrTick := Suc (nrTick st)\<rparr>)"

definition emit :: "effect \<Rightarrow> NodeReconciler \<Rightarrow> NodeReconciler" where
  "emit e st = st\<lparr>nrTrace := nrTrace st @ [e]\<rparr>"

definition meter :: "(Metrics \<Rightarrow> Metrics) \<Rightarrow> NodeReconciler \<Rightarrow> NodeReconciler" where
  "meter f st = st\<lparr>nrMetrics := f (nrMetrics st)\<rparr>"

datatype goError = Plain apiError | Wrapped string apiError | Joined "goError list"

section \<open>Accessors with defaults\<close>

definition defaultFieldManager :: string where
  "defaultFieldManager = ''headroom''"

definition defaultDebouncePeriod :: Duration where
  "defaultDebouncePeriod = 2 * Second"

definition defaultBackoffPeriod :: Duration where
  "defaultBackoffPeriod = 60 * Second"

definition fieldManager :: "NodeReconciler \<Rightarrow> string" where
  "fieldManager r = (if nrFieldManager r \<noteq> '''' then nrFieldManager r else defaultFieldManager)"

definition debouncePeriod :: "NodeReconciler \<Rightarrow> Duration" where
  "debouncePeriod r = (if nrDebouncePeriod r > 0 then nrDebouncePeriod r else defaultDebouncePeriod)"

definition setDebounce :: "Duration \<Rightarrow> NodeReconciler \<Rightarrow> NodeReconciler" where
  "setDebounce d r = (if d > 0 then r\<lparr>nrDynamicDebounce := d\<rparr> else r)"

definition baseEnqueueDelay :: "NodeReconciler \<Rightarrow> Duration" where
  "baseEnqueueDelay r =
     (if nrDebouncePeriod r > 0 then nrDebouncePeriod r
      else if nrDynamicDebounce r > 0 then nrDynamicDebounce r
      else defaultDebouncePeriod)"

definition jitter :: "Duration \<Rightarrow> float64 \<Rightarrow> Duration" where
  "jitter base x = add64 base (int_of_float (fmul (fsub x (F (1 / 2))) (float_of_int base)))"

text \<open>\<open>envRand\<close> stands for whichever source the reconciler has, the injected one or the global one.\<close>

definition rand :: "nodeEnv \<Rightarrow> NodeReconciler \<Rightarrow> float64 \<times> NodeReconciler" where
  "rand env r = ask (envRand env) r"

definition enqueueDelay :: "nodeEnv \<Rightarrow> NodeReconciler \<Rightarrow> Duration \<times> NodeReconciler" where
  "enqueueDelay env r = (let (x, r) = rand env r in (jitter (baseEnqueueDelay r) x, r))"

definition backoffPeriod :: "NodeReconciler \<Rightarrow> Duration" where
  "backoffPeriod r = (if nrBackoffPeriod r > 0 then nrBackoffPeriod r else defaultBackoffPeriod)"

definition clock :: "nodeEnv \<Rightarrow> NodeReconciler \<Rightarrow> Time \<times> NodeReconciler" where
  "clock env r = ask (envClock env) r"

section \<open>Backoff\<close>

definition inBackoff :: "nodeEnv \<Rightarrow> Pod \<Rightarrow> NodeReconciler \<Rightarrow> bool \<times> NodeReconciler" where
  "inBackoff env pod r =
     (case mget (nrBackoff r) (podKey pod) of
        None \<Rightarrow> (False, r)
      | Some until \<Rightarrow>
          let (now, r) = clock env r in
          if now > until then (False, r\<lparr>nrBackoff := mdel (podKey pod) (nrBackoff r)\<rparr>) else (True, r))"

definition setBackoffKey :: "nodeEnv \<Rightarrow> string \<Rightarrow> NodeReconciler \<Rightarrow> NodeReconciler" where
  "setBackoffKey env key r =
     (let (now, r) = clock env r in r\<lparr>nrBackoff := mput key (now + backoffPeriod r) (nrBackoff r)\<rparr>)"

definition setBackoff :: "nodeEnv \<Rightarrow> Pod \<Rightarrow> NodeReconciler \<Rightarrow> NodeReconciler" where
  "setBackoff env pod r = setBackoffKey env (podKey pod) r"

text \<open>The earliest end of a window that is still open; the zero time when there is none.\<close>

definition nextExpiry :: "(string, Time) gomap \<Rightarrow> string list \<Rightarrow> Time \<Rightarrow> Time" where
  "nextExpiry backoff keys now =
     foldl (\<lambda>next key.
        case mget backoff key of
          None \<Rightarrow> next
        | Some until \<Rightarrow> if \<not> now > until \<and> (next = 0 \<or> until < next) then until else next) 0 keys"

definition backoffRequeue :: "nodeEnv \<Rightarrow> string list \<Rightarrow> Time \<Rightarrow> NodeReconciler \<Rightarrow> Duration \<times> NodeReconciler" where
  "backoffRequeue env keys now r =
     (let next = nextExpiry (nrBackoff r) keys now in
      if next = 0 then (0, r)
      else let (d, r) = enqueueDelay env r in (add64 (timeSub next now) d, r))"

section \<open>Events and the status annotation\<close>

definition EventTypeNormal :: string where
  "EventTypeNormal = ''Normal''"

definition EventTypeWarning :: string where
  "EventTypeWarning = ''Warning''"

definition recordEvent :: "Pod \<Rightarrow> string \<Rightarrow> string \<Rightarrow> string \<Rightarrow> NodeReconciler \<Rightarrow> NodeReconciler" where
  "recordEvent pod eventtype reason msg r =
     (if \<not> nrRecorder r then r
      else emit (EventRecorded (podKey pod) eventtype reason actionResize (take eventNoteLimit msg)) r)"

text \<open>The error, if any, and the pod as the patch left it.\<close>

definition writePodStatus :: "nodeEnv \<Rightarrow> Pod \<Rightarrow> podStatus \<Rightarrow> NodeReconciler \<Rightarrow>
    apiError option \<times> Pod \<times> NodeReconciler" where
  "writePodStatus env pod desired r =
     (let prevRaw = strGet (pAnnotations pod) AnnotationStatus;
          unchanged = (prevRaw \<noteq> '''' \<and>
            (case unmarshalStatus prevRaw of
               None \<Rightarrow> False
             | Some prev \<Rightarrow> prev\<lparr>psComputedAt := ''''\<rparr> = desired\<lparr>psComputedAt := ''''\<rparr>))
      in if unchanged then (None, pod, r)
         else
           let (now, r) = clock env r;
               data = marshalStatus (desired\<lparr>psComputedAt := formatRFC3339 now\<rparr>);
               r = emit (StatusPatched (podKey pod) data) r;
               (answer, r) = ask (\<lambda>n. envPatchStatus env n pod data) r
           in (case answer of Inl e \<Rightarrow> (Some e, pod, r) | Inr pod' \<Rightarrow> (None, pod', r)))"

definition noteVPASkip :: "Pod \<Rightarrow> string \<Rightarrow> NodeReconciler \<Rightarrow> NodeReconciler" where
  "noteVPASkip pod vpa r =
     (if vpa = '''' then r\<lparr>nrVPASkipped := mdel (pUID pod) (nrVPASkipped r)\<rparr>
      else
        let previous = mget (nrVPASkipped r) (pUID pod);
            r = r\<lparr>nrVPASkipped := mput (pUID pod) vpa (nrVPASkipped r)\<rparr>
        in if previous = Some vpa then r
           else recordEvent pod EventTypeWarning reasonVPAManagesLimit
             (''VerticalPodAutoscaler '' @ vpa
              @ '' can write this pod's CPU limit, so Headroom will not manage the pod; ''
              @ ''set controlledValues: RequestsOnly on it to use both'') r)"

section \<open>Configuration\<close>

record resolvedConfig =
  rcPolicy :: Config
  rcSpec :: HeadroomConfigSpec
  rcDryRun :: bool
  rcPerNodePPS :: float64
  rcDebouncePeriod :: Duration

text \<open>The zero \<open>HeadroomConfigSpec\<close>, which a resolved configuration carries when there
  is no object.\<close>

definition zeroSpec :: HeadroomConfigSpec where
  "zeroSpec = \<lparr>specPolicy = '''', specDryRun = None, specMinBurstFloor = zeroQ, specMaxMultiplier = zeroQ,
     specQuantum = zeroQ, specDeadband = \<lparr>GrowPercent = 0, ShrinkPercent = 0\<rparr>, specDebouncePeriod = 0,
     specRateLimits = \<lparr>PerNodePatchesPerSecond = 0, ClientQPS = 0, ClientBurst = 0\<rparr>,
     specWebhook = \<lparr>whEnabled = None, whInitialMultiplier = zeroQ\<rparr>, specNamespaceSelector = None,
     specExcludedNamespaces = [], specExcludedOwners = [], specExcludedNodeSelector = None\<rparr>"

definition resolveConfig :: "HeadroomConfig \<Rightarrow> Duration \<Rightarrow> resolvedConfig" where
  "resolveConfig hc fallbackDebounce =
     (let s = hcSpec hc;
          cfg = \<lparr>MinBurstFloorMilli = MilliValue (specMinBurstFloor s),
                 MaxMultiplier = AsApproximateFloat64 (specMaxMultiplier s),
                 DeadbandGrow = fdiv (float_of_int (GrowPercent (specDeadband s))) (F 100),
                 DeadbandShrink = fdiv (float_of_int (ShrinkPercent (specDeadband s))) (F 100),
                 QuantumMilli = MilliValue (specQuantum s)\<rparr>;
          dryRun = (case specDryRun s of Some b \<Rightarrow> b | None \<Rightarrow> True);
          pps = float_of_int (PerNodePatchesPerSecond (specRateLimits s));
          pps = (if fle pps (F 0) then F 10 else pps);
          debounce = (if specDebouncePeriod s \<le> 0 then fallbackDebounce else specDebouncePeriod s)
      in \<lparr>rcPolicy = cfg, rcSpec = s, rcDryRun = dryRun, rcPerNodePPS = pps, rcDebouncePeriod = debounce\<rparr>)"

definition loadConfig :: "nodeEnv \<Rightarrow> NodeReconciler \<Rightarrow> (apiError + resolvedConfig) \<times> NodeReconciler" where
  "loadConfig env r =
     (let (answer, r) = ask (envConfig env) r in
      (case answer of
         Inl (NotFound m) \<Rightarrow>
           Inr \<lparr>rcPolicy = DefaultConfig, rcSpec = zeroSpec, rcDryRun = True, rcPerNodePPS = F 10,
                rcDebouncePeriod = debouncePeriod r\<rparr>
       | Inl e \<Rightarrow> Inl e
       | Inr hc \<Rightarrow> Inr (resolveConfig hc (debouncePeriod r)), r))"

section \<open>Rate limiting\<close>

definition limiterFor :: "nodeEnv \<Rightarrow> string \<Rightarrow> float64 \<Rightarrow> NodeReconciler \<Rightarrow> Limiter \<times> NodeReconciler" where
  "limiterFor env node pps r =
     (case mget (nrLimiters r) node of
        None \<Rightarrow>
          let bucket = NewLimiter pps (int_of_float pps) in
          (bucket, r\<lparr>nrLimiters := mput node bucket (nrLimiters r)\<rparr>)
      | Some bucket \<Rightarrow>
          if \<not> feq (limLimit bucket) pps then
            let (t1, r) = ask (envWall env) r; bucket = SetLimitAt bucket t1 pps;
                (t2, r) = ask (envWall env) r; bucket = SetBurstAt bucket t2 (int_of_float pps)
            in (bucket, r\<lparr>nrLimiters := mput node bucket (nrLimiters r)\<rparr>)
          else (bucket, r))"

text \<open>\<open>limiter.Allow()\<close> on the bucket the node's entry points to.\<close>

definition allowPatch :: "nodeEnv \<Rightarrow> string \<Rightarrow> Limiter \<Rightarrow> NodeReconciler \<Rightarrow> bool \<times> Limiter \<times> NodeReconciler" where
  "allowPatch env node bucket r =
     (let (t, r) = ask (envWall env) r; (ok, bucket) = AllowN bucket t 1
      in (ok, bucket, r\<lparr>nrLimiters := mput node bucket (nrLimiters r)\<rparr>))"

section \<open>Accounting of managed pods\<close>

definition refreshPodsManagedLocked :: "NodeReconciler \<Rightarrow> NodeReconciler" where
  "refreshPodsManagedLocked r =
     (let tot = foldl (\<lambda>n s. n + int (length (snd s))) 0 (nrPodSeries r)
      in meter (\<lambda>m. m\<lparr>podsManaged := float_of_int tot\<rparr>) r)"

definition deletePodSeries :: "podSeriesRef list \<Rightarrow> Metrics \<Rightarrow> Metrics" where
  "deletePodSeries refs m =
     m\<lparr>podLimitCores := fold (\<lambda>s. mdel (srNamespace s, srName s)) refs (podLimitCores m)\<rparr>"

definition seriesOf :: "NodeReconciler \<Rightarrow> string \<Rightarrow> (string, podSeriesRef) gomap" where
  "seriesOf r node = (case mget (nrPodSeries r) node of Some s \<Rightarrow> s | None \<Rightarrow> [])"

definition syncPodMetrics :: "string \<Rightarrow> (string, podSeriesRef) gomap \<Rightarrow> NodeReconciler \<Rightarrow> NodeReconciler" where
  "syncPodMetrics node current r =
     (let gone = map snd (filter (\<lambda>(key, s). mget current key = None) (seriesOf r node));
          r = meter (deletePodSeries gone) r;
          r = r\<lparr>nrPodSeries := (if current = [] then mdel node (nrPodSeries r)
                                   else mput node current (nrPodSeries r))\<rparr>
      in refreshPodsManagedLocked r)"

definition forgetNode :: "string \<Rightarrow> NodeReconciler \<Rightarrow> NodeReconciler" where
  "forgetNode node r =
     (let r = r\<lparr>nrLimiters := mdel node (nrLimiters r)\<rparr>;
          r = meter (deletePodSeries (map snd (seriesOf r node))) r;
          r = r\<lparr>nrPodSeries := mdel node (nrPodSeries r)\<rparr>;
          r = refreshPodsManagedLocked r
      in meter (\<lambda>m. m\<lparr>nodeFactor := mdel node (nodeFactor m), nodeSlackCores := mdel node (nodeSlackCores m),
                       nodeManagedPods := mdel node (nodeManagedPods m),
                       nodeResizesDeferred := mdel node (nodeResizesDeferred m)\<rparr>) r)"

definition ManagedCounts :: "NodeReconciler \<Rightarrow> int \<times> int" where
  "ManagedCounts r =
     foldl (\<lambda>(pods, nodes) s. if snd s = [] then (pods, nodes) else (pods + int (length (snd s)), nodes + 1))
       (0, 0) (nrPodSeries r)"

section \<open>Applying a resize\<close>

definition resizeBody :: "Pod \<Rightarrow> ResizableContainer list \<Rightarrow> (string, int64) gomap \<Rightarrow> string \<Rightarrow> ResizePatch" where
  "resizeBody pod rcs perContainer owner =
     (let limits = (\<lambda>init. concat (map (\<lambda>c. case mget perContainer (rcName c) of
              None \<Rightarrow> []
            | Some m \<Rightarrow> if list_ex (\<lambda>i. cName i = rcName c) (pInitContainers pod) = init
                         then [(rcName c, NewMilliQuantity m)] else []) rcs))
      in \<lparr>ptNamespace = pNamespace pod, ptName = pName pod, ptContainers = limits False,
          ptInitContainers = limits True, ptFieldOwner = owner\<rparr>)"

definition applyResize :: "nodeEnv \<Rightarrow> Pod \<Rightarrow> int64 \<Rightarrow> NodeReconciler \<Rightarrow> apiError option option \<times> NodeReconciler" where
  "applyResize env pod targetMilli r =
     (let rcs = ResizableContainers pod in
      case splitLimit targetMilli rcs of
        None \<Rightarrow> (None, r)
      | Some perContainer \<Rightarrow>
          if perContainer = [] then (Some None, r)
          else
            let patch = resizeBody pod rcs perContainer (fieldManager r);
                r = emit (ResizePatched patch) r;
                (answer, r) = ask (\<lambda>n. envPatchResize env n patch) r
            in (Some answer, r))"

definition forbiddenOutcome :: "string \<Rightarrow> string \<times> string \<times> string" where
  "forbiddenOutcome msg =
     (let has = list_ex (strContains msg) in
      if has ['' usage per '', '' max limit to request ratio per '', ''error enforcing limit ranges'']
      then (resultLimitRangeDenied, reasonResizeLimitRange, ''a LimitRange'')
      else if has [''exceeded quota'', ''failed quota'', ''status unknown for quota'', ''insufficient quota'',
                   ''quota usage is negative'']
      then (resultQuotaDenied, reasonResizeForbidden, ''a ResourceQuota'')
      else (resultForbidden, reasonResizeForbidden, ''the apiserver''))"

text \<open>\<open>(rateLimited, handled)\<close>\<close>

definition classifyResizeError :: "nodeEnv \<Rightarrow> Pod \<Rightarrow> string \<Rightarrow> apiError \<Rightarrow> NodeReconciler \<Rightarrow>
    (bool \<times> bool) \<times> NodeReconciler" where
  "classifyResizeError env pod key err r =
     (case err of
        NotFound m \<Rightarrow> ((False, True), r)
      | Conflict m \<Rightarrow> ((True, True), meter (incResizes resultConflict) r)
      | Forbidden m \<Rightarrow>
          let (result, reason, refusedBy) = forbiddenOutcome (errorText err);
              r = meter (incResizes result) r;
              r = recordEvent pod EventTypeWarning reason
                    (''CPU-limit resize refused by '' @ refusedBy @ ''; backing off ''
                     @ durationString (backoffPeriod r) @ '': '' @ errorText err) r
          in ((False, True), setBackoffKey env key r)
      | _ \<Rightarrow> ((False, False), r))"

definition podResizeInfeasible :: "Pod \<Rightarrow> bool" where
  "podResizeInfeasible pod =
     list_ex (\<lambda>c. pcType c = ''PodResizePending'' \<and> pcReason c = ''Infeasible'') (pConditions pod)"

definition podResizeDeferred :: "Pod \<Rightarrow> bool" where
  "podResizeDeferred pod =
     list_ex (\<lambda>c. pcType c = ''PodResizePending'' \<and> pcReason c = ''Deferred'') (pConditions pod)"

definition countDeferred :: "PodInput list \<Rightarrow> (string, Pod) gomap \<Rightarrow> int" where
  "countDeferred inputs byKey =
     foldl (\<lambda>n inp. case mget byKey (Key inp) of
         Some pod \<Rightarrow> if Managed inp \<and> podResizeDeferred pod then n + 1 else n
       | None \<Rightarrow> n) 0 inputs"

section \<open>Inputs of the policy\<close>

text \<open>The locals of \<open>buildInputs\<close>: the two caches by namespace and the results so far.\<close>

record inputsAcc =
  iaManaged :: "(string, bool) gomap"
  iaLimitRanges :: "(string, LimitRange list) gomap"
  iaInputs :: "PodInput list"
  iaByKey :: "(string, Pod) gomap"

text \<open>The namespace's verdict, read once per reconcile.\<close>

definition lookupNamespace :: "nodeEnv \<Rightarrow> resolvedConfig \<Rightarrow> Pod \<Rightarrow> inputsAcc \<Rightarrow> NodeReconciler \<Rightarrow>
    (goError + bool \<times> inputsAcc) \<times> NodeReconciler" where
  "lookupNamespace env cfg pod acc r =
     (case mget (iaManaged acc) (pNamespace pod) of
        Some ok \<Rightarrow> (Inr (ok, acc), r)
      | None \<Rightarrow>
          let (answer, r) = ask (\<lambda>n. envNamespace env n (pNamespace pod)) r;
              store = (\<lambda>ok. Inr (ok, acc\<lparr>iaManaged := mput (pNamespace pod) ok (iaManaged acc)\<rparr>))
          in (case answer of
                Inl (NotFound m) \<Rightarrow> store False
              | Inl e \<Rightarrow> Inl (Wrapped (''get namespace '' @ pNamespace pod) e)
              | Inr ns \<Rightarrow> store (NamespaceManaged ns (rcSpec cfg)), r))"

text \<open>The verdict on one pod: \<open>(managed, holdsShare)\<close>.\<close>

definition judgePod :: "nodeEnv \<Rightarrow> resolvedConfig \<Rightarrow> bool \<Rightarrow> Pod \<Rightarrow> ResizableContainer list \<Rightarrow> inputsAcc \<Rightarrow>
    NodeReconciler \<Rightarrow> (goError + (bool \<times> bool) \<times> inputsAcc) \<times> NodeReconciler" where
  "judgePod env cfg nodeManaged pod rcs acc r =
     (if nodeManaged \<and> Eligible pod rcs \<and> \<not> OwnerExcluded pod (specExcludedOwners (rcSpec cfg)) then
        let (backedOff, r) = inBackoff env pod r in
        case lookupNamespace env cfg pod acc r of
          (Inl e, r) \<Rightarrow> (Inl e, r)
        | (Inr (ok, acc), r) \<Rightarrow>
            if ok then
              let (vpas, r) = ask (envVPAs env) r;
                  vpa = LimitManagingVPA pod rcs (ForNamespace vpas (pNamespace pod));
                  r = noteVPASkip pod vpa r;
                  ok = (vpa = '''')
              in (Inr ((ok \<and> \<not> backedOff, ok \<and> backedOff), acc), r)
            else (Inr ((False, False), acc), r)
      else (Inr ((False, False), acc), r))"

definition noteInfeasible :: "nodeEnv \<Rightarrow> Pod \<Rightarrow> NodeReconciler \<Rightarrow> NodeReconciler" where
  "noteInfeasible env pod r =
     (let r = meter (incResizes resultInfeasible) r;
          r = recordEvent pod EventTypeWarning reasonResizeInfeasible
                (''kubelet reports the CPU-limit resize is infeasible; backing off ''
                 @ durationString (backoffPeriod r)) r
      in setBackoff env pod r)"

text \<open>The LimitRanges of a managed pod's namespace, listed once per reconcile.\<close>

definition lookupLimitRanges :: "nodeEnv \<Rightarrow> Pod \<Rightarrow> inputsAcc \<Rightarrow> NodeReconciler \<Rightarrow>
    (goError + LimitRange list \<times> inputsAcc) \<times> NodeReconciler" where
  "lookupLimitRanges env pod acc r =
     (case mget (iaLimitRanges acc) (pNamespace pod) of
        Some lrs \<Rightarrow> (Inr (lrs, acc), r)
      | None \<Rightarrow>
          let (answer, r) = ask (\<lambda>n. envLimitRanges env n (pNamespace pod)) r in
          (case answer of
             Inl e \<Rightarrow> Inl (Wrapped (''list limitranges in '' @ pNamespace pod) e)
           | Inr lrs \<Rightarrow> Inr (lrs, acc\<lparr>iaLimitRanges := mput (pNamespace pod) lrs (iaLimitRanges acc)\<rparr>), r))"

definition addInput :: "Pod \<Rightarrow> PodInput \<Rightarrow> inputsAcc \<Rightarrow> inputsAcc" where
  "addInput pod inp acc =
     acc\<lparr>iaInputs := iaInputs acc @ [inp], iaByKey := mput (podKey pod) pod (iaByKey acc)\<rparr>"

definition inputOfPod :: "nodeEnv \<Rightarrow> resolvedConfig \<Rightarrow> bool \<Rightarrow> Pod \<Rightarrow> inputsAcc \<Rightarrow> NodeReconciler \<Rightarrow>
    (goError + inputsAcc) \<times> NodeReconciler" where
  "inputOfPod env cfg nodeManaged pod acc r =
     (if PodTerminal pod then (Inr acc, r)
      else
        let rcs = ResizableContainers pod in
        case judgePod env cfg nodeManaged pod rcs acc r of
          (Inl e, r) \<Rightarrow> (Inl e, r)
        | (Inr ((managed, holdsShare), acc), r) \<Rightarrow>
            let (managed, holdsShare, r) =
                  (if managed \<and> podResizeInfeasible pod then (False, True, noteInfeasible env pod r)
                   else (managed, holdsShare, r));
                inp = (buildPodInput (envParseQuantity env) pod rcs managed)\<lparr>HoldsShare := holdsShare\<rparr>
            in if managed then
                 (case lookupLimitRanges env pod acc r of
                    (Inl e, r) \<Rightarrow> (Inl e, r)
                  | (Inr (lrs, acc), r) \<Rightarrow>
                      (Inr (addInput pod (inp\<lparr>LimitRangeCap := LimitRangeCapMilli pod rcs lrs\<rparr>) acc), r))
               else (Inr (addInput pod inp acc), r))"

fun inputsLoop :: "nodeEnv \<Rightarrow> resolvedConfig \<Rightarrow> bool \<Rightarrow> Pod list \<Rightarrow> inputsAcc \<Rightarrow> NodeReconciler \<Rightarrow>
    (goError + inputsAcc) \<times> NodeReconciler" where
  "inputsLoop env cfg nodeManaged [] acc r = (Inr acc, r)"
| "inputsLoop env cfg nodeManaged (pod # pods) acc r =
     (case inputOfPod env cfg nodeManaged pod acc r of
        (Inl e, r) \<Rightarrow> (Inl e, r)
      | (Inr acc, r) \<Rightarrow> inputsLoop env cfg nodeManaged pods acc r)"

definition buildInputs :: "nodeEnv \<Rightarrow> resolvedConfig \<Rightarrow> Pod list \<Rightarrow> bool \<Rightarrow> NodeReconciler \<Rightarrow>
    (goError + PodInput list \<times> (string, Pod) gomap) \<times> NodeReconciler" where
  "buildInputs env cfg pods nodeManaged r =
     (case inputsLoop env cfg nodeManaged pods \<lparr>iaManaged = [], iaLimitRanges = [], iaInputs = [], iaByKey = []\<rparr> r of
        (Inl e, r) \<Rightarrow> (Inl e, r)
      | (Inr acc, r) \<Rightarrow> (Inr (iaInputs acc, iaByKey acc), r))"

section \<open>Reconcile\<close>

definition publishNode :: "string \<Rightarrow> NodeStats \<Rightarrow> Decision list \<Rightarrow> PodInput list \<Rightarrow> (string, Pod) gomap \<Rightarrow>
    Metrics \<Rightarrow> Metrics" where
  "publishNode node stats decisions inputs byKey m =
     m\<lparr>nodeFactor := mput node (Factor stats) (nodeFactor m),
       nodeSlackCores := mput node (fdiv (float_of_int (SlackMilli stats)) (F 1000)) (nodeSlackCores m),
       nodeManagedPods := mput node (float_of_int (int (length decisions))) (nodeManagedPods m),
       nodeResizesDeferred := mput node (float_of_int (countDeferred inputs byKey)) (nodeResizesDeferred m)\<rparr>"

text \<open>The per-pod gauges, and the map of the series this node exports now.\<close>

definition publishPods :: "Decision list \<Rightarrow> (string, Pod) gomap \<Rightarrow> Metrics \<Rightarrow>
    Metrics \<times> (string, podSeriesRef) gomap" where
  "publishPods decisions byKey m =
     fold (\<lambda>d (m, current).
        case mget byKey (DKey d) of
          None \<Rightarrow> (m, current)
        | Some pod \<Rightarrow>
            (m\<lparr>podLimitCores := mput (pNamespace pod, pName pod) (fdiv (float_of_int (TargetLimitMilli d)) (F 1000))
                                  (podLimitCores m)\<rparr>,
             mput (DKey d) \<lparr>srNamespace = pNamespace pod, srName = pName pod\<rparr> current)) decisions (m, [])"

text \<open>The body of the loop over the decisions: it goes on, with whether the node must come
  back soon and the error to report, or it breaks off, or it panics.\<close>

datatype loopStep = Next bool "goError list" | Break | Panic

definition applyOne :: "nodeEnv \<Rightarrow> string \<Rightarrow> resolvedConfig \<Rightarrow> NodeStats \<Rightarrow> int64 \<Rightarrow> Decision \<Rightarrow> (string, Pod) gomap \<Rightarrow>
    Limiter \<Rightarrow> NodeReconciler \<Rightarrow> loopStep \<times> (string, Pod) gomap \<times> Limiter \<times> NodeReconciler" where
  "applyOne env node cfg stats nodePods d byKey bucket r =
     (case mget byKey (DKey d) of
        None \<Rightarrow> (Next False [], byKey, bucket, r)
      | Some pod \<Rightarrow>
          let status = buildPodStatus stats nodePods (TargetLimitMilli d) (rcDryRun cfg);
              (e, pod, r) = writePodStatus env pod status r;
              byKey = mput (DKey d) pod byKey
          in if \<not> Apply d then (Next False [], byKey, bucket, r)
             else
               let currentMilli = PodCurrentLimitMilli (ResizableContainers pod) in
               if rcDryRun cfg then
                 let r = meter (incResizes resultDryRun) r;
                     r = recordEvent pod EventTypeNormal reasonCPULimitAdjusted
                           (adjustMessage currentMilli (TargetLimitMilli d) stats True) r
                 in (Next False [], byKey, bucket, r)
               else
                 let (ok, bucket, r) = allowPatch env node bucket r in
                 if \<not> ok then (Break, byKey, bucket, r)
                 else case applyResize env pod (TargetLimitMilli d) r of
                     (None, r) \<Rightarrow> (Panic, byKey, bucket, r)
                   | (Some (Some err), r) \<Rightarrow>
                       let ((res, handled), r) = classifyResizeError env pod (DKey d) err r in
                       if handled then (Next res [], byKey, bucket, r)
                       else (Next False [Wrapped (''resize '' @ DKey d) err], byKey, bucket,
                             meter (incResizes resultError) r)
                   | (Some None, r) \<Rightarrow>
                       let r = meter (incResizes resultApplied) r;
                           r = recordEvent pod EventTypeNormal reasonCPULimitAdjusted
                                 (adjustMessage currentMilli (TargetLimitMilli d) stats False) r
                       in (Next False [], byKey, bucket, r))"

fun applyLoop :: "nodeEnv \<Rightarrow> string \<Rightarrow> resolvedConfig \<Rightarrow> NodeStats \<Rightarrow> int64 \<Rightarrow> Decision list \<Rightarrow> (string, Pod) gomap \<Rightarrow>
    Limiter \<Rightarrow> bool \<Rightarrow> goError list \<Rightarrow> NodeReconciler \<Rightarrow> (bool \<times> goError list) option \<times> NodeReconciler" where
  "applyLoop env node cfg stats nodePods [] byKey bucket rateLimited errs r = (Some (rateLimited, errs), r)"
| "applyLoop env node cfg stats nodePods (d # ds) byKey bucket rateLimited errs r =
     (case applyOne env node cfg stats nodePods d byKey bucket r of
        (Next res es, byKey, bucket, r) \<Rightarrow>
          applyLoop env node cfg stats nodePods ds byKey bucket (rateLimited \<or> res) (errs @ es) r
      | (Break, byKey, bucket, r) \<Rightarrow> (Some (True, errs), r)
      | (Panic, byKey, bucket, r) \<Rightarrow> (None, r))"

record reconcileResult =
  RequeueAfter :: Duration
  resErr :: "goError option"

definition requeue :: "Duration \<Rightarrow> reconcileResult" where
  "requeue d = \<lparr>RequeueAfter = d, resErr = None\<rparr>"

definition failed :: "goError \<Rightarrow> reconcileResult" where
  "failed e = \<lparr>RequeueAfter = 0, resErr = Some e\<rparr>"

text \<open>The part of \<open>Reconcile\<close> from the list of pods on.\<close>

definition reconcilePods :: "nodeEnv \<Rightarrow> string \<Rightarrow> resolvedConfig \<Rightarrow> int64 \<Rightarrow> bool \<Rightarrow> Pod list \<Rightarrow> NodeReconciler \<Rightarrow>
    reconcileResult option \<times> NodeReconciler" where
  "reconcilePods env node cfg allocatableMilli nodeManaged pods r =
     (let (judgedAt, r) = clock env r in
      case buildInputs env cfg pods nodeManaged r of
        (Inl e, r) \<Rightarrow> (Some (failed e), r)
      | (Inr (inputs, byKey), r) \<Rightarrow>
          let (stats, decisions) = Compute allocatableMilli inputs (rcPolicy cfg);
              r = meter (publishNode node stats decisions inputs byKey) r;
              (m, current) = publishPods decisions byKey (nrMetrics r);
              r = syncPodMetrics node current (r\<lparr>nrMetrics := m\<rparr>);
              (bucket, r) = limiterFor env node (rcPerNodePPS cfg) r
          in case applyLoop env node cfg stats (int (length inputs)) decisions byKey bucket False [] r of
               (None, r) \<Rightarrow> (None, r)
             | (Some (rateLimited, errs), r) \<Rightarrow>
                 if errs \<noteq> [] then (Some (failed (Joined errs)), r)
                 else if rateLimited then (Some (requeue Second), r)
                 else let (d, r) = backoffRequeue env (map fst byKey) judgedAt r in (Some (requeue d), r))"

definition Reconcile :: "nodeEnv \<Rightarrow> string \<Rightarrow> NodeReconciler \<Rightarrow> reconcileResult option \<times> NodeReconciler" where
  "Reconcile env node r =
     (let (vpas, r) = ask (envVPAs env) r in
      if \<not> Synced vpas then (Some (requeue Second), r)
      else case loadConfig env r of
          (Inl e, r) \<Rightarrow> (Some (failed (Wrapped ''load config'' e)), r)
        | (Inr cfg, r) \<Rightarrow>
            let r = setDebounce (rcDebouncePeriod cfg) r;
                (answer, r) = ask (\<lambda>n. envNode env n node) r
            in case answer of
                Inl (NotFound m) \<Rightarrow> (Some (requeue 0), forgetNode node r)
              | Inl e \<Rightarrow> (Some (failed (Wrapped (''get node '' @ node) e)), r)
              | Inr nd \<Rightarrow>
                  let allocatableMilli = MilliValue (Cpu (nAllocatable nd));
                      nodeManaged = NodeManageable nd (rcSpec cfg);
                      (answer, r) = ask (\<lambda>n. envPodsOn env n node) r
                  in case answer of
                       Inl e \<Rightarrow> (Some (failed (Wrapped (''list pods on node '' @ node) e)), r)
                     | Inr pods \<Rightarrow> reconcilePods env node cfg allocatableMilli nodeManaged pods r)"

section \<open>The reconciler of the program\<close>

text \<open>The reconciler \<open>main\<close> constructs: a recorder, and every knob and map at its zero value.\<close>

definition newNodeReconciler :: NodeReconciler where
  "newNodeReconciler = \<lparr>nrRecorder = True, nrFieldManager = '''', nrDebouncePeriod = 0, nrBackoffPeriod = 0,
     nrDynamicDebounce = 0, nrLimiters = [], nrBackoff = [], nrVPASkipped = [], nrPodSeries = [],
     nrMetrics = initMetrics, nrTick = 0, nrTrace = []\<rparr>"

section \<open>Watches\<close>

text \<open>An update event carries two objects; None is an object of another type.\<close>

definition podUpdateRelevant :: "parser \<Rightarrow> Pod option \<Rightarrow> Pod option \<Rightarrow> bool" where
  "podUpdateRelevant parseQuantity oldObj newObj =
     (case (oldObj, newObj) of
        (Some oldPod, Some newPod) \<Rightarrow>
          if pNodeName oldPod \<noteq> pNodeName newPod then True
          else if PodBookedCPUMilli oldPod \<noteq> PodBookedCPUMilli newPod then True
          else if PodTerminal oldPod \<noteq> PodTerminal newPod then True
          else if podResizeDeferred oldPod \<noteq> podResizeDeferred newPod then True
          else if podResizeInfeasible oldPod \<noteq> podResizeInfeasible newPod then True
          else if OptedOut oldPod \<noteq> OptedOut newPod
               \<or> podUserCapMilli parseQuantity oldPod \<noteq> podUserCapMilli parseQuantity newPod
               \<or> pOwnerReferences oldPod \<noteq> pOwnerReferences newPod then True
          else PodCPURequestMilli (ResizableContainers oldPod) \<noteq> PodCPURequestMilli (ResizableContainers newPod)
      | _ \<Rightarrow> False)"

text \<open>\<open>maps.Equal\<close>\<close>

definition mapsEqual :: "('k, 'v) gomap \<Rightarrow> ('k, 'v) gomap \<Rightarrow> bool" where
  "mapsEqual a b \<longleftrightarrow> length a = length b \<and> list_all (\<lambda>(k, v). mget b k = Some v) a"

definition nodeUpdateRelevant :: "Node option \<Rightarrow> Node option \<Rightarrow> bool" where
  "nodeUpdateRelevant oldObj newObj =
     (case (oldObj, newObj) of
        (Some oldNode, Some newNode) \<Rightarrow>
          MilliValue (Cpu (nAllocatable oldNode)) \<noteq> MilliValue (Cpu (nAllocatable newNode))
          \<or> \<not> mapsEqual (nLabels oldNode) (nLabels newNode)
      | _ \<Rightarrow> False)"

definition nodeToRequests :: "Node \<Rightarrow> string list" where
  "nodeToRequests nd = [nName nd]"

definition addAfter :: "nodeEnv \<Rightarrow> string \<Rightarrow> NodeReconciler \<Rightarrow> NodeReconciler" where
  "addAfter env node r = (let (d, r) = enqueueDelay env r in emit (Enqueued node d) r)"

definition enqueueNode :: "nodeEnv \<Rightarrow> string \<Rightarrow> NodeReconciler \<Rightarrow> NodeReconciler" where
  "enqueueNode env nodeName r = (if nodeName = '''' then r else addAfter env nodeName r)"

datatype podEvent = PodCreated Pod | PodUpdated Pod Pod | PodDeleted Pod | PodGeneric Pod

definition podEventHandler :: "nodeEnv \<Rightarrow> podEvent \<Rightarrow> NodeReconciler \<Rightarrow> NodeReconciler" where
  "podEventHandler env ev r =
     (case ev of
        PodCreated pod \<Rightarrow> enqueueNode env (pNodeName pod) r
      | PodUpdated old new \<Rightarrow>
          let r = enqueueNode env (pNodeName new) r in
          if pNodeName old \<noteq> '''' \<and> pNodeName old \<noteq> pNodeName new then enqueueNode env (pNodeName old) r else r
      | PodDeleted pod \<Rightarrow>
          enqueueNode env (pNodeName pod) (r\<lparr>nrVPASkipped := mdel (pUID pod) (nrVPASkipped r)\<rparr>)
      | PodGeneric pod \<Rightarrow> r)"

definition nodesEventHandler :: "nodeEnv \<Rightarrow> string list \<Rightarrow> NodeReconciler \<Rightarrow> NodeReconciler" where
  "nodesEventHandler env names r = fold (addAfter env) names r"

text \<open>The lists behind the fan-out of a settings change; an error enqueues nothing.\<close>

definition allNodes :: "apiError + Node list \<Rightarrow> string list" where
  "allNodes answer = (case answer of Inl e \<Rightarrow> [] | Inr nodes \<Rightarrow> map nName nodes)"

definition nodesHoldingPodsIn :: "apiError + Pod list \<Rightarrow> string list" where
  "nodesHoldingPodsIn answer =
     (case answer of
        Inl e \<Rightarrow> []
      | Inr pods \<Rightarrow> map fst (fold (\<lambda>pod names. if pNodeName pod \<noteq> '''' then mput (pNodeName pod) () names else names) pods []))"

text \<open>The field index that \<open>SetupWithManager\<close> registers, by which a reconcile lists the pods
  of its node: a pod has an entry only once it is bound. A registration the cache refuses is
  an error that names the index; otherwise the result is that of \<open>Complete\<close>.\<close>

definition podNodeNameIndex :: string where
  "podNodeNameIndex = ''spec.nodeName''"

definition podNodeNames :: "Pod \<Rightarrow> string list" where
  "podNodeNames pod = (if pNodeName pod = '''' then [] else [pNodeName pod])"

definition nodeSetupWithManager :: "apiError option \<Rightarrow> apiError option \<Rightarrow> goError option" where
  "nodeSetupWithManager indexErr completeErr =
     (case indexErr of
        Some e \<Rightarrow> Some (Wrapped (''index pods by '' @ podNodeNameIndex) e)
      | None \<Rightarrow> map_option Plain completeErr)"

text \<open>The wiring of \<open>SetupWithManager\<close>: which events pass their predicate, and to which
  handler. An object's metadata is what the predicates compare: the generation of a
  configuration, the labels of a namespace, the resource version of a LimitRange; None
  for the old object is an event that is not an update. The nodes watch enqueues without
  a delay.\<close>

datatype watchEvent =
    OnPod podEvent
  | OnNode "Node option" Node
  | OnConfig "int64 option" int64 "apiError + Node list"
  | OnNamespace "(string, string) gomap option" Namespace "apiError + Pod list"
  | OnLimitRange "string option" string "apiError + Pod list"
  | OnVPAChange "apiError + Pod list"

definition handleWatch :: "nodeEnv \<Rightarrow> watchEvent \<Rightarrow> NodeReconciler \<Rightarrow> NodeReconciler" where
  "handleWatch env ev r =
     (case ev of
        OnPod pe \<Rightarrow>
          (case pe of
             PodUpdated old new \<Rightarrow>
               if podUpdateRelevant (envParseQuantity env) (Some old) (Some new) then podEventHandler env pe r else r
           | _ \<Rightarrow> podEventHandler env pe r)
      | OnNode old new \<Rightarrow>
          if old = None \<or> nodeUpdateRelevant old (Some new)
          then fold (\<lambda>name. emit (Enqueued name 0)) (nodeToRequests new) r else r
      | OnConfig oldGeneration generation nodes \<Rightarrow>
          if oldGeneration = Some generation then r else nodesEventHandler env (allNodes nodes) r
      | OnNamespace oldLabels ns pods \<Rightarrow>
          if (case oldLabels of Some l \<Rightarrow> mapsEqual (nsLabels ns) l | None \<Rightarrow> False) then r
          else nodesEventHandler env (nodesHoldingPodsIn pods) r
      | OnLimitRange oldVersion version pods \<Rightarrow>
          if oldVersion = Some version then r else nodesEventHandler env (nodesHoldingPodsIn pods) r
      | OnVPAChange pods \<Rightarrow> nodesEventHandler env (nodesHoldingPodsIn pods) r)"

text \<open>A settings change in a namespace reaches each node whose index holds one of the listed
  pods, and each once.\<close>

lemma node_names_fold:
  assumes "distinct (map fst names)"
  shows "distinct (map fst (fold (\<lambda>pod names. if pNodeName pod \<noteq> '''' then mput (pNodeName pod) () names else names) pods names)) \<and>
    fst ` set (fold (\<lambda>pod names. if pNodeName pod \<noteq> '''' then mput (pNodeName pod) () names else names) pods names)
      = fst ` set names \<union> (\<Union>pod \<in> set pods. set (podNodeNames pod))"
  using assms
proof (induction pods arbitrary: names)
  case Nil
  then show ?case by simp
next
  case (Cons pod pods)
  define names' where "names' = (if pNodeName pod \<noteq> '''' then mput (pNodeName pod) () names else names)"
  have "distinct (map fst names')" "fst ` set names' = fst ` set names \<union> set (podNodeNames pod)"
    using Cons.prems by (auto simp: names'_def podNodeNames_def distinct_update dom_update)
  with Cons.IH [of names'] show ?case by (auto simp: names'_def [symmetric])
qed

lemma nodesHoldingPodsIn_exact:
  "distinct (nodesHoldingPodsIn (Inr pods)) \<and>
   set (nodesHoldingPodsIn (Inr pods)) = (\<Union>pod \<in> set pods. set (podNodeNames pod))"
  using node_names_fold [of "[]" pods] by (simp add: nodesHoldingPodsIn_def)

end
