(* ===== verification/NodeFrame.thy ===== *)
theory NodeFrame
  imports NodeReconciler
begin

text \<open>
  What each method of the node reconciler leaves alone. Two states agree on their core
  when only the bookkeeping around a reconcile differs: the call counter, the backoff and
  warning maps, events, status patches and outcome counters. The lemmas of this theory
  carry the proofs about whole reconciles.
\<close>

section \<open>The core of a state\<close>

fun resizePatches :: "effect list \<Rightarrow> ResizePatch list" where
  "resizePatches [] = []"
| "resizePatches (ResizePatched p # es) = p # resizePatches es"
| "resizePatches (_ # es) = resizePatches es"

lemma resizePatches_append [simp]: "resizePatches (a @ b) = resizePatches a @ resizePatches b"
  by (induction a rule: resizePatches.induct) simp_all

definition issued :: "NodeReconciler \<Rightarrow> ResizePatch list" where
  "issued r = resizePatches (nrTrace r)"

definition knobs :: "NodeReconciler \<Rightarrow> bool \<times> string \<times> Duration \<times> Duration" where
  "knobs r = (nrRecorder r, nrFieldManager r, nrDebouncePeriod r, nrBackoffPeriod r)"

definition sameCore :: "NodeReconciler \<Rightarrow> NodeReconciler \<Rightarrow> bool" where
  "sameCore r r' \<longleftrightarrow> knobs r' = knobs r \<and> nrDynamicDebounce r' = nrDynamicDebounce r
     \<and> nrPodSeries r' = nrPodSeries r \<and> podLimitCores (nrMetrics r') = podLimitCores (nrMetrics r)
     \<and> podsManaged (nrMetrics r') = podsManaged (nrMetrics r) \<and> nrLimiters r' = nrLimiters r
     \<and> issued r' = issued r \<and> nrTick r \<le> nrTick r'"

named_theorems core_simps \<open>methods that keep the core of the state\<close>

lemma sameCore_refl [simp]: "sameCore r r"
  by (simp add: sameCore_def)

lemma sameCore_trans [trans]: "sameCore a b \<Longrightarrow> sameCore b c \<Longrightarrow> sameCore a c"
  by (simp add: sameCore_def)

lemma ask_simps [simp]: "ask f r = (f (nrTick r), r\<lparr>nrTick := Suc (nrTick r)\<rparr>)"
  by (simp add: ask_def)

lemma clock_simps [simp]: "clock env r = (envClock env (nrTick r), r\<lparr>nrTick := Suc (nrTick r)\<rparr>)"
  by (simp add: clock_def)

lemma sameCore_fields [simp]:
  "sameCore r (r\<lparr>nrTick := Suc (nrTick r)\<rparr>)"
  "sameCore r (r'\<lparr>nrBackoff := b\<rparr>) = sameCore r r'"
  "sameCore r (r'\<lparr>nrVPASkipped := v\<rparr>) = sameCore r r'"
  by (simp_all add: sameCore_def knobs_def issued_def)

lemma sameCore_tick: "sameCore r r' \<Longrightarrow> sameCore r (r'\<lparr>nrTick := Suc (nrTick r')\<rparr>)"
  by (simp add: sameCore_def knobs_def issued_def)

lemma sameCore_meter: "sameCore r r' \<Longrightarrow> sameCore r (meter (incResizes res) r')"
  by (simp add: sameCore_def knobs_def issued_def meter_def incResizes_def)

lemma sameCore_emit: "sameCore r r' \<Longrightarrow> resizePatches [e] = [] \<Longrightarrow> sameCore r (emit e r')"
  by (simp add: sameCore_def knobs_def issued_def emit_def)

lemma sameCore_recordEvent: "sameCore r r' \<Longrightarrow> sameCore r (recordEvent pod ty re msg r')"
  by (simp add: recordEvent_def sameCore_emit)

lemma sameCore_setBackoffKey: "sameCore r r' \<Longrightarrow> sameCore r (setBackoffKey env key r')"
  by (simp add: setBackoffKey_def sameCore_tick)

lemma sameCore_noteVPASkip: "sameCore r r' \<Longrightarrow> sameCore r (noteVPASkip pod vpa r')"
  by (simp add: noteVPASkip_def Let_def sameCore_recordEvent)

lemma sameCore_noteInfeasible: "sameCore r r' \<Longrightarrow> sameCore r (noteInfeasible env pod r')"
  by (simp add: noteInfeasible_def Let_def setBackoff_def sameCore_setBackoffKey sameCore_recordEvent sameCore_meter)

lemmas core_steps = sameCore_tick sameCore_meter sameCore_emit sameCore_recordEvent sameCore_setBackoffKey
  sameCore_noteVPASkip sameCore_noteInfeasible

lemma sameCore_inBackoff: "inBackoff env pod r = (b, r') \<Longrightarrow> sameCore r r'"
  by (auto simp: inBackoff_def Let_def core_steps split: option.splits if_splits)

lemma sameCore_enqueueDelay: "enqueueDelay env r = (d, r') \<Longrightarrow> sameCore r r'"
  by (auto simp: enqueueDelay_def rand_def)

lemma sameCore_backoffRequeue: "backoffRequeue env keys now r = (d, r') \<Longrightarrow> sameCore r r'"
  by (auto simp: backoffRequeue_def Let_def enqueueDelay_def rand_def split: if_splits)

lemma sameCore_writePodStatus: "writePodStatus env pod desired r = (e, pod', r') \<Longrightarrow> sameCore r r'"
  by (auto simp: writePodStatus_def Let_def core_steps split: if_splits option.splits sum.splits)

lemma sameCore_loadConfig: "loadConfig env r = (a, r') \<Longrightarrow> sameCore r r'"
  by (auto simp: loadConfig_def)

lemma sameCore_lookupNamespace: "lookupNamespace env cfg pod acc r = (a, r') \<Longrightarrow> sameCore r r'"
  by (auto simp: lookupNamespace_def Let_def split: option.splits)

lemma sameCore_lookupLimitRanges: "lookupLimitRanges env pod acc r = (a, r') \<Longrightarrow> sameCore r r'"
  by (auto simp: lookupLimitRanges_def Let_def split: option.splits)

lemma sameCore_classify: "classifyResizeError env pod key err r = (a, r') \<Longrightarrow> sameCore r r'"
  by (auto simp: classifyResizeError_def Let_def core_steps split: apiError.splits prod.splits)

lemma sameCore_judgePod:
  assumes "judgePod env cfg nodeManaged pod rcs acc r = (a, r')"
  shows "sameCore r r'"
proof -
  obtain b r1 where r1: "inBackoff env pod r = (b, r1)" by fastforce
  obtain n r2 where r2: "lookupNamespace env cfg pod acc r1 = (n, r2)" by fastforce
  have "sameCore r r2"
    using sameCore_trans [OF sameCore_inBackoff [OF r1] sameCore_lookupNamespace [OF r2]] .
  then show ?thesis
    using assms by (auto simp: judgePod_def r1 r2 Let_def core_steps split: if_splits sum.splits prod.splits)
qed

lemma sameCore_inputOfPod:
  assumes "inputOfPod env cfg nodeManaged pod acc r = (a, r')"
  shows "sameCore r r'"
proof (cases "PodTerminal pod")
  case False
  let ?rcs = "ResizableContainers pod"
  obtain j r1 where j: "judgePod env cfg nodeManaged pod ?rcs acc r = (j, r1)" by fastforce
  have r1: "sameCore r r1" by (rule sameCore_judgePod [OF j])
  show ?thesis
  proof (cases j)
    case (Inl e)
    then show ?thesis using assms False j r1 by (simp add: inputOfPod_def)
  next
    case (Inr x)
    obtain m h acc1 where x: "x = ((m, h), acc1)" by (metis prod.exhaust)
    show ?thesis
    proof (cases "m \<and> podResizeInfeasible pod \<or> \<not> m")
      case True
      then show ?thesis
        using assms False j Inr x r1 by (auto simp: inputOfPod_def Let_def core_steps)
    next
      case feasible: False
      obtain l r2 where l: "lookupLimitRanges env pod acc1 r1 = (l, r2)" by fastforce
      have "sameCore r r2" using r1 sameCore_lookupLimitRanges [OF l] by (rule sameCore_trans)
      then show ?thesis
        using assms False j Inr x feasible l by (auto simp: inputOfPod_def Let_def split: sum.splits)
    qed
  qed
qed (use assms in \<open>simp add: inputOfPod_def\<close>)

lemma sameCore_inputsLoop:
  "inputsLoop env cfg nodeManaged pods acc r = (a, r') \<Longrightarrow> sameCore r r'"
proof (induction pods arbitrary: acc r)
  case (Cons pod pods)
  obtain i r1 where i: "inputOfPod env cfg nodeManaged pod acc r = (i, r1)" by fastforce
  have r1: "sameCore r r1" by (rule sameCore_inputOfPod [OF i])
  show ?case
  proof (cases i)
    case (Inl e)
    then show ?thesis using Cons.prems i r1 by simp
  next
    case (Inr acc1)
    then have "sameCore r1 r'" using Cons.prems i by (intro Cons.IH) simp
    with r1 show ?thesis by (rule sameCore_trans)
  qed
qed simp

lemma sameCore_buildInputs:
  assumes "buildInputs env cfg pods nodeManaged r = (a, r')"
  shows "sameCore r r'"
proof -
  obtain i r1 where i: "inputsLoop env cfg nodeManaged pods
      \<lparr>iaManaged = [], iaLimitRanges = [], iaInputs = [], iaByKey = []\<rparr> r = (i, r1)" by fastforce
  then have "r' = r1" using assms by (auto simp: buildInputs_def split: sum.splits)
  then show ?thesis using sameCore_inputsLoop [OF i] by simp
qed

end
