(* ===== verification/NodeSafety.thy ===== *)
theory NodeSafety
  imports NodeFrame SampleObjects
begin

text \<open>
  Safety of a node reconcile: what it may write to the API server. In dry-run mode it
  issues no resize, whatever the environment answers.
\<close>

section \<open>Resizes of one reconcile\<close>

lemma issued_simps [simp]:
  "issued (r\<lparr>nrTick := t\<rparr>) = issued r" "issued (meter f r) = issued r" "issued (r\<lparr>nrMetrics := m\<rparr>) = issued r"
  "issued (r\<lparr>nrLimiters := l\<rparr>) = issued r" "issued (r\<lparr>nrPodSeries := s\<rparr>) = issued r"
  "issued (r\<lparr>nrBackoff := b\<rparr>) = issued r"
  by (simp_all add: issued_def meter_def)

lemma issued_accounting [simp]:
  "issued (syncPodMetrics node current r) = issued r"
  "issued (forgetNode node r) = issued r"
  "issued (setDebounce d r) = issued r"
  "issued (snd (limiterFor env node pps r)) = issued r"
  by (simp_all add: syncPodMetrics_def forgetNode_def refreshPodsManagedLocked_def setDebounce_def limiterFor_def Let_def
      issued_def meter_def split: option.splits)

lemma issued_sameCore: "sameCore r r' \<Longrightarrow> issued r' = issued r"
  by (simp add: sameCore_def)

lemma applyOne_dryRun:
  assumes "rcDryRun cfg"
  shows "\<exists>byKey' r'. applyOne env node cfg stats nodePods d byKey bucket r = (Next False [], byKey', bucket, r')
    \<and> sameCore r r'"
proof (cases "mget byKey (DKey d)")
  case None
  then show ?thesis by (simp add: applyOne_def)
next
  case (Some pod)
  obtain e pod1 r1 where w: "writePodStatus env pod (buildPodStatus stats nodePods (TargetLimitMilli d) True) r = (e, pod1, r1)"
    by (metis prod.exhaust)
  show ?thesis
    using sameCore_writePodStatus [OF w] Some w assms by (auto simp: applyOne_def Let_def intro: core_steps)
qed

lemma applyLoop_dryRun:
  assumes "rcDryRun cfg"
  shows "\<exists>r'. applyLoop env node cfg stats nodePods ds byKey bucket rateLimited errs r = (Some (rateLimited, errs), r')
    \<and> sameCore r r'"
proof (induction ds arbitrary: byKey r)
  case (Cons d ds)
  obtain byKey1 r1 where 1: "applyOne env node cfg stats nodePods d byKey bucket r = (Next False [], byKey1, bucket, r1)"
      "sameCore r r1" using applyOne_dryRun [OF assms] by blast
  obtain r' where "applyLoop env node cfg stats nodePods ds byKey1 bucket rateLimited errs r1 = (Some (rateLimited, errs), r')"
      "sameCore r1 r'" using Cons.IH by blast
  then show ?case using 1 by (auto intro: sameCore_trans)
qed simp

definition observesOnly :: "nodeEnv \<Rightarrow> bool" where
  "observesOnly env \<longleftrightarrow> (\<forall>n. case envConfig env n of Inr hc \<Rightarrow> specDryRun (hcSpec hc) \<noteq> Some False | Inl e \<Rightarrow> True)"

lemma loadConfig_dryRun:
  "observesOnly env \<Longrightarrow> loadConfig env r = (Inr cfg, r') \<Longrightarrow> rcDryRun cfg"
  by (auto simp: observesOnly_def loadConfig_def resolveConfig_def Let_def
      split: sum.splits apiError.splits option.splits dest: spec [of _ "nrTick r"])

lemma reconcilePods_dryRun:
  assumes "rcDryRun cfg"
  shows "\<exists>res r'. reconcilePods env node cfg alloc nodeManaged pods r = (Some res, r') \<and> issued r' = issued r"
proof -
  let ?r0 = "r\<lparr>nrTick := Suc (nrTick r)\<rparr>"
  obtain a r1 where b: "buildInputs env cfg pods nodeManaged ?r0 = (a, r1)" by fastforce
  have i1: "issued r1 = issued r" using issued_sameCore [OF sameCore_buildInputs [OF b]] by simp
  show ?thesis
  proof (cases a)
    case (Inl e)
    then show ?thesis using b i1 by (simp add: reconcilePods_def)
  next
    case (Inr x)
    obtain inputs byKey where x: "x = (inputs, byKey)" by fastforce
    obtain stats ds where c: "Compute alloc inputs (rcPolicy cfg) = (stats, ds)" by fastforce
    obtain m current where p: "publishPods ds byKey (nrMetrics (meter (publishNode node stats ds inputs byKey) r1)) = (m, current)"
      by fastforce
    obtain bucket r2 where l: "limiterFor env node (rcPerNodePPS cfg)
        (syncPodMetrics node current ((meter (publishNode node stats ds inputs byKey) r1)\<lparr>nrMetrics := m\<rparr>)) = (bucket, r2)"
      by fastforce
    have i2: "issued r2 = issued r"
      using issued_accounting(4) [of env node "rcPerNodePPS cfg"
        "syncPodMetrics node current ((meter (publishNode node stats ds inputs byKey) r1)\<lparr>nrMetrics := m\<rparr>)"] l i1 by simp
    obtain r3 where a: "applyLoop env node cfg stats (int (length inputs)) ds byKey bucket False [] r2 = (Some (False, []), r3)"
        "sameCore r2 r3" using applyLoop_dryRun [OF assms] by blast
    obtain d r4 where q: "backoffRequeue env (map fst byKey) (envClock env (nrTick r)) r3 = (d, r4)" by fastforce
    have "issued r4 = issued r"
      using issued_sameCore [OF sameCore_backoffRequeue [OF q]] issued_sameCore [OF a(2)] i2 by simp
    then show ?thesis
      using b Inr x c p l a q by (simp add: reconcilePods_def Let_def)
  qed
qed

lemma Reconcile_dryRun:
  assumes "observesOnly env"
  shows "\<exists>res r'. Reconcile env node r = (Some res, r') \<and> issued r' = issued r"
proof -
  let ?r0 = "r\<lparr>nrTick := Suc (nrTick r)\<rparr>"
  obtain a r1 where l: "loadConfig env ?r0 = (a, r1)" by fastforce
  have i1: "issued r1 = issued r" using issued_sameCore [OF sameCore_loadConfig [OF l]] by simp
  have "\<exists>res r'. reconcilePods env node cfg al nm pods (r2\<lparr>nrTick := t\<rparr>) = (Some res, r') \<and> issued r' = issued r"
    if "a = Inr cfg" "issued r2 = issued r" for cfg al nm pods r2 t
    using reconcilePods_dryRun [of cfg env node al nm pods "r2\<lparr>nrTick := t\<rparr>"] loadConfig_dryRun [OF assms, of ?r0 cfg r1]
      l that by simp
  then show ?thesis
    using l i1 by (auto simp: Reconcile_def Let_def split: sum.splits apiError.splits if_splits)
qed

text \<open>C3. While the configuration is absent, unreadable or in dry-run mode, a reconcile of
  any node, in any state and with any answers from the API server, completes without a
  panic and issues no resize.\<close>

theorem dry_run_issues_no_resize:
  assumes "observesOnly env"
  shows "\<exists>res r'. Reconcile env node r = (Some res, r') \<and> issued r' = issued r"
  by (rule Reconcile_dryRun [OF assms])

subsection \<open>A sample cluster\<close>

text \<open>One node with one pod in a managed namespace, an enforcing configuration and an API
  server that accepts every patch.\<close>

definition sampleEnv :: nodeEnv where
  "sampleEnv = \<lparr>envVPAs = (\<lambda>n. None), envConfig = (\<lambda>n. Inr sampleConfig), envNode = (\<lambda>n s. Inr sampleNode),
     envPodsOn = (\<lambda>n s. Inr [samplePod]), envNamespace = (\<lambda>n s. Inr sampleNamespace),
     envLimitRanges = (\<lambda>n s. Inr []), envPatchStatus = (\<lambda>n pod d. Inr pod), envPatchResize = (\<lambda>n p. None),
     envClock = (\<lambda>n. 2000000000 + int n), envWall = (\<lambda>n. 2000000000 + int n), envRand = (\<lambda>n. F (1 / 2)),
     envParseQuantity = (\<lambda>s. None)\<rparr>"

theorem dry_run_issues_no_resize_witness:
  "\<exists>res r'. Reconcile (sampleEnv\<lparr>envConfig := (\<lambda>n. Inl (NotFound ''none''))\<rparr>) ''node1'' newNodeReconciler = (Some res, r')
    \<and> issued r' = []"
proof -
  have "observesOnly (sampleEnv\<lparr>envConfig := (\<lambda>n. Inl (NotFound ''none''))\<rparr>)" by (simp add: observesOnly_def)
  from dry_run_issues_no_resize [OF this, of "''node1''" newNodeReconciler] show ?thesis
    by (simp add: newNodeReconciler_def issued_def)
qed

end
