(* ===== verification/NodeGates.thy ===== *)
theory NodeGates
  imports NodeSafety "HOL-Library.Sublist"
begin

text \<open>
  Which pods a reconcile may resize: the gates that every managed input has passed, the
  pods that a backoff window holds back, and the resizes the loop over the decisions
  issues within the budget of the node's token bucket.
\<close>

section \<open>Gates\<close>

text \<open>A pod that passed every gate of \<open>buildInputs\<close>, with the answers the environment gave.\<close>

definition passedGates :: "nodeEnv \<Rightarrow> HeadroomConfigSpec \<Rightarrow> Pod \<Rightarrow> bool" where
  "passedGates env spec pod \<longleftrightarrow>
     Eligible pod (ResizableContainers pod) \<and> \<not> podResizeInfeasible pod
     \<and> \<not> OwnerExcluded pod (specExcludedOwners spec)
     \<and> (\<exists>n ns. envNamespace env n (pNamespace pod) = Inr ns \<and> NamespaceManaged ns spec)
     \<and> (\<exists>n. LimitManagingVPA pod (ResizableContainers pod) (ForNamespace (envVPAs env n) (pNamespace pod)) = '''')"

text \<open>A window that stays open for as long as the environment's clock can tell.\<close>

definition held :: "nodeEnv \<Rightarrow> NodeReconciler \<Rightarrow> string \<Rightarrow> bool" where
  "held env r key \<longleftrightarrow> (\<exists>until. mget (nrBackoff r) key = Some until \<and> (\<forall>n. envClock env n \<le> until))"

definition cacheOk :: "nodeEnv \<Rightarrow> resolvedConfig \<Rightarrow> inputsAcc \<Rightarrow> bool" where
  "cacheOk env cfg acc \<longleftrightarrow> (\<forall>name. mget (iaManaged acc) name = Some True \<longrightarrow>
     (\<exists>n ns. envNamespace env n name = Inr ns \<and> NamespaceManaged ns (rcSpec cfg)))"

lemma held_fields [simp]:
  "held env (r\<lparr>nrTick := t\<rparr>) key = held env r key"
  "held env (r\<lparr>nrVPASkipped := v\<rparr>) key = held env r key"
  "held env (r\<lparr>nrLimiters := l\<rparr>) key = held env r key"
  "held env (meter f r) key = held env r key"
  "held env (emit e r) key = held env r key"
  "held env (recordEvent pod ty re msg r) key = held env r key"
  "held env (noteVPASkip pod vpa r) key = held env r key"
  by (simp_all add: held_def meter_def emit_def recordEvent_def noteVPASkip_def Let_def)

lemma inBackoff_held:
  assumes "inBackoff env pod r = (b, r')"
  shows "held env r key \<Longrightarrow> held env r' key" and "held env r (podKey pod) \<Longrightarrow> b"
proof -
  show "held env r' key" if h: "held env r key"
  proof (cases "mget (nrBackoff r) (podKey pod)")
    case None
    then show ?thesis using assms h by (simp add: inBackoff_def)
  next
    case (Some u)
    show ?thesis
    proof (cases "envClock env (nrTick r) > u")
      case True
      then have "podKey pod \<noteq> key" using Some h by (auto simp: held_def dest: spec [of _ "nrTick r"])
      then show ?thesis using assms Some True h by (auto simp: inBackoff_def held_def gomap_simps)
    next
      case False
      then show ?thesis using assms Some h by (auto simp: inBackoff_def)
    qed
  qed
  show b if "held env r (podKey pod)"
    using assms that by (auto simp: inBackoff_def held_def split: if_splits dest: spec [of _ "nrTick r"])
qed

lemma setBackoffKey_held: "key \<noteq> key' \<Longrightarrow> held env (setBackoffKey env key' r) key = held env r key"
  by (simp add: setBackoffKey_def held_def gomap_simps)

lemma noteInfeasible_held: "key \<noteq> podKey pod \<Longrightarrow> held env (noteInfeasible env pod r) key = held env r key"
  by (simp add: noteInfeasible_def setBackoff_def setBackoffKey_held Let_def)

lemma lookupNamespace_spec:
  assumes "lookupNamespace env cfg pod acc r = (Inr (ok, acc'), r')" "cacheOk env cfg acc"
  shows "cacheOk env cfg acc'" "iaInputs acc' = iaInputs acc" "iaByKey acc' = iaByKey acc"
    "iaLimitRanges acc' = iaLimitRanges acc" "held env r' key = held env r key"
    "ok \<Longrightarrow> \<exists>n ns. envNamespace env n (pNamespace pod) = Inr ns \<and> NamespaceManaged ns (rcSpec cfg)"
  using assms
  by (auto simp: lookupNamespace_def cacheOk_def gomap_simps split: option.splits sum.splits apiError.splits if_splits)
    blast+

lemma judgePod_spec:
  assumes "judgePod env cfg nodeManaged pod rcs acc r = (Inr ((m, h), acc'), r')" "cacheOk env cfg acc"
    "rcs = ResizableContainers pod"
  shows "cacheOk env cfg acc'" "iaInputs acc' = iaInputs acc" "iaByKey acc' = iaByKey acc"
    "held env r key \<Longrightarrow> held env r' key"
    "m \<Longrightarrow> nodeManaged \<and> \<not> held env r (podKey pod) \<and> (\<not> podResizeInfeasible pod \<longrightarrow> passedGates env (rcSpec cfg) pod)"
proof -
  let ?gate = "nodeManaged \<and> Eligible pod rcs \<and> \<not> OwnerExcluded pod (specExcludedOwners (rcSpec cfg))"
  obtain b r1 where b: "inBackoff env pod r = (b, r1)" by fastforce
  obtain n r2 where n: "lookupNamespace env cfg pod acc r1 = (n, r2)" by fastforce
  have "(cacheOk env cfg acc' \<and> iaInputs acc' = iaInputs acc \<and> iaByKey acc' = iaByKey acc)
    \<and> (held env r key \<longrightarrow> held env r' key)
    \<and> (m \<longrightarrow> nodeManaged \<and> \<not> held env r (podKey pod) \<and> (\<not> podResizeInfeasible pod \<longrightarrow> passedGates env (rcSpec cfg) pod))"
  proof (cases ?gate)
    case False
    then have "m = False \<and> acc' = acc \<and> r' = r" using assms(1) by (auto simp: judgePod_def)
    then show ?thesis using assms(2) by simp
  next
    case True
    show ?thesis
    proof (cases n)
      case (Inl e)
      then show ?thesis using assms(1) True b n by (simp add: judgePod_def)
    next
      case (Inr x)
      obtain ok acc1 where x: "x = (ok, acc1)" by fastforce
      note L = lookupNamespace_spec [OF n [unfolded Inr x] assms(2)]
      have acc': "acc' = acc1" and held: "held env r' key = held env r2 key"
        and m: "m \<longleftrightarrow> ok \<and> \<not> b \<and>
          LimitManagingVPA pod rcs (ForNamespace (envVPAs env (nrTick r2)) (pNamespace pod)) = ''''"
        using assms(1) True b n Inr x by (auto simp: judgePod_def Let_def split: if_splits)
      have "held env r key \<longrightarrow> held env r' key"
        using inBackoff_held(1) [OF b] L(5) held by simp
      moreover have "nodeManaged \<and> \<not> held env r (podKey pod) \<and> (\<not> podResizeInfeasible pod \<longrightarrow> passedGates env (rcSpec cfg) pod)"
        if m using that m inBackoff_held(2) [OF b] L(6) True assms(3) by (auto simp: passedGates_def)
      ultimately show ?thesis using L(1-3) acc' by simp
    qed
  qed
  then show "cacheOk env cfg acc'" "iaInputs acc' = iaInputs acc" "iaByKey acc' = iaByKey acc"
    "held env r key \<Longrightarrow> held env r' key"
    "m \<Longrightarrow> nodeManaged \<and> \<not> held env r (podKey pod) \<and> (\<not> podResizeInfeasible pod \<longrightarrow> passedGates env (rcSpec cfg) pod)"
    by auto
qed

section \<open>Managed inputs\<close>

text \<open>What \<open>buildInputs\<close> has established about the inputs it has collected so far.\<close>

definition inputsOk :: "nodeEnv \<Rightarrow> resolvedConfig \<Rightarrow> bool \<Rightarrow> Pod list \<Rightarrow> NodeReconciler \<Rightarrow> inputsAcc \<Rightarrow> bool" where
  "inputsOk env cfg nodeManaged pods r0 acc \<longleftrightarrow>
     (\<forall>inp \<in> set (iaInputs acc). Managed inp \<longrightarrow> nodeManaged \<and> \<not> held env r0 (Key inp)
        \<and> (\<exists>pod \<in> set pods. podKey pod = Key inp \<and> passedGates env (rcSpec cfg) pod))
     \<and> (\<forall>key pod. mget (iaByKey acc) key = Some pod \<longrightarrow> podKey pod = key \<and> pod \<in> set pods)"

lemma lookupLimitRanges_spec:
  assumes "lookupLimitRanges env pod acc r = (Inr (lrs, acc'), r')"
  shows "iaManaged acc' = iaManaged acc" "iaInputs acc' = iaInputs acc" "iaByKey acc' = iaByKey acc"
    "held env r' key = held env r key"
  using assms by (auto simp: lookupLimitRanges_def split: option.splits sum.splits)

lemma inputsOk_addInput:
  assumes "inputsOk env cfg nodeManaged pods r0 acc" "pod \<in> set pods" "Key inp = podKey pod"
    "Managed inp \<Longrightarrow> nodeManaged \<and> \<not> held env r0 (podKey pod) \<and> passedGates env (rcSpec cfg) pod"
  shows "inputsOk env cfg nodeManaged pods r0 (addInput pod inp acc)"
  using assms by (auto simp: inputsOk_def addInput_def gomap_simps)

lemma inputsOk_cong:
  "iaInputs acc' = iaInputs acc \<Longrightarrow> iaByKey acc' = iaByKey acc \<Longrightarrow>
   inputsOk env cfg nodeManaged pods r0 acc' = inputsOk env cfg nodeManaged pods r0 acc"
  by (simp add: inputsOk_def)

lemma buildPodInput_simps [simp]:
  "Key (buildPodInput pq pod rcs managed) = podKey pod"
  "Managed (buildPodInput pq pod rcs managed) = managed"
  by (simp_all add: buildPodInput_def podKey_def Let_def)

lemma inputOfPod_spec:
  assumes step: "inputOfPod env cfg nodeManaged pod acc r = (Inr acc', r')"
    and pod: "pod \<in> set pods" and cache: "cacheOk env cfg acc" and ok: "inputsOk env cfg nodeManaged pods r0 acc"
    and held: "\<And>key. held env r0 key \<Longrightarrow> held env r key"
  shows "cacheOk env cfg acc' \<and> inputsOk env cfg nodeManaged pods r0 acc' \<and> (\<forall>key. held env r0 key \<longrightarrow> held env r' key)"
proof (cases "PodTerminal pod")
  case True
  then show ?thesis using step cache ok held by (simp add: inputOfPod_def)
next
  case False
  let ?rcs = "ResizableContainers pod"
  let ?inp = "\<lambda>m h. (buildPodInput (envParseQuantity env) pod ?rcs m)\<lparr>HoldsShare := h\<rparr>"
  obtain j r1 where j: "judgePod env cfg nodeManaged pod ?rcs acc r = (j, r1)" by fastforce
  have "\<exists>x. j = Inr x" using step False j by (cases j) (simp_all add: inputOfPod_def)
  then obtain m h acc1 where x: "j = Inr ((m, h), acc1)" by (metis prod.exhaust)
  note J = judgePod_spec [OF j [unfolded x] cache refl]
  have ok1: "inputsOk env cfg nodeManaged pods r0 acc1" using ok inputsOk_cong [OF J(2,3)] by blast
  have h1: "\<And>key. held env r0 key \<Longrightarrow> held env r1 key" using J(4) held by blast
  show ?thesis
  proof (cases "m \<and> \<not> podResizeInfeasible pod")
    case managed: True
    obtain l r2 where l: "lookupLimitRanges env pod acc1 r1 = (l, r2)" by fastforce
    have "\<exists>y. l = Inr y" using step False j x managed l by (cases l) (simp_all add: inputOfPod_def Let_def)
    then obtain lrs acc2 where y: "l = Inr (lrs, acc2)" by (metis prod.exhaust)
    note L = lookupLimitRanges_spec [OF l [unfolded y]]
    let ?i = "(?inp True h)\<lparr>LimitRangeCap := LimitRangeCapMilli pod ?rcs lrs\<rparr>"
    have "acc' = addInput pod ?i acc2" "r' = r2"
      using step False j x managed l y by (simp_all add: inputOfPod_def Let_def)
    moreover have "inputsOk env cfg nodeManaged pods r0 acc2" using ok1 inputsOk_cong [OF L(2,3)] by blast
    then have "inputsOk env cfg nodeManaged pods r0 (addInput pod ?i acc2)"
      using J(5) managed held pod by (intro inputsOk_addInput) auto
    moreover have "cacheOk env cfg acc2" using J(1) L(1) by (simp add: cacheOk_def)
    ultimately show ?thesis using h1 L(4) by (simp add: addInput_def cacheOk_def)
  next
    case False': False
    define r2 where "r2 = (if m then noteInfeasible env pod r1 else r1)"
    have "acc' = addInput pod (?inp False (if m then True else h)) acc1 \<and> r' = r2"
      using step False j x False' by (cases m) (simp_all add: inputOfPod_def Let_def r2_def)
    then obtain h' where a: "acc' = addInput pod (?inp False h') acc1" and r': "r' = r2" by blast
    have "inputsOk env cfg nodeManaged pods r0 (addInput pod (?inp False h') acc1)"
      using ok1 pod by (intro inputsOk_addInput) auto
    moreover have "held env r2 key" if "held env r0 key" for key
      using J(5) held that h1 [OF that] by (cases "m \<and> key = podKey pod") (auto simp: r2_def noteInfeasible_held)
    ultimately show ?thesis using J(1) a r' by (simp add: addInput_def cacheOk_def)
  qed
qed

lemma inputsLoop_spec:
  assumes "inputsLoop env cfg nodeManaged ps acc r = (Inr acc', r')" "set ps \<subseteq> set pods" "cacheOk env cfg acc"
    "inputsOk env cfg nodeManaged pods r0 acc" "\<forall>key. held env r0 key \<longrightarrow> held env r key"
  shows "inputsOk env cfg nodeManaged pods r0 acc' \<and> (\<forall>key. held env r0 key \<longrightarrow> held env r' key)"
  using assms
proof (induction ps arbitrary: acc r)
  case (Cons p ps)
  obtain i r1 where i: "inputOfPod env cfg nodeManaged p acc r = (i, r1)" by fastforce
  then obtain acc1 where a: "i = Inr acc1" using Cons.prems(1) by (cases i) auto
  have "cacheOk env cfg acc1 \<and> inputsOk env cfg nodeManaged pods r0 acc1 \<and> (\<forall>key. held env r0 key \<longrightarrow> held env r1 key)"
    using Cons.prems i a by (intro inputOfPod_spec [where pod = p and acc = acc and r = r]) auto
  then show ?case using Cons.prems i a by (intro Cons.IH [of acc1 r1]) auto
qed simp

lemma buildInputs_spec:
  assumes "buildInputs env cfg pods nodeManaged r = (Inr (inputs, byKey), r')"
  shows "\<forall>inp \<in> set inputs. Managed inp \<longrightarrow> nodeManaged \<and> \<not> held env r (Key inp)
        \<and> (\<exists>pod \<in> set pods. podKey pod = Key inp \<and> passedGates env (rcSpec cfg) pod)"
    and "\<forall>key pod. mget byKey key = Some pod \<longrightarrow> podKey pod = key \<and> pod \<in> set pods"
    and "held env r key \<Longrightarrow> held env r' key"
proof -
  let ?acc0 = "\<lparr>iaManaged = [], iaLimitRanges = [], iaInputs = [], iaByKey = []\<rparr>"
  obtain i r1 where i: "inputsLoop env cfg nodeManaged pods ?acc0 r = (i, r1)" by fastforce
  then obtain acc where a: "i = Inr acc" "inputs = iaInputs acc" "byKey = iaByKey acc" "r' = r1"
    using assms by (cases i) (auto simp: buildInputs_def)
  have "inputsOk env cfg nodeManaged pods r acc \<and> (\<forall>key. held env r key \<longrightarrow> held env r1 key)"
    using i a(1) by (intro inputsLoop_spec [of env cfg nodeManaged pods ?acc0 r]) (auto simp: cacheOk_def inputsOk_def)
  then show "\<forall>inp \<in> set inputs. Managed inp \<longrightarrow> nodeManaged \<and> \<not> held env r (Key inp)
        \<and> (\<exists>pod \<in> set pods. podKey pod = Key inp \<and> passedGates env (rcSpec cfg) pod)"
    "\<forall>key pod. mget byKey key = Some pod \<longrightarrow> podKey pod = key \<and> pod \<in> set pods"
    "held env r key \<Longrightarrow> held env r' key"
    using a by (auto simp: inputsOk_def)
qed

section \<open>Issued resizes\<close>

definition patchKey :: "ResizePatch \<Rightarrow> string" where
  "patchKey p = ptNamespace p @ ''/'' @ ptName p"

text \<open>The resize that a decision stands for: the split of its target over the resizable
  containers of the pod it names.\<close>

definition resizeOf :: "string \<Rightarrow> ResizePatch \<Rightarrow> Decision \<Rightarrow> bool" where
  "resizeOf owner p d \<longleftrightarrow> patchKey p = DKey d \<and> (\<exists>pod perContainer. podKey pod = DKey d
     \<and> splitLimit (TargetLimitMilli d) (ResizableContainers pod) = Some perContainer \<and> perContainer \<noteq> []
     \<and> p = resizeBody pod (ResizableContainers pod) perContainer owner)"

text \<open>The API server answers a patch with the pod it names.\<close>

definition patchKeepsName :: "nodeEnv \<Rightarrow> bool" where
  "patchKeepsName env \<longleftrightarrow> (\<forall>n pod data pod'. envPatchStatus env n pod data = Inr pod' \<longrightarrow> podKey pod' = podKey pod)"

definition keysOk :: "(string, Pod) gomap \<Rightarrow> bool" where
  "keysOk byKey \<longleftrightarrow> (\<forall>key pod. mget byKey key = Some pod \<longrightarrow> podKey pod = key)"

text \<open>The accounting of managed pods.\<close>

definition books :: "NodeReconciler \<Rightarrow> (string, (string, podSeriesRef) gomap) gomap \<times> (string \<times> string, float64) gomap \<times> float64" where
  "books r = (nrPodSeries r, podLimitCores (nrMetrics r), podsManaged (nrMetrics r))"

lemma sameCore_books: "sameCore r r' \<Longrightarrow> books r' = books r"
  by (simp add: sameCore_def books_def)

text \<open>What a stretch of the loop from \<open>r\<close> to \<open>r'\<close> has issued and drawn from the bucket.\<close>

definition drawn :: "nodeEnv \<Rightarrow> string \<Rightarrow> Limiter \<Rightarrow> NodeReconciler \<Rightarrow> ResizePatch list \<Rightarrow> Limiter \<Rightarrow> NodeReconciler \<Rightarrow> bool" where
  "drawn env node bucket r ps bucket' r' \<longleftrightarrow> issued r' = issued r @ ps \<and> nrTick r \<le> nrTick r' \<and> knobs r' = knobs r
     \<and> books r' = books r \<and> limLimit bucket' = limLimit bucket
     \<and> (mget (nrLimiters r) node = Some bucket \<longrightarrow> mget (nrLimiters r') node = Some bucket')
     \<and> (\<forall>n. n \<noteq> node \<longrightarrow> mget (nrLimiters r') n = mget (nrLimiters r) n)
     \<and> (\<exists>ns. sorted_wrt (<) ns \<and> set ns \<subseteq> {nrTick r ..< nrTick r'}
          \<and> (\<forall>ts. length ps + allowedCount bucket' ts \<le> allowedCount bucket (map (envWall env) ns @ ts)))"

lemma drawn_refl: "sameCore r r' \<Longrightarrow> drawn env node bucket r [] bucket r'"
  by (auto simp: drawn_def sameCore_def books_def intro!: exI [of _ "[]"])

lemma drawn_trans [trans]:
  assumes "drawn env node b1 r1 ps b2 r2" "drawn env node b2 r2 qs b3 r3"
  shows "drawn env node b1 r1 (ps @ qs) b3 r3"
proof -
  obtain ns ms where n: "sorted_wrt (<) ns" "set ns \<subseteq> {nrTick r1 ..< nrTick r2}"
      "\<And>ts. length ps + allowedCount b2 ts \<le> allowedCount b1 (map (envWall env) ns @ ts)"
    and m: "sorted_wrt (<) ms" "set ms \<subseteq> {nrTick r2 ..< nrTick r3}"
      "\<And>ts. length qs + allowedCount b3 ts \<le> allowedCount b2 (map (envWall env) ms @ ts)"
    using assms unfolding drawn_def by blast
  have t: "nrTick r1 \<le> nrTick r2" "nrTick r2 \<le> nrTick r3" using assms by (simp_all add: drawn_def)
  have "sorted_wrt (<) (ns @ ms)" using n m by (fastforce simp: sorted_wrt_append)
  moreover have "set (ns @ ms) \<subseteq> {nrTick r1 ..< nrTick r3}"
    using subset_trans [OF n(2)] subset_trans [OF m(2)] t by auto
  moreover have "length (ps @ qs) + allowedCount b3 ts \<le> allowedCount b1 (map (envWall env) (ns @ ms) @ ts)" for ts
    using n(3) [of "map (envWall env) ms @ ts"] m(3) [of ts] by simp
  ultimately have "\<exists>ns. sorted_wrt (<) ns \<and> set ns \<subseteq> {nrTick r1 ..< nrTick r3}
      \<and> (\<forall>ts. length (ps @ qs) + allowedCount b3 ts \<le> allowedCount b1 (map (envWall env) ns @ ts))" by blast
  then show ?thesis using assms t by (simp add: drawn_def)
qed

lemma patchKey_resizeBody: "patchKey (resizeBody pod rcs per owner) = podKey pod"
  by (simp add: patchKey_def resizeBody_def podKey_def Let_def)

lemma writePodStatus_key:
  "patchKeepsName env \<Longrightarrow> writePodStatus env pod desired r = (e, pod', r') \<Longrightarrow> podKey pod' = podKey pod"
  by (auto simp: writePodStatus_def Let_def patchKeepsName_def split: if_splits option.splits sum.splits)

lemma fieldManager_knobs: "knobs r' = knobs r \<Longrightarrow> fieldManager r' = fieldManager r"
  by (simp add: knobs_def fieldManager_def)

lemma applyResize_spec:
  assumes "applyResize env pod target r = (a, r')" "podKey pod = DKey d" "target = TargetLimitMilli d"
  shows "knobs r' = knobs r \<and> nrTick r \<le> nrTick r' \<and> nrLimiters r' = nrLimiters r \<and> nrPodSeries r' = nrPodSeries r
    \<and> nrMetrics r' = nrMetrics r
    \<and> (issued r' = issued r \<or> (\<exists>p. issued r' = issued r @ [p] \<and> resizeOf (fieldManager r) p d))"
proof (cases "splitLimit target (ResizableContainers pod)")
  case None
  then show ?thesis using assms by (simp add: applyResize_def)
next
  case (Some per)
  show ?thesis
  proof (cases "per = []")
    case True
    then show ?thesis using assms Some by (simp add: applyResize_def)
  next
    case False
    let ?p = "resizeBody pod (ResizableContainers pod) per (fieldManager r)"
    have "resizeOf (fieldManager r) ?p d"
      unfolding resizeOf_def using assms Some False patchKey_resizeBody by metis
    then show ?thesis using assms(1) Some False by (auto simp: applyResize_def Let_def emit_def issued_def knobs_def)
  qed
qed

lemma drawn_allow:
  assumes "allowPatch env node bucket r = (ok, bucket', r')" "knobs r2 = knobs r'" "nrTick r' \<le> nrTick r2"
    "nrLimiters r2 = nrLimiters r'" "books r2 = books r'" "issued r2 = issued r' @ ps" "length ps \<le> (if ok then 1 else 0)"
  shows "drawn env node bucket r ps bucket' r2"
proof -
  have a: "AllowN bucket (envWall env (nrTick r)) 1 = (ok, bucket')" and t: "nrTick r' = Suc (nrTick r)"
    and k: "knobs r' = knobs r" and i: "issued r' = issued r" and l: "nrLimiters r' = mput node bucket' (nrLimiters r)"
    and bk: "books r' = books r"
    using assms(1) by (auto simp: allowPatch_def Let_def knobs_def books_def split: prod.splits)
  have "length ps + allowedCount bucket' ts \<le> allowedCount bucket (map (envWall env) [nrTick r] @ ts)" for ts
    using assms(7) a by simp
  then show ?thesis
    unfolding drawn_def using assms t k i l bk AllowN_knobs [OF a]
    by (intro conjI exI [of _ "[nrTick r]"]) (simp_all add: gomap_simps)
qed

lemma drawn_step:
  assumes "drawn env node bucket r ps bucket' r'" "sameCore r' r''"
  shows "drawn env node bucket r ps bucket' r''"
  using drawn_trans [OF assms(1) drawn_refl [OF assms(2)]] by simp

text \<open>The attempt of a resize once the status is written: the bucket is asked, and only when it
  grants is a patch sent.\<close>

lemma applyOne_attempt:
  assumes "applyOne env node cfg stats nodePods d byKey bucket r = (step, byKey', bucket', r')"
    and pod: "mget byKey (DKey d) = Some pod"
    and w: "writePodStatus env pod (buildPodStatus stats nodePods (TargetLimitMilli d) (rcDryRun cfg)) r = (e, pod1, r1)"
    and on: "Apply d \<and> \<not> rcDryRun cfg" and a: "allowPatch env node bucket r1 = (ok, b2, r2)"
    and x: "applyResize env pod1 (TargetLimitMilli d) r2 = (x, r3)"
  shows "byKey' = mput (DKey d) pod1 byKey \<and> bucket' = b2 \<and> (if ok then sameCore r3 r' else r' = r2)"
proof (cases "ok \<and> x \<noteq> None")
  case False
  then show ?thesis using assms by (auto simp: applyOne_def Let_def sameCore_refl)
next
  case True
  then obtain y where y: ok "x = Some y" by auto
  obtain c r4 where c: "\<And>err. y = Some err \<Longrightarrow> classifyResizeError env pod1 (DKey d) err r3 = (c, r4)"
    by (cases y) (auto, metis prod.exhaust)
  have "sameCore r3 r4" if "y = Some err" for err using sameCore_classify [OF c [OF that]] .
  then show ?thesis using assms y c
    by (cases y; cases c) (auto simp: applyOne_def Let_def core_steps split: if_splits)
qed

lemma applyOne_spec:
  assumes "applyOne env node cfg stats nodePods d byKey bucket r = (step, byKey', bucket', r')"
    and names: "patchKeepsName env" and keys: "keysOk byKey"
  shows "keysOk byKey' \<and> (\<exists>ps. drawn env node bucket r ps bucket' r'
    \<and> (ps = [] \<or> Apply d \<and> \<not> rcDryRun cfg \<and> (\<exists>p. ps = [p] \<and> resizeOf (fieldManager r) p d)))"
proof (cases "mget byKey (DKey d)")
  case None
  then have "byKey' = byKey" "bucket' = bucket" "r' = r" using assms(1) by (simp_all add: applyOne_def)
  then show ?thesis using keys drawn_refl [OF sameCore_refl] by blast
next
  case (Some pod)
  obtain e pod1 r1 where w: "writePodStatus env pod (buildPodStatus stats nodePods (TargetLimitMilli d) (rcDryRun cfg)) r = (e, pod1, r1)"
    by (metis prod.exhaust)
  have s1: "sameCore r r1" by (rule sameCore_writePodStatus [OF w])
  have k1: "podKey pod1 = DKey d" using writePodStatus_key [OF names w] keys Some by (simp add: keysOk_def)
  have ok1: "keysOk (mput (DKey d) pod1 byKey)" using keys k1 by (auto simp: keysOk_def gomap_simps)
  show ?thesis
  proof (cases "Apply d \<and> \<not> rcDryRun cfg")
    case False
    then have "byKey' = mput (DKey d) pod1 byKey \<and> bucket' = bucket \<and> sameCore r r'"
      using assms(1) Some w s1 by (cases "Apply d"; cases "rcDryRun cfg") (auto simp: applyOne_def Let_def intro: core_steps)
    then show ?thesis using ok1 drawn_refl by blast
  next
    case True
    obtain ok b2 r2 where a: "allowPatch env node bucket r1 = (ok, b2, r2)" by (metis prod.exhaust)
    obtain x r3 where x: "applyResize env pod1 (TargetLimitMilli d) r2 = (x, r3)" by fastforce
    have k2: "knobs r2 = knobs r1" using a by (auto simp: allowPatch_def Let_def knobs_def split: prod.splits)
    have fm: "fieldManager r2 = fieldManager r" using k2 s1 by (intro fieldManager_knobs) (simp add: sameCore_def)
    have d0: "drawn env node bucket r [] bucket r1" by (rule drawn_refl [OF s1])
    note att = applyOne_attempt [OF assms(1) Some w True a x]
    show ?thesis
    proof (cases ok)
      case False
      then have "drawn env node bucket r1 [] b2 r2" using drawn_allow [OF a refl order_refl refl refl, of "[]"] by simp
      then have "drawn env node bucket r [] b2 r2" using drawn_trans [OF d0] by fastforce
      then show ?thesis using ok1 att False by auto
    next
      case ok: True
      obtain ps where ps: "issued r3 = issued r2 @ ps" "length ps \<le> 1"
          "ps = [] \<or> (\<exists>p. ps = [p] \<and> resizeOf (fieldManager r) p d)" "knobs r3 = knobs r2" "nrTick r2 \<le> nrTick r3"
          "nrLimiters r3 = nrLimiters r2" "books r3 = books r2"
        using applyResize_spec [OF x k1 refl] fm by (force simp: books_def)
      have "drawn env node bucket r1 ps b2 r3" using drawn_allow [OF a ps(4-7,1)] ps(2) ok by simp
      then have "drawn env node bucket r ps b2 r3" using drawn_trans [OF d0] by fastforce
      moreover have "byKey' = mput (DKey d) pod1 byKey" "bucket' = b2" "sameCore r3 r'" using att ok by simp_all
      ultimately show ?thesis using ok1 ps(3) True drawn_step by blast
    qed
  qed
qed

lemma applyLoop_spec:
  assumes "applyLoop env node cfg stats nodePods ds byKey bucket rl errs r = (out, r')"
    and "patchKeepsName env" and "keysOk byKey"
  shows "\<exists>ps bucket' ds'. drawn env node bucket r ps bucket' r' \<and> list_all2 (resizeOf (fieldManager r)) ps ds'
    \<and> subseq ds' ds \<and> (\<forall>d \<in> set ds'. Apply d \<and> \<not> rcDryRun cfg)"
  using assms
proof (induction ds arbitrary: byKey bucket rl errs r)
  case Nil
  then show ?case using drawn_refl [OF sameCore_refl] by force
next
  case (Cons d ds)
  obtain step byKey1 b1 r1 where one: "applyOne env node cfg stats nodePods d byKey bucket r = (step, byKey1, b1, r1)"
    by (metis prod.exhaust)
  obtain ps1 where keys: "keysOk byKey1" and d1: "drawn env node bucket r ps1 b1 r1"
      and ps1: "ps1 = [] \<or> Apply d \<and> \<not> rcDryRun cfg \<and> (\<exists>p. ps1 = [p] \<and> resizeOf (fieldManager r) p d)"
    using applyOne_spec [OF one Cons.prems(2,3)] by blast
  obtain es1 where es1: "list_all2 (resizeOf (fieldManager r)) ps1 es1" "subseq es1 [d]"
      "\<forall>d \<in> set es1. Apply d \<and> \<not> rcDryRun cfg"
    using ps1 by (cases "ps1 = []") (force, force)
  have fm: "fieldManager r1 = fieldManager r" using d1 by (intro fieldManager_knobs) (simp add: drawn_def)
  have more: ?case if "drawn env node b1 r1 ps2 b2 r'" "list_all2 (resizeOf (fieldManager r)) ps2 es2" "subseq es2 ds"
      "\<forall>d \<in> set es2. Apply d \<and> \<not> rcDryRun cfg" for ps2 b2 es2
  proof (intro exI conjI)
    show "drawn env node bucket r (ps1 @ ps2) b2 r'" using d1 that(1) by (rule drawn_trans)
    show "list_all2 (resizeOf (fieldManager r)) (ps1 @ ps2) (es1 @ es2)"
      using es1(1) that(2) by (rule list_all2_appendI)
    show "subseq (es1 @ es2) (d # ds)" using list_emb_append_mono [OF es1(2) that(3)] by simp
    show "\<forall>d \<in> set (es1 @ es2). Apply d \<and> \<not> rcDryRun cfg" using es1(3) that(4) by auto
  qed
  show ?case
  proof (cases step)
    case (Next res es)
    then have "applyLoop env node cfg stats nodePods ds byKey1 b1 (rl \<or> res) (errs @ es) r1 = (out, r')"
      using Cons.prems(1) one by simp
    from Cons.IH [OF this Cons.prems(2) keys] show ?thesis unfolding fm using more by blast
  next
    case Break
    then have "r' = r1" using Cons.prems(1) one by simp
    then show ?thesis using more [of "[]" b1 "[]"] drawn_refl [OF sameCore_refl] by simp
  next
    case Panic
    then have "r' = r1" using Cons.prems(1) one by simp
    then show ?thesis using more [of "[]" b1 "[]"] drawn_refl [OF sameCore_refl] by simp
  qed
qed

section \<open>The phases of a reconcile\<close>

text \<open>The state after the gauges of a node and its pods are published.\<close>

definition published :: "string \<Rightarrow> NodeStats \<Rightarrow> Decision list \<Rightarrow> PodInput list \<Rightarrow> (string, Pod) gomap \<Rightarrow>
    NodeReconciler \<Rightarrow> NodeReconciler" where
  "published node stats ds inputs byKey r =
     (let (m, current) = publishPods ds byKey (publishNode node stats ds inputs byKey (nrMetrics r))
      in syncPodMetrics node current (r\<lparr>nrMetrics := m\<rparr>))"

definition verdict_of :: "nodeEnv \<Rightarrow> (string, Pod) gomap \<Rightarrow> Time \<Rightarrow> bool \<times> goError list \<Rightarrow> NodeReconciler \<Rightarrow>
    reconcileResult \<times> NodeReconciler" where
  "verdict_of env byKey judgedAt out r =
     (if snd out \<noteq> [] then (failed (Joined (snd out)), r)
      else if fst out then (requeue Second, r)
      else let (d, r) = backoffRequeue env (map fst byKey) judgedAt r in (requeue d, r))"

lemma sameCore_verdict: "verdict_of env byKey t out r = (res, r') \<Longrightarrow> sameCore r r'"
  by (auto simp: verdict_of_def Let_def dest: sameCore_backoffRequeue split: if_splits prod.splits)

lemma reconcilePods_split:
  assumes "reconcilePods env node cfg alloc nodeManaged pods r = (res, r')"
  obtains
    (refused) e where "buildInputs env cfg pods nodeManaged (r\<lparr>nrTick := Suc (nrTick r)\<rparr>) = (Inl e, r')" "res = Some (failed e)"
  | (applied) inputs byKey r1 stats ds bucket r2 out r3 where
      "buildInputs env cfg pods nodeManaged (r\<lparr>nrTick := Suc (nrTick r)\<rparr>) = (Inr (inputs, byKey), r1)"
      "Compute alloc inputs (rcPolicy cfg) = (stats, ds)"
      "limiterFor env node (rcPerNodePPS cfg) (published node stats ds inputs byKey r1) = (bucket, r2)"
      "applyLoop env node cfg stats (int (length inputs)) ds byKey bucket False [] r2 = (out, r3)"
      "case out of None \<Rightarrow> res = None \<and> r' = r3
       | Some x \<Rightarrow> \<exists>res'. res = Some res' \<and> verdict_of env byKey (envClock env (nrTick r)) x r3 = (res', r')"
proof -
  obtain a r1 where b: "buildInputs env cfg pods nodeManaged (r\<lparr>nrTick := Suc (nrTick r)\<rparr>) = (a, r1)" by fastforce
  show thesis
  proof (cases a)
    case (Inl e)
    then show thesis using refused assms b by (simp add: reconcilePods_def)
  next
    case (Inr x)
    obtain inputs byKey where x: "x = (inputs, byKey)" by fastforce
    obtain stats ds where c: "Compute alloc inputs (rcPolicy cfg) = (stats, ds)" by fastforce
    obtain bucket r2 where l: "limiterFor env node (rcPerNodePPS cfg) (published node stats ds inputs byKey r1) = (bucket, r2)"
      by fastforce
    obtain out r3 where o: "applyLoop env node cfg stats (int (length inputs)) ds byKey bucket False [] r2 = (out, r3)"
      by fastforce
    have l': "limiterFor env node (rcPerNodePPS cfg)
        (case publishPods ds byKey (publishNode node stats ds inputs byKey (nrMetrics r1)) of
           (m, current) \<Rightarrow> syncPodMetrics node current (r1\<lparr>nrMetrics := m\<rparr>)) = (bucket, r2)"
      using l by (simp add: published_def)
    have "case out of None \<Rightarrow> res = None \<and> r' = r3
       | Some x \<Rightarrow> \<exists>res'. res = Some res' \<and> verdict_of env byKey (envClock env (nrTick r)) x r3 = (res', r')"
      using assms b Inr x c l' o
      by (auto simp: reconcilePods_def verdict_of_def Let_def meter_def split: prod.splits option.splits if_splits)
    then show thesis using applied b Inr x c l o by blast
  qed
qed

lemma setDebounce_tick [simp]: "(setDebounce d r)\<lparr>nrTick := t\<rparr> = setDebounce d (r\<lparr>nrTick := t\<rparr>)"
    "nrTick (setDebounce d r) = nrTick r"
  by (simp_all add: setDebounce_def)

lemma sameCore_later [simp]: "sameCore r (r\<lparr>nrTick := t\<rparr>) \<longleftrightarrow> nrTick r \<le> t"
  by (auto simp: sameCore_def knobs_def issued_def)

text \<open>The four reads before the pods are judged: the poller, the configuration, the node and
  its pods. \<open>readAt\<close> is the state after the first \<open>n\<close> of them, with the debounce set from
  the configuration.\<close>

definition readAt :: "resolvedConfig \<Rightarrow> nat \<Rightarrow> NodeReconciler \<Rightarrow> NodeReconciler" where
  "readAt cfg n r = setDebounce (rcDebouncePeriod cfg) (r\<lparr>nrTick := nrTick r + n\<rparr>)"

definition configAt :: "nodeEnv \<Rightarrow> NodeReconciler \<Rightarrow> apiError + resolvedConfig" where
  "configAt env r = fst (loadConfig env (r\<lparr>nrTick := Suc (nrTick r)\<rparr>))"

lemma Reconcile_split:
  assumes "Reconcile env node r = (res, r')"
  obtains
    (quiet) res1 where "sameCore r r'" "nrBackoff r' = nrBackoff r" "res = Some res1"
  | (settled) cfg n res1 where "configAt env r = Inr cfg" "res = Some res1" "r' = readAt cfg n r"
  | (gone) cfg m where "configAt env r = Inr cfg" "res = Some (requeue 0)"
      "envNode env (nrTick r + 2) node = Inl (NotFound m)" "r' = forgetNode node (readAt cfg 3 r)"
  | (listed) cfg nd pods where "configAt env r = Inr cfg"
      "envNode env (nrTick r + 2) node = Inr nd" "envPodsOn env (nrTick r + 3) node = Inr pods"
      "reconcilePods env node cfg (MilliValue (Cpu (nAllocatable nd))) (NodeManageable nd (rcSpec cfg)) pods
         (readAt cfg 4 r) = (res, r')"
proof (cases "Synced (envVPAs env (nrTick r)) \<and> (\<exists>cfg. configAt env r = Inr cfg)")
  case False
  then show thesis using assms quiet
    by (cases "configAt env r") (auto simp: Reconcile_def configAt_def loadConfig_def core_steps split: if_splits)
next
  case True
  then obtain cfg where synced: "Synced (envVPAs env (nrTick r))" and c: "configAt env r = Inr cfg" by blast
  then have l: "loadConfig env (r\<lparr>nrTick := Suc (nrTick r)\<rparr>) = (Inr cfg, r\<lparr>nrTick := nrTick r + 2\<rparr>)"
    by (simp add: configAt_def loadConfig_def numeral_2_eq_2)
  note R = assms [unfolded Reconcile_def ask_simps Let_def prod.case, simplified synced l, simplified]
  show thesis
  proof (cases "envNode env (nrTick r + 2) node")
    case (Inl e)
    then show thesis
    proof (cases e)
      case (NotFound m)
      then show thesis using R Inl by (intro gone [OF c]) (auto simp: readAt_def numeral_3_eq_3)
    qed (use R Inl in \<open>auto simp: readAt_def numeral_3_eq_3 intro!: settled [OF c, of _ 3]\<close>)
  next
    case nd: (Inr nd)
    show thesis
    proof (cases "envPodsOn env (nrTick r + 3) node")
      case (Inl e)
      then show thesis using R nd by (intro settled [OF c, of _ 4]) (auto simp: readAt_def numeral_3_eq_3 eval_nat_numeral)
    next
      case (Inr pods)
      then show thesis using R nd by (intro listed [OF c nd Inr]) (auto simp: readAt_def eval_nat_numeral)
    qed
  qed
qed

lemma Reconcile_listed:
  assumes "Synced (envVPAs env (nrTick r))" "configAt env r = Inr cfg" "envNode env (nrTick r + 2) node = Inr nd"
    "envPodsOn env (nrTick r + 3) node = Inr pods"
  shows "Reconcile env node r = reconcilePods env node cfg (MilliValue (Cpu (nAllocatable nd)))
    (NodeManageable nd (rcSpec cfg)) pods (readAt cfg 4 r)"
proof -
  have "loadConfig env (r\<lparr>nrTick := Suc (nrTick r)\<rparr>) = (Inr cfg, r\<lparr>nrTick := nrTick r + 2\<rparr>)"
    using assms(2) by (simp add: configAt_def loadConfig_def numeral_2_eq_2)
  then show ?thesis using assms by (simp add: Reconcile_def readAt_def eval_nat_numeral)
qed

lemma reconcilePods_applied:
  assumes "buildInputs env cfg pods nodeManaged (r\<lparr>nrTick := Suc (nrTick r)\<rparr>) = (Inr (inputs, byKey), r1)"
    "Compute alloc inputs (rcPolicy cfg) = (stats, ds)"
    "limiterFor env node (rcPerNodePPS cfg) (published node stats ds inputs byKey r1) = (bucket, r2)"
    "applyLoop env node cfg stats (int (length inputs)) ds byKey bucket False [] r2 = (Some out, r3)"
    "verdict_of env byKey (envClock env (nrTick r)) out r3 = (res, r')"
  shows "reconcilePods env node cfg alloc nodeManaged pods r = (Some res, r')"
proof -
  obtain m current where p: "publishPods ds byKey (publishNode node stats ds inputs byKey (nrMetrics r1)) = (m, current)"
    by fastforce
  then have "limiterFor env node (rcPerNodePPS cfg) (syncPodMetrics node current (r1\<lparr>nrMetrics := m\<rparr>)) = (bucket, r2)"
    using assms(3) by (simp add: published_def)
  then show ?thesis using assms(1,2,4,5) p
    by (cases out) (auto simp: reconcilePods_def verdict_of_def meter_def Let_def split: if_splits prod.splits)
qed

section \<open>Resizes of a whole reconcile\<close>

lemma issued_published [simp]: "issued (published node stats ds inputs byKey r) = issued r"
  by (simp add: published_def split: prod.splits)

lemma decisions_are_managed:
  assumes "Compute alloc inputs cfg = (stats, ds)" "d \<in> set ds"
  shows "\<exists>inp \<in> set inputs. Managed inp \<and> Key inp = DKey d"
proof -
  obtain inp where "inp \<in> set (filter Managed inputs)" "d = decide inp stats cfg"
    using assms by (auto simp: Compute_def Let_def split: prod.splits)
  then show ?thesis by (auto simp: decide_def Let_def)
qed

lemma loadConfig_enforcing:
  assumes "loadConfig env r = (Inr cfg, r')" "\<not> rcDryRun cfg"
  shows "\<exists>n hc. envConfig env n = Inr hc \<and> specDryRun (hcSpec hc) = Some False \<and> rcSpec cfg = hcSpec hc"
proof (cases "envConfig env (nrTick r)")
  case (Inl e)
  then show ?thesis using assms by (cases e) (auto simp: loadConfig_def)
next
  case (Inr hc)
  then have "specDryRun (hcSpec hc) = Some False \<and> rcSpec cfg = hcSpec hc"
    using assms by (auto simp: loadConfig_def resolveConfig_def Let_def split: option.splits)
  then show ?thesis using Inr by blast
qed

lemma held_setDebounce [simp]: "held env (setDebounce d r) key = held env r key"
  by (simp add: setDebounce_def held_def)

lemma limiterFor_issued: "limiterFor env node pps r = (bucket, r') \<Longrightarrow> issued r' = issued r"
  using issued_accounting(4) [of env node pps r] by simp

text \<open>The resizes one reconcile issues, against the inputs and the decisions they come from.\<close>

lemma reconcilePods_resizes:
  assumes "reconcilePods env node cfg alloc nodeManaged pods r = (res, r')" "patchKeepsName env"
  shows "\<exists>ps. issued r' = issued r @ ps \<and> (\<forall>p \<in> set ps. \<not> rcDryRun cfg \<and> nodeManaged \<and> \<not> held env r (patchKey p)
    \<and> (\<exists>pod \<in> set pods. podKey pod = patchKey p \<and> passedGates env (rcSpec cfg) pod))"
  using assms(1)
proof (cases rule: reconcilePods_split)
  case (refused e)
  then show ?thesis using issued_sameCore [OF sameCore_buildInputs [OF refused(1)]] by simp
next
  case (applied inputs byKey r1 stats ds bucket r2 out r3)
  have i1: "issued r1 = issued r" using issued_sameCore [OF sameCore_buildInputs [OF applied(1)]] by simp
  have i2: "issued r2 = issued r" using limiterFor_issued [OF applied(3)] i1 by simp
  have "keysOk byKey" using buildInputs_spec(2) [OF applied(1)] by (simp add: keysOk_def)
  then obtain ps bucket' ds' where ps: "drawn env node bucket r2 ps bucket' r3"
      "list_all2 (resizeOf (fieldManager r2)) ps ds'" "subseq ds' ds" "\<forall>d \<in> set ds'. Apply d \<and> \<not> rcDryRun cfg"
    using applyLoop_spec [OF applied(4) assms(2)] by blast
  have i3: "issued r' = issued r3"
    using applied(5) by (auto split: option.splits dest: issued_sameCore [OF sameCore_verdict])
  have "\<not> rcDryRun cfg \<and> nodeManaged \<and> \<not> held env r (patchKey p)
    \<and> (\<exists>pod \<in> set pods. podKey pod = patchKey p \<and> passedGates env (rcSpec cfg) pod)" if p: "p \<in> set ps" for p
  proof -
    obtain d where d: "d \<in> set ds'" "patchKey p = DKey d"
      using ps(2) p unfolding list_all2_conv_all_nth in_set_conv_nth resizeOf_def by metis
    have "d \<in> set ds" using list_emb_set [OF ps(3) d(1)] by blast
    then obtain inp where "inp \<in> set inputs" "Managed inp" "Key inp = DKey d"
      using decisions_are_managed [OF applied(2)] by blast
    then show ?thesis using buildInputs_spec(1) [OF applied(1)] ps(4) d by fastforce
  qed
  then show ?thesis using ps(1) i2 i3 by (intro exI [of _ ps]) (simp add: drawn_def)
qed

lemma issued_readAt [simp]: "issued (readAt cfg n r) = issued r"
  by (simp add: readAt_def)

lemma held_readAt [simp]: "held env (readAt cfg n r) key = held env r key"
  by (simp add: readAt_def)

lemma configAt_enforcing:
  "configAt env r = Inr cfg \<Longrightarrow> \<not> rcDryRun cfg \<Longrightarrow>
   \<exists>n hc. envConfig env n = Inr hc \<and> specDryRun (hcSpec hc) = Some False \<and> rcSpec cfg = hcSpec hc"
  unfolding configAt_def using loadConfig_enforcing by (metis prod.collapse)

text \<open>Every condition under which the reconciler may resize a pod of a node.\<close>

definition mayResize :: "nodeEnv \<Rightarrow> string \<Rightarrow> NodeReconciler \<Rightarrow> string \<Rightarrow> bool" where
  "mayResize env node r key \<longleftrightarrow> \<not> held env r key
     \<and> (\<exists>hc nd pods pod. (\<exists>n. envConfig env n = Inr hc) \<and> (\<exists>n. envNode env n node = Inr nd)
          \<and> (\<exists>n. envPodsOn env n node = Inr pods) \<and> specDryRun (hcSpec hc) = Some False
          \<and> NodeManageable nd (hcSpec hc) \<and> pod \<in> set pods \<and> podKey pod = key \<and> passedGates env (hcSpec hc) pod)"

end
