(* ===== verification/NodeSample.thy ===== *)
theory NodeSample
  imports NodeGates EligibilityProps
begin

text \<open>
  One reconcile of the sample cluster, evaluated: the configuration is read, the pod is
  judged and gets its target, and the loop issues one resize. The witnesses of the
  properties of the node reconciler run on it.
\<close>

lemmas sampleEnv_simps = sampleEnv_def sample_config_defs

definition nodeRcs :: "ResizableContainer list" where
  "nodeRcs =
     [\<lparr>rcName = ''app'', rcRequestMilli = 200, rcLimitMilli = 0, rcRestartOnResize = False\<rparr>,
      \<lparr>rcName = ''proxy'', rcRequestMilli = 100, rcLimitMilli = 0, rcRestartOnResize = False\<rparr>]"

lemma nodeRcs_eval: "ResizableContainers samplePod = nodeRcs"
  by (simp add: ResizableContainers_def nodeRcs_def sample_defs toResizable_def cpuRestartOnResize_def
      isRestartableInitContainer_def Cpu_def resourceNamed_def entries_def)

definition sampleCfg :: resolvedConfig where
  "sampleCfg = \<lparr>rcPolicy = \<lparr>MinBurstFloorMilli = 1000, MaxMultiplier = F 10,
       DeadbandGrow = F (3602879701896397 / 36028797018963968), DeadbandShrink = F (3602879701896397 / 72057594037927936),
       QuantumMilli = 10\<rparr>,
     rcSpec = sampleSpec, rcDryRun = False, rcPerNodePPS = F 10, rcDebouncePeriod = 2000000000\<rparr>"

lemma sampleCfg_eval: "configAt sampleEnv r = Inr sampleCfg"
  by (simp add: configAt_def loadConfig_def sampleEnv_simps resolveConfig_def sampleCfg_def
      AsApproximateFloat64_def MilliValue_def ScaledValue_def AsScaledInt64_def positiveScaleInt64_def NewMilliQuantity_def int64_eval float_eval Let_def)

definition sampleInput :: PodInput where
  "sampleInput = \<lparr>Key = ''ns/web'', RequestMilli = 300, BookedDeltaMilli = 250, CurrentLimitMilli = 0, Managed = True,
     HoldsShare = False, UserCapMilli = 0, LimitRangeCap = 0, AboveRequest = False\<rparr>"

lemma samplePod_facts:
  "podKey samplePod = ''ns/web''" "pUID samplePod = ''u1''" "podUserCapMilli (\<lambda>s. None) samplePod = 0"
  "\<not> guaranteedAtRequest samplePod" "specExcludedOwners sampleSpec = []"
proof -
  show "\<not> guaranteedAtRequest samplePod"
    by (simp add: guaranteedAtRequest_def HasPodLevelResources_def pinned_def sample_pod_defs Memory_def resourceNamed_def
        entries_def zeroQ_def Sign_def ResourceMemory_def ResourceCPU_def)
qed (simp_all add: podKey_def podUserCapMilli_def strGet_def sample_pod_defs sampleSpec_def)

lemma sampleInput_eval:
  "(buildPodInput (\<lambda>s. None) samplePod nodeRcs True)
     \<lparr>HoldsShare := False, LimitRangeCap := LimitRangeCapMilli samplePod nodeRcs []\<rparr> = sampleInput"
  by (simp add: buildPodInput_def booked_samplePod sampleInput_def samplePod_facts PodCPURequestMilli_def nodeRcs_def
      int64_eval PodCurrentLimitMilli_def LimitRangeCapMilli_def Let_def)

lemma samplePod_gates:
  "Eligible samplePod nodeRcs" "\<not> OwnerExcluded samplePod []" "NamespaceManaged sampleNamespace sampleSpec"
  "\<not> podResizeInfeasible samplePod" "\<not> PodTerminal samplePod" "NodeManageable sampleNode sampleSpec"
  by (simp_all add: Eligible_def OwnerExcluded_def NamespaceManaged_def podResizeInfeasible_def PodTerminal_def
      sample_pod_defs sample_config_defs nodeRcs_def OptedOut_def strGet_def HasPodLevelResources_def ModeUnmanaged_def
      HasRestartOnResize_def NodeManageable_def PodCPURequestMilli_def int64_eval GetControllerOf_def osWindows_def)

lemma sample_inputs:
  assumes "mget (nrBackoff r) ''ns/web'' = None"
  shows "buildInputs sampleEnv sampleCfg [samplePod] True r = (Inr ([sampleInput], [(''ns/web'', samplePod)]),
    r\<lparr>nrTick := nrTick r + 3, nrVPASkipped := mdel ''u1'' (nrVPASkipped r)\<rparr>)"
  using assms by (simp add: buildInputs_def inputOfPod_def judgePod_def nodeRcs_eval samplePod_gates inBackoff_def
      samplePod_facts lookupNamespace_def lookupLimitRanges_def sampleEnv_def sampleCfg_def noteVPASkip_def
      ForNamespace_def addInput_def sampleInput_eval)

definition sampleStats :: NodeStats where
  "sampleStats = \<lparr>AllocatableMilli = 4000, TotalRequestsMilli = 550, ManagedRequestsMilli = 300, SlackMilli = 3450,
     ManagedPods = 1, Factor = F (25 / 2)\<rparr>"

definition sampleDecision :: Decision where
  "sampleDecision = \<lparr>DKey = ''ns/web'', TargetLimitMilli = 3000, Apply = True, Reason = ''set''\<rparr>"

lemma sample_floats:
  "fdiv (fmul (float_of_int 3450) (float_of_int 300)) (float_of_int 300) = F 3450"
  "fdiv (float_of_int 3450) (float_of_int 1) = F 3450"
  "fmin (float_of_int 1000) (F 3450) = F 1000"
  "fmax (F 3450) (F 1000) = F 3450"
  "fmul (float_of_int 300) (F 10) = F 3000"
  "round_away 3450 = 3450" "round_away 3000 = 3000" "trunc 3450 = 3450" "trunc 3000 = 3000"
  by (simp_all add: float_eval)

lemma sample_clamp: "clampAndQuantize 3750 300 4000 0 (rcPolicy sampleCfg) = 3000"
proof -
  have m: "int_of_float (fround (fmul (float_of_int 300) (F 10))) = 3000" by (simp add: sample_floats in64_def)
  have "MaxMultiplier (rcPolicy sampleCfg) = F 10" "QuantumMilli (rcPolicy sampleCfg) = 10" "fless (F 0) (F 10)"
    by (simp_all add: sampleCfg_def)
  note k = this m
  show ?thesis unfolding clampAndQuantize_def Let_def k if_True by (simp add: int64_eval)
qed

lemma sample_decide: "decide sampleInput sampleStats (rcPolicy sampleCfg) = sampleDecision"
proof -
  have "MinBurstFloorMilli (rcPolicy sampleCfg) = 1000" by (simp add: sampleCfg_def)
  moreover have "finalize sampleInput 3000 ''set'' (rcPolicy sampleCfg) = sampleDecision"
    by (simp add: finalize_def sampleInput_def sampleDecision_def)
  ultimately show ?thesis
    by (simp add: decide_def sampleStats_def sampleInput_def sample_floats sample_clamp capMilli_def reasonFor_def int64_eval)
qed

lemma sample_compute: "Compute 4000 [sampleInput] (rcPolicy sampleCfg) = (sampleStats, [sampleDecision])"
proof -
  have "tally [sampleInput] (0, 0, 0) = (550, 300, 1)" by (simp add: sampleInput_def int64_eval)
  moreover have "filter Managed [sampleInput] = [sampleInput]" by (simp add: sampleInput_def)
  moreover have "fadd (F 1) (fdiv (float_of_int 3450) (float_of_int 300)) = F (25 / 2)" by (simp add: float_eval)
  ultimately show ?thesis using sample_decide by (simp add: Compute_def int64_eval sampleStats_def)
qed

lemma sample_split: "splitLimit 3000 nodeRcs = Some [(''app'', 2000), (''proxy'', 1000)]"
  by (simp add: splitLimit_def nodeRcs_def PodCPURequestMilli_def shareOf_def int64_eval float_eval Let_def)

definition samplePatch :: ResizePatch where
  "samplePatch = \<lparr>ptNamespace = ''ns'', ptName = ''web'', ptContainers = [(''app'', NewMilliQuantity 2000)],
     ptInitContainers = [(''proxy'', NewMilliQuantity 1000)], ptFieldOwner = ''headroom''\<rparr>"

lemma sample_body: "resizeBody samplePod nodeRcs [(''app'', 2000), (''proxy'', 1000)] ''headroom'' = samplePatch"
  by (simp add: resizeBody_def nodeRcs_def samplePatch_def sample_pod_defs)

section \<open>One reconcile\<close>

text \<open>A state in which the sample pod is not backing off and the node has a full bucket.\<close>

definition freshFor :: "NodeReconciler \<Rightarrow> bool" where
  "freshFor r \<longleftrightarrow> nrBackoff r = [] \<and> nrLimiters r = [] \<and> nrFieldManager r = ''''"

lemma sample_write:
  "\<exists>r'. writePodStatus sampleEnv samplePod st r = (None, samplePod, r') \<and> sameCore r r' \<and> nrBackoff r' = nrBackoff r
    \<and> nrTick r' = nrTick r + 2"
  by (auto simp: writePodStatus_def sampleEnv_def samplePod_def strGet_def emit_def Let_def sameCore_def knobs_def issued_def)

lemma sample_applyOne:
  assumes "nrFieldManager r = ''''"
  shows "\<exists>byKey' bucket' r'. applyOne sampleEnv ''node1'' sampleCfg sampleStats 1 sampleDecision [(''ns/web'', samplePod)]
      (NewLimiter (F 10) 10) r = (Next False [], byKey', bucket', r') \<and> issued r' = issued r @ [samplePatch]
      \<and> nrBackoff r' = nrBackoff r \<and> nrTick r' = nrTick r + 4"
proof -
  have dry: "\<not> rcDryRun sampleCfg" by (simp add: sampleCfg_def)
  obtain r1 where w: "writePodStatus sampleEnv samplePod (buildPodStatus sampleStats 1 3000 False) r = (None, samplePod, r1)"
      "sameCore r r1" "nrBackoff r1 = nrBackoff r" "nrTick r1 = nrTick r + 2" using sample_write by blast
  have fm: "fieldManager r1 = ''headroom''"
    using w(2) assms by (simp add: sameCore_def knobs_def fieldManager_def defaultFieldManager_def)
  have "limiter_ok (NewLimiter (F 10) 10)" using limiter_ok_New [of 10] by simp
  then have "fst (AllowN (NewLimiter (F 10) 10) (envWall sampleEnv (nrTick r1)) 1)"
    by (rule AllowN_rested) (simp add: NewLimiter_def sampleEnv_def)
  then obtain b where a: "AllowN (NewLimiter (F 10) 10) (envWall sampleEnv (nrTick r1)) 1 = (True, b)"
    by (metis prod.collapse)
  obtain r2 where al: "allowPatch sampleEnv ''node1'' (NewLimiter (F 10) 10) r1 = (True, b, r2)"
      "issued r2 = issued r" "fieldManager r2 = ''headroom''" "nrBackoff r2 = nrBackoff r"
      "nrTick r2 = nrTick r + 3"
    using a fm w(2-4) by (auto simp: allowPatch_def sameCore_def fieldManager_def split: if_splits)
  have ap: "applyResize sampleEnv samplePod 3000 r2 = (Some None, (emit (ResizePatched samplePatch) r2)\<lparr>nrTick := Suc (nrTick r2)\<rparr>)"
    using sample_split al(3) sample_body by (simp add: applyResize_def nodeRcs_eval emit_def sampleEnv_def)
  show ?thesis
    using w(1) al ap dry by (simp add: applyOne_def sampleDecision_def recordEvent_def emit_def meter_def issued_def Let_def)
qed

lemma sample_run:
  assumes "freshFor r"
  shows "\<exists>r'. Reconcile sampleEnv ''node1'' r = (Some (requeue 0), r') \<and> issued r' = issued r @ [samplePatch]
    \<and> nrTick r' = nrTick r + 12 \<and> nrBackoff r' = []"
proof -
  let ?r1 = "readAt sampleCfg 4 r"
  have f: "nrBackoff ?r1 = []" "nrLimiters ?r1 = []" "nrFieldManager ?r1 = ''''" "nrTick ?r1 = nrTick r + 4"
    using assms by (simp_all add: freshFor_def readAt_def setDebounce_def)
  define r2 where "r2 = ?r1\<lparr>nrTick := nrTick ?r1 + 4, nrVPASkipped := mdel ''u1'' (nrVPASkipped ?r1)\<rparr>"
  let ?byKey = "[(''ns/web'', samplePod)]"
  let ?p = "published ''node1'' sampleStats [sampleDecision] [sampleInput] ?byKey r2"
  define r3 where "r3 = ?p\<lparr>nrLimiters := [(''node1'', NewLimiter (F 10) 10)]\<rparr>"
  have b: "buildInputs sampleEnv sampleCfg [samplePod] True (?r1\<lparr>nrTick := Suc (nrTick ?r1)\<rparr>) = (Inr ([sampleInput], ?byKey), r2)"
    using f(1) by (simp add: sample_inputs r2_def)
  have p: "nrLimiters ?p = []" "nrBackoff ?p = []" "nrFieldManager ?p = ''''" "nrTick ?p = nrTick r + 8"
    using f by (simp_all add: published_def syncPodMetrics_def refreshPodsManagedLocked_def meter_def r2_def Let_def
        split: prod.splits)
  have "issued r2 = issued ?r1" by (simp add: r2_def issued_def)
  then have i: "issued ?p = issued r" by simp
  have l: "limiterFor sampleEnv ''node1'' (rcPerNodePPS sampleCfg) ?p = (NewLimiter (F 10) 10, r3)"
    using p(1) by (simp add: limiterFor_def sampleCfg_def r3_def float_eval in64_def Let_def)
  obtain r4 where a: "applyLoop sampleEnv ''node1'' sampleCfg sampleStats (int (length [sampleInput])) [sampleDecision] ?byKey (NewLimiter (F 10) 10)
        False [] r3 = (Some (False, []), r4)" "issued r4 = issued r @ [samplePatch]" "nrBackoff r4 = []"
      "nrTick r4 = nrTick r + 12"
    using sample_applyOne [of r3] p i by (auto simp: r3_def)
  have v: "verdict_of sampleEnv ?byKey (envClock sampleEnv (nrTick ?r1)) (False, []) r4 = (requeue 0, r4)"
    using a(3) by (simp add: verdict_of_def backoffRequeue_def nextExpiry_def)
  have "Reconcile sampleEnv ''node1'' r = reconcilePods sampleEnv ''node1'' sampleCfg 4000 True [samplePod] ?r1"
    using Reconcile_listed [of sampleEnv r sampleCfg "''node1''" sampleNode "[samplePod]"] sampleCfg_eval [of r] samplePod_gates(6)
    by (simp add: sampleEnv_def Synced_def sampleCfg_def sampleNode_def cpuList_def Cpu_def resourceNamed_def entries_def)
  then show ?thesis
    using reconcilePods_applied [OF b sample_compute, OF l a(1) v] a(2-4) by simp
qed

lemma sample_names: "patchKeepsName sampleEnv"
  by (simp add: patchKeepsName_def sampleEnv_def)

end
