(* ===== verification/NodeProps.thy ===== *)
theory NodeProps
  imports NodeSample
begin

text \<open>
  The properties of whole runs of the node reconciler: which pods it resizes, that it
  returns, and that its own status writes settle.
\<close>

section \<open>Gates\<close>

text \<open>C2. Every resize that a reconcile issues is for a pod listed on that node that is
  eligible, not excluded by its owner, in a managed namespace, on a manageable node, free
  of an autoscaler that writes its limit, not reported infeasible and not inside a backoff
  window, under a configuration that enforces; and the resizes of earlier reconciles stay
  as they were.\<close>

theorem only_gated_pods_are_resized:
  assumes "Reconcile env node r = (res, r')" "patchKeepsName env"
  shows "\<exists>ps. issued r' = issued r @ ps \<and> (\<forall>p \<in> set ps. mayResize env node r (patchKey p))"
  using assms(1)
proof (cases rule: Reconcile_split)
  case (listed cfg nd pods)
  obtain ps where ps: "issued r' = issued r @ ps"
      "\<And>p. p \<in> set ps \<Longrightarrow> \<not> rcDryRun cfg \<and> NodeManageable nd (rcSpec cfg) \<and> \<not> held env r (patchKey p)
        \<and> (\<exists>pod \<in> set pods. podKey pod = patchKey p \<and> passedGates env (rcSpec cfg) pod)"
    using reconcilePods_resizes [OF listed(4) assms(2)] by auto
  have "mayResize env node r (patchKey p)" if "p \<in> set ps" for p
    unfolding mayResize_def using ps(2) [OF that] configAt_enforcing [OF listed(1)] listed(2,3) by metis
  then show ?thesis using ps(1) by blast
qed (auto simp: sameCore_def)

theorem only_gated_pods_are_resized_witness:
  "\<exists>r'. Reconcile sampleEnv ''node1'' newNodeReconciler = (Some (requeue 0), r') \<and> issued r' = [samplePatch]
    \<and> mayResize sampleEnv ''node1'' newNodeReconciler ''ns/web''"
proof -
  have "freshFor newNodeReconciler" "issued newNodeReconciler = []"
    by (simp_all add: freshFor_def newNodeReconciler_def issued_def)
  then obtain r' where r': "Reconcile sampleEnv ''node1'' newNodeReconciler = (Some (requeue 0), r')" "issued r' = [samplePatch]"
    using sample_run by fastforce
  moreover have "patchKey samplePatch = ''ns/web''" by (simp add: patchKey_def samplePatch_def)
  moreover have "mayResize sampleEnv ''node1'' newNodeReconciler (patchKey samplePatch)"
    using only_gated_pods_are_resized [OF r'(1) sample_names] r'(2) \<open>issued newNodeReconciler = []\<close> by auto
  ultimately show ?thesis by auto
qed

text \<open>C34. The gates fail closed. A pod that a reconcile puts under management stands on a node
  that is not Windows and that an exclusion selector, which must convert, does not match; its own
  mode label does not opt out, it is Burstable, and none of its owners is on the exclusion list;
  and its namespace was read, is not excluded by name, and opts in: by the selector, which must
  convert and match, or without one by the mode label.\<close>

theorem gates_fail_closed:
  assumes "buildInputs env cfg pods (NodeManageable nd (rcSpec cfg)) r = (Inr (inputs, byKey), r')"
    and "inp \<in> set inputs" "Managed inp"
  shows "nOperatingSystem nd \<noteq> ''windows'' \<and> mget (nLabels nd) LabelOSStable \<noteq> Some ''windows'' \<and>
    (case specExcludedNodeSelector (rcSpec cfg) of
       None \<Rightarrow> True
     | Some s \<Rightarrow> LabelSelectorAsSelector (Some s) \<noteq> None
         \<and> \<not> (list_all (\<lambda>(k, v). mget (nLabels nd) k = Some v) (MatchLabels s)
              \<and> list_all (\<lambda>e. expressionHolds e (nLabels nd)) (MatchExpressions s))) \<and>
    (\<exists>pod \<in> set pods. podKey pod = Key inp
       \<and> mget (pLabels pod) LabelMode \<noteq> Some ModeUnmanaged \<and> pQOSClass pod = ''Burstable''
       \<and> \<not> (\<exists>ref \<in> set (pOwnerReferences pod). \<exists>e \<in> set (specExcludedOwners (rcSpec cfg)).
            eoKind e = refKind ref \<and> eoName e \<in> {'''', refName ref} \<and>
            eoAPIGroup e \<in> {'''', takeWhile (\<lambda>c. c \<noteq> CHR ''/'') (refAPIVersion ref)})
       \<and> (\<exists>n ns. envNamespace env n (pNamespace pod) = Inr ns
            \<and> nsName ns \<notin> set (specExcludedNamespaces (rcSpec cfg))
            \<and> (case specNamespaceSelector (rcSpec cfg) of
                 None \<Rightarrow> mget (nsLabels ns) LabelMode = Some ModeManaged
               | Some s \<Rightarrow> LabelSelectorAsSelector (Some s) \<noteq> None
                   \<and> list_all (\<lambda>(k, v). mget (nsLabels ns) k = Some v) (MatchLabels s)
                   \<and> list_all (\<lambda>e. expressionHolds e (nsLabels ns)) (MatchExpressions s))))"
proof -
  obtain pod where node: "NodeManageable nd (rcSpec cfg)" and pod: "pod \<in> set pods" "podKey pod = Key inp"
    and passed: "passedGates env (rcSpec cfg) pod"
    using buildInputs_spec(1) [OF assms(1)] assms(2,3) by blast
  have el: "Eligible pod (ResizableContainers pod)" and ow: "\<not> OwnerExcluded pod (specExcludedOwners (rcSpec cfg))"
    using passed by (simp_all add: passedGates_def)
  obtain n ns where ns: "envNamespace env n (pNamespace pod) = Inr ns" "NamespaceManaged ns (rcSpec cfg)"
    using passed by (auto simp: passedGates_def)
  note nsem = conjunct1 [OF gates_semantics, THEN iffD1, OF ns(2)]
    and nodesem = conjunct2 [OF gates_semantics, THEN iffD1, OF node]
  have "\<exists>n ns. envNamespace env n (pNamespace pod) = Inr ns
      \<and> nsName ns \<notin> set (specExcludedNamespaces (rcSpec cfg))
      \<and> (case specNamespaceSelector (rcSpec cfg) of
           None \<Rightarrow> mget (nsLabels ns) LabelMode = Some ModeManaged
         | Some s \<Rightarrow> LabelSelectorAsSelector (Some s) \<noteq> None
             \<and> list_all (\<lambda>(k, v). mget (nsLabels ns) k = Some v) (MatchLabels s)
             \<and> list_all (\<lambda>e. expressionHolds e (nsLabels ns)) (MatchExpressions s))"
    using ns(1) nsem by blast
  then show ?thesis
    using nodesem pod eligible_not_opted_out [OF el] ow [unfolded ownerExcluded_iff] by blast
qed

theorem gates_fail_closed_witness:
  "\<exists>r'. buildInputs sampleEnv sampleCfg [samplePod] (NodeManageable sampleNode (rcSpec sampleCfg)) newNodeReconciler
      = (Inr ([sampleInput], [(''ns/web'', samplePod)]), r')
    \<and> mget (pLabels samplePod) LabelMode \<noteq> Some ModeUnmanaged
    \<and> (\<exists>n ns. envNamespace sampleEnv n ''ns'' = Inr ns \<and> nsName ns \<noteq> ''kube-system'')"
proof -
  have "NodeManageable sampleNode (rcSpec sampleCfg)" "Managed sampleInput"
    using samplePod_gates(6) by (simp_all add: sampleCfg_def sampleInput_def)
  then obtain r' where b: "buildInputs sampleEnv sampleCfg [samplePod] (NodeManageable sampleNode (rcSpec sampleCfg))
      newNodeReconciler = (Inr ([sampleInput], [(''ns/web'', samplePod)]), r')"
    using sample_inputs [of newNodeReconciler] by (simp add: newNodeReconciler_def)
  from gates_fail_closed [OF b, of sampleInput] \<open>Managed sampleInput\<close> b show ?thesis
    by (auto simp: sampleCfg_def sampleSpec_def samplePod_def)
qed

section \<open>No panic\<close>

text \<open>The API server admits no negative CPU request: none is in a listing, and the answer to a
  patch of the metadata brings none in.\<close>

definition nonnegRequests :: "Pod \<Rightarrow> bool" where
  "nonnegRequests pod \<longleftrightarrow> (\<forall>c \<in> set (ResizableContainers pod). 0 \<le> rcRequestMilli c)"

definition admitsNonneg :: "nodeEnv \<Rightarrow> bool" where
  "admitsNonneg env \<longleftrightarrow> (\<forall>n node pods. envPodsOn env n node = Inr pods \<longrightarrow> list_all nonnegRequests pods)
     \<and> (\<forall>n pod data pod'. envPatchStatus env n pod data = Inr pod' \<longrightarrow> nonnegRequests pod \<longrightarrow> nonnegRequests pod')"

lemma splitLoop_rems:
  assumes "splitLoop T S i rcs (out, assigned, rems) = (out', assigned', rems')" "c \<in> set rcs" "0 < rcRequestMilli c"
  shows "rems' \<noteq> []"
proof -
  have keep: "snd (snd (splitLoop T S i rcs (out, assigned, rems))) \<noteq> []" if "rems \<noteq> []"
    for T S i rcs out assigned rems
    using that by (induction rcs arbitrary: i out assigned rems) (simp_all add: Let_def)
  have "snd (snd (splitLoop T S i rcs (out, assigned, rems))) \<noteq> []"
    using assms(2,3) by (induction rcs arbitrary: i out assigned rems) (auto simp: Let_def keep)
  then show ?thesis using assms(1) by simp
qed

lemma insertRem_nonempty [simp]: "insertRem x rs \<noteq> []"
  by (cases rs) auto

lemma sortRems_nonempty: "rs \<noteq> [] \<Longrightarrow> sortRems rs \<noteq> []"
  by (cases rs) (simp_all add: sortRems_def)

lemma splitLimit_no_panic:
  assumes "\<forall>c \<in> set rcs. 0 \<le> rcRequestMilli c"
  shows "splitLimit T rcs \<noteq> None"
proof (cases "\<exists>c \<in> set rcs. 0 < rcRequestMilli c")
  case True
  obtain out assigned rems where l: "splitLoop T (PodCPURequestMilli rcs) 0 rcs ([], 0, []) = (out, assigned, rems)"
    by (metis prod.exhaust)
  have "sortRems rems \<noteq> []" using splitLoop_rems [OF l] True sortRems_nonempty by blast
  then show ?thesis using l by (simp add: splitLimit_def Let_def)
next
  case False
  then have "\<forall>c \<in> set rcs. rcRequestMilli c = 0" using assms by force
  then have "totalRequest rcs = 0" unfolding totalRequest_def by (induction rcs) simp_all
  then have "PodCPURequestMilli rcs = 0" by (simp add: PodCPURequestMilli_eq wrap64_def)
  then show ?thesis by (simp add: splitLimit_def)
qed

lemma writePodStatus_nonneg:
  "admitsNonneg env \<Longrightarrow> nonnegRequests pod \<Longrightarrow> writePodStatus env pod desired r = (e, pod', r') \<Longrightarrow> nonnegRequests pod'"
  by (auto simp: writePodStatus_def Let_def admitsNonneg_def split: if_splits option.splits sum.splits)

lemma applyResize_no_panic:
  "nonnegRequests pod \<Longrightarrow> applyResize env pod target r = (a, r') \<Longrightarrow> a \<noteq> None"
  using splitLimit_no_panic [of "ResizableContainers pod" target]
  by (auto simp: applyResize_def nonnegRequests_def Let_def split: if_splits)

lemma applyOne_no_panic:
  assumes "applyOne env node cfg stats nodePods d byKey bucket r = (step, byKey', bucket', r')"
    and "admitsNonneg env" "\<forall>key pod. mget byKey key = Some pod \<longrightarrow> nonnegRequests pod"
  shows "step \<noteq> Panic \<and> (\<forall>key pod. mget byKey' key = Some pod \<longrightarrow> nonnegRequests pod)"
proof (cases "mget byKey (DKey d)")
  case None
  then show ?thesis using assms by (auto simp: applyOne_def)
next
  case (Some pod)
  obtain e pod1 r1 where w: "writePodStatus env pod (buildPodStatus stats nodePods (TargetLimitMilli d) (rcDryRun cfg)) r = (e, pod1, r1)"
    by (metis prod.exhaust)
  have n1: "nonnegRequests pod1" using writePodStatus_nonneg [OF assms(2) _ w] assms(3) Some by blast
  have "byKey' = mput (DKey d) pod1 byKey"
    using assms(1) Some w by (auto simp: applyOne_def Let_def split: if_splits prod.splits option.splits)
  then have keys: "\<forall>key pod. mget byKey' key = Some pod \<longrightarrow> nonnegRequests pod"
    using assms(3) n1 by (auto simp: gomap_simps)
  obtain ok b2 r2 where a: "allowPatch env node bucket r1 = (ok, b2, r2)" by (metis prod.exhaust)
  obtain x r3 where x: "applyResize env pod1 (TargetLimitMilli d) r2 = (Some x, r3)"
    using applyResize_no_panic [OF n1] by (metis not_None_eq prod.exhaust)
  have "step \<noteq> Panic"
    using assms(1) Some w a x by (cases x) (auto simp: applyOne_def Let_def split: if_splits prod.splits)
  then show ?thesis using keys by blast
qed

lemma applyLoop_no_panic:
  assumes "admitsNonneg env" "\<forall>key pod. mget byKey key = Some pod \<longrightarrow> nonnegRequests pod"
  shows "fst (applyLoop env node cfg stats nodePods ds byKey bucket rl errs r) \<noteq> None"
  using assms(2)
proof (induction ds arbitrary: byKey bucket rl errs r)
  case (Cons d ds)
  obtain step byKey1 b1 r1 where one: "applyOne env node cfg stats nodePods d byKey bucket r = (step, byKey1, b1, r1)"
    by (metis prod.exhaust)
  from applyOne_no_panic [OF one assms(1) Cons.prems] show ?case
    using Cons.IH [of byKey1] one by (cases step) auto
qed simp

text \<open>C13. As long as the API server serves no pod with a negative CPU request, no reconcile
  panics, whatever else it answers and in whatever state the reconciler is: every call returns
  a result or an error to the work queue.\<close>

theorem reconcile_never_panics:
  assumes "admitsNonneg env"
  shows "\<exists>res r'. Reconcile env node r = (Some res, r')"
proof -
  obtain res r' where R: "Reconcile env node r = (res, r')" by fastforce
  then have "res \<noteq> None"
  proof (cases rule: Reconcile_split)
    case (listed cfg nd pods)
    have pods: "list_all nonnegRequests pods" using assms listed(3) by (auto simp: admitsNonneg_def)
    from listed(4) show ?thesis
    proof (cases rule: reconcilePods_split)
      case (applied inputs byKey r1 stats ds bucket r2 out r3)
      have "\<forall>key pod. mget byKey key = Some pod \<longrightarrow> nonnegRequests pod"
        using buildInputs_spec(2) [OF applied(1)] pods by (auto simp: list_all_iff)
      then have "out \<noteq> None" using applyLoop_no_panic [OF assms, of byKey] applied(4) by (metis fst_conv)
      then show ?thesis using applied(5) by (auto split: option.splits)
    qed simp
  qed simp_all
  then show ?thesis using R by auto
qed

theorem reconcile_never_panics_witness:
  "\<exists>res r'. Reconcile (sampleEnv\<lparr>envPatchResize := (\<lambda>n p. Some (Forbidden ''exceeded quota''))\<rparr>) ''node1'' newNodeReconciler = (Some res, r')"
  by (rule reconcile_never_panics)
    (simp add: admitsNonneg_def sampleEnv_def nonnegRequests_def nodeRcs_eval, simp add: nodeRcs_def)

section \<open>The status annotation settles\<close>

text \<open>The API server stores the annotation it was given.\<close>

definition storesAnnotation :: "nodeEnv \<Rightarrow> bool" where
  "storesAnnotation env \<longleftrightarrow> (\<forall>n pod data pod'. envPatchStatus env n pod data = Inr pod' \<longrightarrow>
     strGet (pAnnotations pod') AnnotationStatus = data)"

definition withAnnotation :: "string \<Rightarrow> string \<Rightarrow> Pod \<Rightarrow> Pod" where
  "withAnnotation k v pod = pod\<lparr>pAnnotations := mput k v (pAnnotations pod)\<rparr>"

definition statusCurrent :: "Pod \<Rightarrow> podStatus \<Rightarrow> bool" where
  "statusCurrent pod desired \<longleftrightarrow> (let prevRaw = strGet (pAnnotations pod) AnnotationStatus in
     prevRaw \<noteq> '''' \<and> (\<exists>prev. unmarshalStatus prevRaw = Some prev \<and> prev\<lparr>psComputedAt := ''''\<rparr> = desired\<lparr>psComputedAt := ''''\<rparr>))"

lemma writePodStatus_current: "statusCurrent pod desired \<Longrightarrow> writePodStatus env pod desired r = (None, pod, r)"
  by (auto simp: statusCurrent_def writePodStatus_def Let_def)

lemma marshalStatus_nonempty: "in64 (psNodePods s) \<Longrightarrow> marshalStatus s \<noteq> ''''"
  using unmarshal_marshal [of s] by (auto simp: marshalStatus_def)

lemma writePodStatus_makes_current:
  assumes "in64 (psNodePods desired)" "storesAnnotation env" "writePodStatus env pod desired r = (None, pod', r')"
  shows "statusCurrent pod' desired"
proof (cases "statusCurrent pod desired")
  case True
  then show ?thesis using assms(3) by (simp add: writePodStatus_current)
next
  case False
  let ?s = "\<lambda>n. desired\<lparr>psComputedAt := formatRFC3339 (envClock env n)\<rparr>"
  obtain n k where "envPatchStatus env k pod (marshalStatus (?s n)) = Inr pod'"
    using assms(3) False by (auto simp: statusCurrent_def writePodStatus_def Let_def split: option.splits sum.splits if_splits)
  then have "strGet (pAnnotations pod') AnnotationStatus = marshalStatus (?s n)"
    using assms(2) by (simp add: storesAnnotation_def)
  moreover have "in64 (psNodePods (?s n))" using assms(1) by simp
  ultimately show ?thesis using marshalStatus_nonempty unmarshal_marshal by (simp add: statusCurrent_def)
qed

lemma annotation_resources: "resourcesOf (pod\<lparr>pAnnotations := a\<rparr>) = resourcesOf pod"
  by (intro ext) (simp add: resourcesOf_def findContainerStatus_def IsPodResizeInfeasible_def cong: option.case_cong)

lemma annotation_aggregate:
  "aggregateContainerResourcesByFn (pod\<lparr>pAnnotations := a\<rparr>) = aggregateContainerResourcesByFn pod"
  by (intro ext) (simp add: aggregateContainerResourcesByFn_def annotation_resources)

lemma annotation_infeasible: "IsPodResizeInfeasible (pod\<lparr>pAnnotations := a\<rparr>) = IsPodResizeInfeasible pod"
  by (simp add: IsPodResizeInfeasible_def)

lemma annotation_fields:
  "pStatusAllocated (pod\<lparr>pAnnotations := a\<rparr>) = pStatusAllocated pod" "pResources (pod\<lparr>pAnnotations := a\<rparr>) = pResources pod"
  "pStatusResources (pod\<lparr>pAnnotations := a\<rparr>) = pStatusResources pod" "pOverhead (pod\<lparr>pAnnotations := a\<rparr>) = pOverhead pod"
  by simp_all

lemma annotation_booked: "PodBookedCPUMilli (pod\<lparr>pAnnotations := a\<rparr>) = PodBookedCPUMilli pod"
  unfolding PodBookedCPUMilli_def PodRequests_def AggregateContainerRequests_def effectivePodLevelResources_def
    IsPodLevelRequestsSet_def annotation_aggregate annotation_infeasible annotation_fields ..

lemma own_write_irrelevant:
  "\<not> podUpdateRelevant parseQuantity (Some pod) (Some (withAnnotation AnnotationStatus v pod))"
proof -
  have "AnnotationStatus \<noteq> AnnotationMaxCPU" by (simp add: AnnotationStatus_def AnnotationMaxCPU_def GroupName_def)
  then have "podUserCapMilli parseQuantity (withAnnotation AnnotationStatus v pod) = podUserCapMilli parseQuantity pod"
    by (simp add: podUserCapMilli_def withAnnotation_def strGet_def gomap_simps)
  moreover have "PodBookedCPUMilli (withAnnotation AnnotationStatus v pod) = PodBookedCPUMilli pod"
    "ResizableContainers (withAnnotation AnnotationStatus v pod) = ResizableContainers pod"
    "PodTerminal (withAnnotation AnnotationStatus v pod) = PodTerminal pod"
    "podResizeDeferred (withAnnotation AnnotationStatus v pod) = podResizeDeferred pod"
    "podResizeInfeasible (withAnnotation AnnotationStatus v pod) = podResizeInfeasible pod"
    "OptedOut (withAnnotation AnnotationStatus v pod) = OptedOut pod"
    by (simp_all add: withAnnotation_def ResizableContainers_def PodTerminal_def podResizeDeferred_def podResizeInfeasible_def
        OptedOut_def annotation_booked)
  ultimately show ?thesis by (simp add: podUpdateRelevant_def withAnnotation_def)
qed

text \<open>C18. The annotation causes no churn: once a status has been written, writing the same
  content again, at any later time and in any state, makes no call at all; and the update event
  of the reconciler's own write passes no predicate, so it enqueues nothing.\<close>

theorem status_write_settles:
  assumes "in64 (psNodePods desired)" "storesAnnotation env" "writePodStatus env pod desired r = (None, pod', r')"
  shows "writePodStatus env' pod' desired r'' = (None, pod', r'')
    \<and> handleWatch env' (OnPod (PodUpdated pod (withAnnotation AnnotationStatus v pod))) r'' = r''"
  using writePodStatus_current [OF writePodStatus_makes_current [OF assms]] own_write_irrelevant
  by (simp add: handleWatch_def)

theorem status_write_settles_witness:
  "\<exists>pod' r'. writePodStatus (sampleEnv\<lparr>envPatchStatus := (\<lambda>n pod data. Inr (withAnnotation AnnotationStatus data pod))\<rparr>)
       samplePod (buildPodStatus sampleStats 1 3000 False) newNodeReconciler = (None, pod', r')
     \<and> nrTick r' = 2 \<and> writePodStatus sampleEnv pod' (buildPodStatus sampleStats 1 3000 False) r' = (None, pod', r')"
proof -
  let ?env = "sampleEnv\<lparr>envPatchStatus := (\<lambda>n pod data. Inr (withAnnotation AnnotationStatus data pod))\<rparr>"
  let ?st = "buildPodStatus sampleStats 1 3000 False"
  have env: "storesAnnotation ?env" by (simp add: storesAnnotation_def withAnnotation_def strGet_def gomap_simps)
  have n: "in64 (psNodePods ?st)" by (simp add: buildPodStatus_def in64_def)
  obtain pod' r' where w: "writePodStatus ?env samplePod ?st newNodeReconciler = (None, pod', r')" "nrTick r' = 2"
    by (simp add: writePodStatus_def samplePod_def strGet_def newNodeReconciler_def emit_def Let_def)
  from status_write_settles [OF n env w(1)] show ?thesis using w by blast
qed

end
