(* ===== verification/NodeBudget.thy ===== *)
theory NodeBudget
  imports NodeSample
begin

text \<open>
  The patch budget of a node over a run of reconciles. The bucket of a node survives from
  one reconcile to the next and no other node draws from it, so the contract of the token
  bucket bounds the resizes of the whole run.
\<close>

section \<open>The bucket of a node\<close>

text \<open>The configuration asks for \<open>q\<close> patches a second whenever it can be read.\<close>

definition steadyRate :: "nodeEnv \<Rightarrow> int \<Rightarrow> bool" where
  "steadyRate env q \<longleftrightarrow> 1 \<le> q \<and> q \<le> 2 ^ 18 \<and> (\<forall>n. case envConfig env n of
       Inr hc \<Rightarrow> PerNodePatchesPerSecond (specRateLimits (hcSpec hc)) = q
     | Inl (NotFound m) \<Rightarrow> q = 10
     | Inl e \<Rightarrow> True)"

definition bucketFor :: "int \<Rightarrow> NodeReconciler \<Rightarrow> string \<Rightarrow> Limiter" where
  "bucketFor q r node = (case mget (nrLimiters r) node of Some b \<Rightarrow> b | None \<Rightarrow> NewLimiter (F (of_int q)) q)"

lemma steady_float:
  assumes "1 \<le> q" "q \<le> 2 ^ 18"
  shows "float_of_int q = F (of_int q)" "int_of_float (F (of_int q)) = q" "\<not> fle (F (of_int q)) (F 0)"
proof -
  show "float_of_int q = F (of_int q)" using assms by (intro float_of_int_exact) auto
  show "int_of_float (F (of_int q)) = q" using assms by (simp add: in64_def)
  show "\<not> fle (F (of_int q)) (F 0)" using assms by simp
qed

lemma steadyRate_config:
  assumes "steadyRate env q" "configAt env r = Inr cfg"
  shows "rcPerNodePPS cfg = F (of_int q)"
proof -
  note q = steady_float [of q]
  show ?thesis
  proof (cases "envConfig env (Suc (nrTick r))")
    case (Inl e)
    then show ?thesis using assms spec [of _ "Suc (nrTick r)"]
      by (cases e) (auto simp: steadyRate_def configAt_def loadConfig_def dest!: spec [of _ "Suc (nrTick r)"])
  next
    case (Inr hc)
    then have "PerNodePatchesPerSecond (specRateLimits (hcSpec hc)) = q" "1 \<le> q" "q \<le> 2 ^ 18"
      using assms(1) by (auto simp: steadyRate_def dest!: spec [of _ "Suc (nrTick r)"])
    then show ?thesis using assms(2) Inr q by (auto simp: configAt_def loadConfig_def resolveConfig_def Let_def)
  qed
qed

lemma limiterFor_steady:
  assumes "limiterFor env node (F (of_int q)) r = (bucket, r')" "1 \<le> q" "q \<le> 2 ^ 18"
    "limLimit (bucketFor q r node) = F (of_int q)"
  shows "bucket = bucketFor q r node" "r' = r\<lparr>nrLimiters := nrLimiters r'\<rparr>" "mget (nrLimiters r') node = Some bucket"
proof -
  have "bucket = bucketFor q r node \<and> r' = r\<lparr>nrLimiters := nrLimiters r'\<rparr> \<and> mget (nrLimiters r') node = Some bucket"
  proof (cases "mget (nrLimiters r) node")
    case None
    then show ?thesis
      using assms(1) unfolding limiterFor_def steady_float(2) [OF assms(2,3)] by (auto simp: bucketFor_def gomap_simps Let_def)
  next
    case (Some b)
    then have "feq (limLimit b) (F (of_int q))" using assms(4) by (simp add: bucketFor_def feq_def)
    then show ?thesis using assms(1) Some by (auto simp: limiterFor_def bucketFor_def)
  qed
  then show "bucket = bucketFor q r node" "r' = r\<lparr>nrLimiters := nrLimiters r'\<rparr>" "mget (nrLimiters r') node = Some bucket"
    by auto
qed

lemma limiterFor_others:
  "limiterFor env node pps r = (bucket, r') \<Longrightarrow> n \<noteq> node \<Longrightarrow>
   mget (nrLimiters r') n = mget (nrLimiters r) n \<and> nrTick r \<le> nrTick r'"
  by (auto simp: limiterFor_def gomap_simps Let_def split: option.splits if_splits)

lemma bookkeeping_limiters [simp]:
  "nrLimiters (published node stats ds inputs byKey r) = nrLimiters r"
  "nrTick (published node stats ds inputs byKey r) = nrTick r"
  "nrLimiters (readAt cfg n r) = nrLimiters r"
  "nrTick (readAt cfg n r) = nrTick r + n"
  by (simp_all add: published_def syncPodMetrics_def refreshPodsManagedLocked_def meter_def readAt_def setDebounce_def Let_def
      split: prod.splits)
section \<open>What a reconcile draws\<close>

text \<open>From \<open>r\<close> to \<open>r'\<close> the bucket of the node paid for \<open>k\<close> patches.\<close>

definition paid :: "nodeEnv \<Rightarrow> int \<Rightarrow> string \<Rightarrow> NodeReconciler \<Rightarrow> nat \<Rightarrow> NodeReconciler \<Rightarrow> bool" where
  "paid env q node r k r' \<longleftrightarrow> nrTick r \<le> nrTick r' \<and> limLimit (bucketFor q r' node) = limLimit (bucketFor q r node)
     \<and> (\<exists>ns. sorted_wrt (<) ns \<and> set ns \<subseteq> {nrTick r ..< nrTick r'}
          \<and> (\<forall>ts. k + allowedCount (bucketFor q r' node) ts \<le> allowedCount (bucketFor q r node) (map (envWall env) ns @ ts)))"

lemma paid_none:
  "nrTick r \<le> nrTick r' \<Longrightarrow> mget (nrLimiters r') node = mget (nrLimiters r) node \<Longrightarrow> paid env q node r 0 r'"
  by (auto simp: paid_def bucketFor_def intro!: exI [of _ "[]"])

lemma paid_trans [trans]:
  assumes "paid env q node r1 k r2" "paid env q node r2 l r3"
  shows "paid env q node r1 (k + l) r3"
proof -
  obtain ns ms where n: "sorted_wrt (<) ns" "set ns \<subseteq> {nrTick r1 ..< nrTick r2}"
      "\<And>ts. k + allowedCount (bucketFor q r2 node) ts \<le> allowedCount (bucketFor q r1 node) (map (envWall env) ns @ ts)"
    and m: "sorted_wrt (<) ms" "set ms \<subseteq> {nrTick r2 ..< nrTick r3}"
      "\<And>ts. l + allowedCount (bucketFor q r3 node) ts \<le> allowedCount (bucketFor q r2 node) (map (envWall env) ms @ ts)"
    using assms unfolding paid_def by blast
  have t: "nrTick r1 \<le> nrTick r2" "nrTick r2 \<le> nrTick r3" using assms by (simp_all add: paid_def)
  have "sorted_wrt (<) (ns @ ms)" using n m by (fastforce simp: sorted_wrt_append)
  moreover have "set (ns @ ms) \<subseteq> {nrTick r1 ..< nrTick r3}"
    using subset_trans [OF n(2)] subset_trans [OF m(2)] t by auto
  moreover have "k + l + allowedCount (bucketFor q r3 node) ts
      \<le> allowedCount (bucketFor q r1 node) (map (envWall env) (ns @ ms) @ ts)" for ts
    using n(3) [of "map (envWall env) ms @ ts"] m(3) [of ts] by simp
  ultimately have "\<exists>ns. sorted_wrt (<) ns \<and> set ns \<subseteq> {nrTick r1 ..< nrTick r3}
      \<and> (\<forall>ts. k + l + allowedCount (bucketFor q r3 node) ts \<le> allowedCount (bucketFor q r1 node) (map (envWall env) ns @ ts))"
    by blast
  then show ?thesis using assms t by (simp add: paid_def)
qed

lemma paid_drawn:
  assumes "drawn env node (bucketFor q r node) r ps bucket' r'" "mget (nrLimiters r) node = Some (bucketFor q r node)"
  shows "paid env q node r (length ps) r'"
proof -
  have "bucketFor q r' node = bucket'" using assms by (simp add: drawn_def bucketFor_def [of q r'])
  then show ?thesis using assms(1) by (simp add: drawn_def paid_def)
qed

lemma paid_sameCore: "sameCore r r' \<Longrightarrow> paid env q node r 0 r'"
  by (rule paid_none) (simp_all add: sameCore_def)

lemma reconcilePods_paid:
  assumes "reconcilePods env node cfg alloc nodeManaged pods r = (res, r')" "patchKeepsName env"
    "rcPerNodePPS cfg = F (of_int q)" "1 \<le> q" "q \<le> 2 ^ 18" "limLimit (bucketFor q r node) = F (of_int q)"
  shows "\<exists>ps. issued r' = issued r @ ps \<and> paid env q node r (length ps) r'"
  using assms(1)
proof (cases rule: reconcilePods_split)
  case (refused e)
  note s = sameCore_buildInputs [OF refused(1)]
  then have "paid env q node r 0 r'" by (intro paid_none) (simp_all add: sameCore_def)
  then show ?thesis using issued_sameCore [OF s] by force
next
  case (applied inputs byKey r1 stats ds bucket r2 out r3)
  let ?p = "published node stats ds inputs byKey r1"
  note s1 = sameCore_buildInputs [OF applied(1)]
  have l1: "mget (nrLimiters ?p) node = mget (nrLimiters r) node" "nrTick r \<le> nrTick ?p" using s1 by (simp_all add: sameCore_def)
  have "bucketFor q ?p node = bucketFor q r node" using l1 by (simp add: bucketFor_def)
  note L = limiterFor_steady [OF applied(3) [unfolded assms(3)] assms(4,5), unfolded this, OF assms(6)]
  have b2: "bucketFor q r2 node = bucket" using L(3) by (simp add: bucketFor_def)
  have t2: "nrTick r2 = nrTick ?p" "issued r2 = issued r"
    using arg_cong [OF L(2), of nrTick] limiterFor_issued [OF applied(3)] issued_sameCore [OF s1] by simp_all
  have p0: "paid env q node r 0 r2"
    using l1 t2 L(1) b2 by (auto simp: paid_def intro!: exI [of _ "[]"])
  have "keysOk byKey" using buildInputs_spec(2) [OF applied(1)] by (simp add: keysOk_def)
  then obtain ps bucket' where ps: "drawn env node bucket r2 ps bucket' r3"
    using applyLoop_spec [OF applied(4) assms(2)] by blast
  have p1: "paid env q node r2 (length ps) r3" using paid_drawn [of env node q r2 ps bucket' r3] ps b2 L(3) by simp
  have s3: "sameCore r3 r'" using applied(5) by (auto split: option.splits dest: sameCore_verdict)
  have "paid env q node r (0 + length ps + 0) r'"
    by (rule paid_trans [OF paid_trans [OF p0 p1] paid_sameCore [OF s3]])
  moreover have "issued r' = issued r @ ps" using ps t2(2) issued_sameCore [OF s3] by (simp add: drawn_def)
  ultimately show ?thesis by auto
qed

lemma reconcilePods_others:
  assumes "reconcilePods env node' cfg alloc nodeManaged pods r = (res, r')" "patchKeepsName env" "node' \<noteq> node"
  shows "mget (nrLimiters r') node = mget (nrLimiters r) node \<and> nrTick r \<le> nrTick r'"
  using assms(1)
proof (cases rule: reconcilePods_split)
  case (refused e)
  then show ?thesis using sameCore_buildInputs [OF refused(1)] by (simp add: sameCore_def)
next
  case (applied inputs byKey r1 stats ds bucket r2 out r3)
  have "keysOk byKey" using buildInputs_spec(2) [OF applied(1)] by (simp add: keysOk_def)
  then obtain ps bucket' where ps: "drawn env node' bucket r2 ps bucket' r3"
    using applyLoop_spec [OF applied(4) assms(2)] by blast
  have "sameCore r3 r'" using applied(5) by (auto split: option.splits dest: sameCore_verdict)
  then show ?thesis using limiterFor_others [OF applied(3), of node] assms(3) sameCore_buildInputs [OF applied(1)] ps
    by (simp add: sameCore_def drawn_def)
qed

lemma Reconcile_others:
  assumes "Reconcile env node' r = (res, r')" "patchKeepsName env" "node' \<noteq> node"
  shows "mget (nrLimiters r') node = mget (nrLimiters r) node \<and> nrTick r \<le> nrTick r'"
  using assms(1)
proof (cases rule: Reconcile_split)
  case (quiet res1)
  then show ?thesis by (simp add: sameCore_def)
next
  case (settled cfg n res1)
  then show ?thesis by simp
next
  case (gone cfg m)
  have "nrLimiters (forgetNode node' (readAt cfg 3 r)) = mdel node' (nrLimiters r)"
    "nrTick (forgetNode node' (readAt cfg 3 r)) = nrTick r + 3"
    by (simp_all add: forgetNode_def refreshPodsManagedLocked_def meter_def Let_def)
  then show ?thesis using gone(4) assms(3) by (simp add: gomap_simps)
next
  case (listed cfg nd pods)
  then show ?thesis using reconcilePods_others [OF listed(4) assms(2,3)] by simp
qed

lemma Reconcile_paid:
  assumes "Reconcile env node r = (res, r')" "patchKeepsName env" "steadyRate env q"
    "\<forall>n m. envNode env n node \<noteq> Inl (NotFound m)" "limLimit (bucketFor q r node) = F (of_int q)"
  shows "\<exists>ps. issued r' = issued r @ ps \<and> paid env q node r (length ps) r'"
  using assms(1)
proof (cases rule: Reconcile_split)
  case (quiet res1)
  then show ?thesis using paid_sameCore [OF quiet(1)] issued_sameCore [OF quiet(1)] by force
next
  case (settled cfg n res1)
  then have "paid env q node r 0 r'" by (intro paid_none) simp_all
  then show ?thesis using settled(3) by force
next
  case (gone cfg m)
  then show ?thesis using assms(4) by blast
next
  case (listed cfg nd pods)
  have pps: "rcPerNodePPS cfg = F (of_int q)" by (rule steadyRate_config [OF assms(3) listed(1)])
  have "bucketFor q (readAt cfg 4 r) node = bucketFor q r node" by (simp add: bucketFor_def)
  then obtain ps where ps: "issued r' = issued r @ ps" "paid env q node (readAt cfg 4 r) (length ps) r'"
    using reconcilePods_paid [OF listed(4) assms(2) pps] assms(3,5) by (auto simp: steadyRate_def)
  have "paid env q node r 0 (readAt cfg 4 r)" by (rule paid_none) simp_all
  from paid_trans [OF this ps(2)] show ?thesis using ps(1) by auto
qed

section \<open>Runs\<close>

text \<open>A run reconciles the nodes of a list in order; \<open>nodePatches\<close> counts the resizes issued
  while one of them was reconciled.\<close>

fun runNodes :: "nodeEnv \<Rightarrow> string list \<Rightarrow> NodeReconciler \<Rightarrow> NodeReconciler" where
  "runNodes env [] r = r"
| "runNodes env (n # ns) r = runNodes env ns (snd (Reconcile env n r))"

fun nodePatches :: "nodeEnv \<Rightarrow> string \<Rightarrow> string list \<Rightarrow> NodeReconciler \<Rightarrow> nat" where
  "nodePatches env node [] r = 0"
| "nodePatches env node (n # ns) r =
     (let r' = snd (Reconcile env n r) in
      (if n = node then length (issued r') - length (issued r) else 0) + nodePatches env node ns r')"

lemma runNodes_paid:
  assumes "patchKeepsName env" "steadyRate env q" "\<forall>n m. envNode env n node \<noteq> Inl (NotFound m)"
    "limLimit (bucketFor q r node) = F (of_int q)"
  shows "paid env q node r (nodePatches env node names r) (runNodes env names r)"
  using assms(4)
proof (induction names arbitrary: r)
  case Nil
  then show ?case by (simp add: paid_none)
next
  case (Cons n names)
  obtain res r1 where r1: "Reconcile env n r = (res, r1)" by fastforce
  have "paid env q node r (if n = node then length (issued r1) - length (issued r) else 0) r1"
  proof (cases "n = node")
    case True
    then show ?thesis using Reconcile_paid [OF r1 [unfolded True] assms(1-3) Cons.prems] by auto
  next
    case False
    then show ?thesis using Reconcile_others [OF r1 assms(1) False] by (simp add: paid_none)
  qed
  moreover from this have "limLimit (bucketFor q r1 node) = F (of_int q)" using Cons.prems by (simp add: paid_def)
  note Cons.IH [OF this]
  ultimately show ?case using r1 paid_trans by (simp add: Let_def)
qed

text \<open>What a fresh bucket admits when it is asked at calls \<open>ns\<close> of a window, the wall clock
  being monotone over the calls.\<close>

lemma allowedCount_window:
  fixes a b :: nat
  assumes q: "1 \<le> q" "q \<le> 2 ^ 18"
    and mono: "\<forall>m n. m \<le> n \<longrightarrow> w m \<le> w n" and "0 \<le> w a" "a \<le> b" "b - a \<le> 2 ^ 28"
    and ns: "sorted_wrt (<) ns" "set ns \<subseteq> {a ..< b}"
  shows "of_nat (allowedCount (NewLimiter (F (of_int q)) q) (map w ns))
    \<le> of_int q + of_int q * of_int (w b - w a) / 1000000000 + (1 :: rat)"
proof (cases ns)
  case Nil
  have "w a \<le> w b" using mono assms(5) by blast
  then show ?thesis using Nil q by simp
next
  case (Cons n ms)
  have "card (set ns) \<le> b - a" using card_mono [OF _ ns(2)] by simp
  then have len: "length (map w ns) \<le> 2 ^ 28"
    using ns(1) assms(6) by (simp add: distinct_card strict_sorted_iff)
  have r: "w a \<le> w k \<and> w k \<le> w b" if "k \<in> set ns" for k
  proof -
    have "a \<le> k" "k \<le> b" using subsetD [OF ns(2) that] by simp_all
    then show ?thesis using mono by blast
  qed
  have "sorted (map w ns)"
    using ns(1) mono by (auto simp: sorted_wrt_map intro: sorted_wrt_mono_rel [of ns "(<)"])
  then have "sorted (limLast (NewLimiter (F (of_int q)) q) # map w ns)"
    using r assms(4) by (force simp: NewLimiter_def)
  then have "of_nat (allowedCount (NewLimiter (F (of_int q)) q) (map w ns))
      \<le> of_int q + of_int q * of_int (w b - w n) / 1000000000 + (1 :: rat)"
    using allowedCount_bound [OF limiter_ok_New [OF q], of "w n" "map w ms" "w b"] len r Cons
    by (simp add: NewLimiter_def limiter_rate_def)
  moreover have "of_int q * of_int (w b - w n) / (1000000000 :: rat) \<le> of_int q * of_int (w b - w a) / 1000000000"
    using r [of n] Cons q by (intro divide_right_mono mult_left_mono) simp_all
  ultimately show ?thesis by linarith
qed

text \<open>C5. However many reconciles of however many nodes run in whatever order, the resizes
  issued for one node stay within a burst of \<open>q\<close>, \<open>q\<close> for every second the run lasts, and one
  more, where \<open>q\<close> is the configured \<open>perNodePatchesPerSecond\<close>: the bucket outlives the reconcile
  and no other node refills it.\<close>

theorem node_patch_budget:
  assumes "steadyRate env q" "patchKeepsName env" "\<forall>n m. envNode env n node \<noteq> Inl (NotFound m)"
    and "\<forall>m n. m \<le> n \<longrightarrow> envWall env m \<le> envWall env n" "0 \<le> envWall env (nrTick r)"
    and "mget (nrLimiters r) node = None"
    and "nrTick (runNodes env names r) - nrTick r \<le> 2 ^ 28"
  shows "of_nat (nodePatches env node names r) \<le> of_int q
    + of_int q * of_int (envWall env (nrTick (runNodes env names r)) - envWall env (nrTick r)) / 1000000000 + (1 :: rat)"
proof -
  let ?r' = "runNodes env names r" and ?w = "envWall env"
  have q: "1 \<le> q" "q \<le> 2 ^ 18" using assms(1) by (simp_all add: steadyRate_def)
  have b: "bucketFor q r node = NewLimiter (F (of_int q)) q" using assms(6) by (simp add: bucketFor_def)
  then have "limLimit (bucketFor q r node) = F (of_int q)" by (simp add: NewLimiter_def)
  from runNodes_paid [OF assms(2,1,3) this, of names] obtain ns where ns: "sorted_wrt (<) ns"
      "set ns \<subseteq> {nrTick r ..< nrTick ?r'}" "nrTick r \<le> nrTick ?r'"
      "\<And>ts. nodePatches env node names r + allowedCount (bucketFor q ?r' node) ts
        \<le> allowedCount (NewLimiter (F (of_int q)) q) (map ?w ns @ ts)"
    unfolding paid_def b by blast
  have "nodePatches env node names r \<le> allowedCount (NewLimiter (F (of_int q)) q) (map ?w ns)"
    using ns(4) [of "[]"] by simp
  moreover have "of_nat (allowedCount (NewLimiter (F (of_int q)) q) (map ?w ns)) \<le> of_int q
      + of_int q * of_int (?w (nrTick ?r') - ?w (nrTick r)) / 1000000000 + (1 :: rat)"
    by (rule allowedCount_window [OF q assms(4,5) ns(3) assms(7) ns(1,2)])
  ultimately show ?thesis using of_nat_mono order_trans by blast
qed

theorem node_patch_budget_witness:
  "nodePatches sampleEnv ''node1'' [''node1''] newNodeReconciler = 1
   \<and> rat_of_nat (nodePatches sampleEnv ''node1'' [''node1''] newNodeReconciler) \<le> 11 + 120 / 1000000000"
proof -
  have new: "freshFor newNodeReconciler" "issued newNodeReconciler = []" "nrTick newNodeReconciler = 0"
      "nrLimiters newNodeReconciler = []"
    by (simp_all add: freshFor_def newNodeReconciler_def issued_def)
  obtain r' where r': "Reconcile sampleEnv ''node1'' newNodeReconciler = (Some (requeue 0), r')" "issued r' = [samplePatch]"
      "nrTick r' = 12" using sample_run [OF new(1)] new by force
  have env: "steadyRate sampleEnv 10" "\<forall>n m. envNode sampleEnv n ''node1'' \<noteq> Inl (NotFound m)"
      "\<forall>m n. m \<le> n \<longrightarrow> envWall sampleEnv m \<le> envWall sampleEnv n"
    by (simp_all add: steadyRate_def sampleEnv_def sample_config_defs)
  have w: "envWall sampleEnv n = 2000000000 + int n" for n by (simp add: sampleEnv_def)
  have "nodePatches sampleEnv ''node1'' [''node1''] newNodeReconciler = 1" using r' new by simp
  then show ?thesis
    using node_patch_budget [OF env(1) sample_names env(2,3), of newNodeReconciler "[''node1'']"] r' new by (simp add: w)
qed

end
