(* ===== verification/NodeTiming.thy ===== *)
theory NodeTiming
  imports NodeSample
begin

text \<open>
  When the node reconciler comes back: the jittered debounce of an enqueued node, and the
  requeue that revisits a node once the first backoff window on it has closed.
\<close>

section \<open>The jittered debounce\<close>

definition unitInterval :: "float64 \<Rightarrow> bool" where
  "unitInterval x \<longleftrightarrow> (\<exists>y. x = F y \<and> 0 \<le> y \<and> y < 1)"

lemma trunc_between:
  assumes "a \<le> x" "x \<le> b" "a \<le> 0" "0 \<le> b"
  shows "a \<le> of_int (trunc x) \<and> of_int (trunc x) \<le> b"
proof (cases "0 \<le> x")
  case True
  then have "(0 :: rat) \<le> of_int \<lfloor>x\<rfloor>" "of_int \<lfloor>x\<rfloor> \<le> x" by simp_all
  moreover have "trunc x = \<lfloor>x\<rfloor>" using True by (simp add: trunc_def)
  ultimately show ?thesis using assms by linarith
next
  case False
  then have "of_int \<lceil>x\<rceil> \<le> (0 :: rat)" "x \<le> of_int \<lceil>x\<rceil>" by (simp_all add: ceiling_le_iff)
  moreover have "trunc x = \<lceil>x\<rceil>" using False by (simp add: trunc_def)
  ultimately show ?thesis using assms by linarith
qed

lemma jitter_bounds:
  assumes "unitInterval x" "0 \<le> base" "base \<le> 2 ^ 53"
  shows "base \<le> 2 * jitter base x \<and> 2 * jitter base x \<le> 3 * base"
proof -
  obtain y where y: "x = F y" "0 \<le> y" "y < 1" using assms(1) by (auto simp: unitInterval_def)
  define c where "c = rnd64 (y - 1 / 2)"
  have half: "repr64 (1 / 2)" using b64.grid_dyadic [of 1 1] by simp
  have mhalf: "repr64 (- (1 / 2))" using b64.grid_dyadic [of "- 1" 1] by simp
  have c: "- (1 / 2) \<le> c" "c \<le> 1 / 2"
    unfolding c_def using y by (intro b64.ge_grid [OF mhalf] b64.le_grid [OF half]; simp)+
  have s: "fsub x (F (1 / 2)) = F c" using y by (simp add: fsub_def c_def fnorm_moderate)
  have B: "0 \<le> (of_int base :: rat)" "(of_int base :: rat) \<le> 2 ^ 53" using assms(2) of_int_le_rat [OF assms(3)] by simp_all
  define p where "p = rnd64 (c * of_int base)"
  have cb: "- (of_int base / 2) \<le> c * of_int base" "c * of_int base \<le> of_int base / 2"
    using mult_right_mono [OF c(1) B(1)] mult_right_mono [OF c(2) B(1)] by simp_all
  have g: "repr64 (of_int base / 2)" "repr64 (- (of_int base / 2))"
    using b64.grid_dyadic [of base 1] b64.grid_dyadic [of "- base" 1] assms by simp_all
  have p: "- (of_int base / 2) \<le> p" "p \<le> of_int base / 2"
    unfolding p_def using b64.ge_grid [OF g(2) cb(1)] b64.le_grid [OF g(1) cb(2)] by simp_all
  have "\<bar>c * of_int base\<bar> \<le> 2 ^ 100" using cb B(2) by (simp add: abs_le_iff)
  then have m: "fmul (fsub x (F (1 / 2))) (float_of_int base) = F p"
    using assms s by (simp add: float_of_int_exact fnorm_moderate p_def)
  define t where "t = trunc p"
  have "- (of_int base / 2) \<le> (of_int t :: rat) \<and> of_int t \<le> (of_int base / 2 :: rat)"
    unfolding t_def using p B(1) by (intro trunc_between) simp_all
  then have "(of_int (- base) :: rat) \<le> of_int (2 * t)" "(of_int (2 * t) :: rat) \<le> of_int base" by simp_all
  then have t: "- base \<le> 2 * t" "2 * t \<le> base" by (simp_all only: of_int_le_iff)
  have "int_of_float (F p) = t" using t assms by (auto simp: t_def in64_def)
  then have "jitter base x = base + t" using t assms by (simp add: jitter_def m add64_def wrap64_def)
  then show ?thesis using t by simp
qed

lemma baseEnqueueDelay_pos: "0 < baseEnqueueDelay r"
  by (simp add: baseEnqueueDelay_def defaultDebouncePeriod_def Second_def)

text \<open>The delay the event handler gives a node is the debounce splayed by at most half of it
  to either side, and never zero or negative, whatever the random source draws from \<open>[0, 1)\<close>.\<close>

theorem enqueue_delay_bounds:
  assumes "unitInterval (envRand env (nrTick r))" "baseEnqueueDelay r \<le> 2 ^ 53"
  shows "let delay = fst (enqueueDelay env r); base = baseEnqueueDelay r in
    0 < delay \<and> base \<le> 2 * delay \<and> 2 * delay \<le> 3 * base"
proof -
  have "baseEnqueueDelay (r\<lparr>nrTick := Suc (nrTick r)\<rparr>) = baseEnqueueDelay r" by (simp add: baseEnqueueDelay_def)
  then show ?thesis
    using jitter_bounds [OF assms(1) _ assms(2)] baseEnqueueDelay_pos [of r] by (simp add: enqueueDelay_def rand_def Let_def)
qed

theorem enqueue_delay_bounds_witness:
  "let delay = fst (enqueueDelay (sampleEnv\<lparr>envRand := (\<lambda>n. F (3 / 4))\<rparr>) newNodeReconciler) in
    0 < delay \<and> 2000000000 \<le> 2 * delay \<and> 2 * delay \<le> 6000000000"
proof -
  have b: "baseEnqueueDelay newNodeReconciler = 2000000000"
    by (simp add: baseEnqueueDelay_def newNodeReconciler_def defaultDebouncePeriod_def Second_def)
  have "unitInterval (envRand (sampleEnv\<lparr>envRand := (\<lambda>n. F (3 / 4))\<rparr>) (nrTick newNodeReconciler))"
    unfolding unitInterval_def by (intro exI [of _ "3 / 4"]) simp
  from enqueue_delay_bounds [OF this] show ?thesis unfolding b by (simp add: Let_def)
qed

section \<open>Backoff windows\<close>
















subsection \<open>A pod inside its window\<close>





end
