(* ===== verification/LandedPods.thy ===== *)
theory LandedPods
  imports NodeGates EligibilityProps
begin

text \<open>
  What the reconciler reads of a pod once its resizes have landed: a patch of the CPU limits
  changes none of the inputs of the policy but the current limit, and the limit reads back as
  the target the patch was split from.
\<close>

section \<open>Landing a resize\<close>

text \<open>The API server applies the limits by container name, in each of the two lists.\<close>

definition setCPULimit :: "(string \<times> Quantity) list \<Rightarrow> Container \<Rightarrow> Container" where
  "setCPULimit limits c =
     (case map_of limits (cName c) of
        None \<Rightarrow> c
      | Some q \<Rightarrow> c\<lparr>cResources := (cResources c)\<lparr>Limits := Some (mput ResourceCPU q (entries (Limits (cResources c))))\<rparr>\<rparr>)"

definition landPatch :: "ResizePatch \<Rightarrow> Pod \<Rightarrow> Pod" where
  "landPatch p pod = pod\<lparr>pContainers := map (setCPULimit (ptContainers p)) (pContainers pod),
     pInitContainers := map (setCPULimit (ptInitContainers p)) (pInitContainers pod)\<rparr>"

text \<open>All patches for a pod, in the order they were issued.\<close>

definition landAll :: "ResizePatch list \<Rightarrow> Pod \<Rightarrow> Pod" where
  "landAll ps pod = fold landPatch (filter (\<lambda>p. patchKey p = podKey pod) ps) pod"

text \<open>The pod of a later listing: the patches have landed, and annotations may have changed but for
  the ceiling that the user sets.\<close>

definition landedAs :: "ResizePatch list \<Rightarrow> Pod \<Rightarrow> Pod \<Rightarrow> bool" where
  "landedAs ps pod pod' \<longleftrightarrow> pod' = (landAll ps pod)\<lparr>pAnnotations := pAnnotations pod'\<rparr>
     \<and> mget (pAnnotations pod') AnnotationMaxCPU = mget (pAnnotations pod) AnnotationMaxCPU"

section \<open>Changes of CPU limits\<close>

text \<open>A change of containers that keeps all but the CPU limit, and a pod with its containers changed so.\<close>

definition limitOnly :: "(Container \<Rightarrow> Container) \<Rightarrow> bool" where
  "limitOnly f \<longleftrightarrow> (\<forall>c. cName (f c) = cName c \<and> Requests (cResources (f c)) = Requests (cResources c)
     \<and> cRestartPolicy (f c) = cRestartPolicy c \<and> cResizePolicy (f c) = cResizePolicy c
     \<and> Memory (Limits (cResources (f c))) = Memory (Limits (cResources c)))"

definition relimit :: "(Container \<Rightarrow> Container) \<Rightarrow> (Container \<Rightarrow> Container) \<Rightarrow> (string, string) gomap \<Rightarrow> Pod \<Rightarrow> Pod" where
  "relimit f g a pod = pod\<lparr>pContainers := map f (pContainers pod), pInitContainers := map g (pInitContainers pod), pAnnotations := a\<rparr>"

lemma limitOnlyD:
  assumes "limitOnly f"
  shows "cName (f c) = cName c" "Requests (cResources (f c)) = Requests (cResources c)" "cRestartPolicy (f c) = cRestartPolicy c"
    "cResizePolicy (f c) = cResizePolicy c" "Memory (Limits (cResources (f c))) = Memory (Limits (cResources c))"
    "isRestartableInitContainer (f c) = isRestartableInitContainer c" "pinned (f c) = pinned c"
    "cpuRestartOnResize (f c) = cpuRestartOnResize c"
  using assms by (simp_all add: limitOnly_def isRestartableInitContainer_def pinned_def cpuRestartOnResize_def)

lemma limitOnly_setCPULimit [simp]: "limitOnly (setCPULimit limits)"
  by (simp add: limitOnly_def setCPULimit_def Memory_def resourceNamed_def entries_def gomap_simps ResourceMemory_def ResourceCPU_def
      split: option.split)

lemma limitOnly_id [simp]: "limitOnly (\<lambda>c. c)"
  by (simp add: limitOnly_def)

lemma initLoop_map:
  "(\<And>c. res' (g c) = res c) \<Longrightarrow> (\<And>c. isRestartableInitContainer (g c) = isRestartableInitContainer c) \<Longrightarrow>
   initLoop res' (map g cs) acc = initLoop res cs acc"
  by (induction res cs acc rule: initLoop.induct) simp_all

section \<open>What a change of limits leaves alone\<close>

lemma relimit_fields:
  "podKey (relimit f g a pod) = podKey pod" "pNamespace (relimit f g a pod) = pNamespace pod" "pUID (relimit f g a pod) = pUID pod"
  "pOwnerReferences (relimit f g a pod) = pOwnerReferences pod" "pConditions (relimit f g a pod) = pConditions pod"
  "pResources (relimit f g a pod) = pResources pod" "pStatusResources (relimit f g a pod) = pStatusResources pod"
  "pStatusAllocated (relimit f g a pod) = pStatusAllocated pod" "pOverhead (relimit f g a pod) = pOverhead pod"
  "PodTerminal (relimit f g a pod) = PodTerminal pod" "podResizeInfeasible (relimit f g a pod) = podResizeInfeasible pod"
  "IsPodResizeInfeasible (relimit f g a pod) = IsPodResizeInfeasible pod"
  "OwnerExcluded (relimit f g a pod) owners = OwnerExcluded pod owners" "OptedOut (relimit f g a pod) = OptedOut pod"
  "HasPodLevelResources (relimit f g a pod) = HasPodLevelResources pod" "pQOSClass (relimit f g a pod) = pQOSClass pod"
  "podUnderTarget (relimit f g a pod) = podUnderTarget pod" "pAnnotations (relimit f g a pod) = a"
  by (simp_all add: relimit_def podKey_def PodTerminal_def podResizeInfeasible_def IsPodResizeInfeasible_def OwnerExcluded_def
      OptedOut_def HasPodLevelResources_def podUnderTarget_def [abs_def] GetControllerOf_def)

lemma relimit_resources:
  assumes "limitOnly f" "get \<in> {containerSpecRequests, containerAllocatedRequests, containerActuatedRequests}"
  shows "resourcesOf (relimit g1 g2 a pod) opts get (f c) = resourcesOf pod opts get c"
proof -
  have "get (f c) cs i = get c cs i" for cs i
    using assms(2) by (auto simp: containerSpecRequests_def containerAllocatedRequests_def containerActuatedRequests_def
        limitOnlyD [OF assms(1)] split: option.split)
  moreover have "findContainerStatus (relimit g1 g2 a pod) = findContainerStatus pod"
    by (simp add: findContainerStatus_def [abs_def] relimit_def cong: option.case_cong)
  ultimately show ?thesis by (simp add: resourcesOf_def relimit_fields limitOnlyD [OF assms(1)])
qed

lemma relimit_aggregate:
  assumes "limitOnly f" "limitOnly g" "get \<in> {containerSpecRequests, containerAllocatedRequests, containerActuatedRequests}"
  shows "aggregateContainerResourcesByFn (relimit f g a pod) opts get = aggregateContainerResourcesByFn pod opts get"
proof -
  have "pContainers (relimit f g a pod) = map f (pContainers pod)" "pInitContainers (relimit f g a pod) = map g (pInitContainers pod)"
    by (simp_all add: relimit_def)
  moreover have "initLoop (resourcesOf (relimit f g a pod) opts get) (map g cs) acc = initLoop (resourcesOf pod opts get) cs acc" for cs acc
    by (rule initLoop_map) (rule relimit_resources [OF assms(2,3)], rule limitOnlyD(6) [OF assms(2)])
  ultimately show ?thesis by (simp add: aggregateContainerResourcesByFn_def foldl_map relimit_resources [OF assms(1,3)] Let_def)
qed

lemma relimit_requests:
  assumes "limitOnly f" "limitOnly g"
  shows "PodRequests (relimit f g a pod) opts = PodRequests pod opts" "PodBookedCPUMilli (relimit f g a pod) = PodBookedCPUMilli pod"
proof -
  show 1: "PodRequests (relimit f g a pod) opts = PodRequests pod opts" for opts
    unfolding PodRequests_def AggregateContainerRequests_def effectivePodLevelResources_def IsPodLevelRequestsSet_def relimit_fields
      relimit_aggregate [OF assms, of containerSpecRequests, simplified]
      relimit_aggregate [OF assms, of containerAllocatedRequests, simplified]
      relimit_aggregate [OF assms, of containerActuatedRequests, simplified] ..
  show "PodBookedCPUMilli (relimit f g a pod) = PodBookedCPUMilli pod" by (simp add: PodBookedCPUMilli_def 1)
qed

lemma relimit_guaranteed:
  assumes "limitOnly f" "limitOnly g" "\<And>c. c \<in> set (pInitContainers pod) \<Longrightarrow> \<not> isRestartableInitContainer c \<Longrightarrow> g c = c"
  shows "guaranteedAtRequest (relimit f g a pod) = guaranteedAtRequest pod"
proof -
  have "initsPinned (map g cs) = initsPinned cs" if "set cs \<subseteq> set (pInitContainers pod)" for cs
    using that
  proof (induction cs)
    case (Cons c cs)
    then show ?case using assms(3) [of c] by (auto simp: limitOnlyD [OF assms(2)])
  qed simp
  moreover have "pContainers (relimit f g a pod) = map f (pContainers pod)" "pInitContainers (relimit f g a pod) = map g (pInitContainers pod)"
    by (simp_all add: relimit_def)
  ultimately show ?thesis
    by (simp add: guaranteedAtRequest_def relimit_fields list_all_iff limitOnlyD [OF assms(1)])
qed

section \<open>Limits on resizable containers\<close>

definition limitedBy :: "(string, int64) gomap \<Rightarrow> ResizableContainer \<Rightarrow> ResizableContainer" where
  "limitedBy out c = (case mget out (rcName c) of None \<Rightarrow> c | Some m \<Rightarrow> c\<lparr>rcLimitMilli := m\<rparr>)"

lemma withLimits_eq: "withLimits out rcs = map (limitedBy out) rcs"
  by (simp add: withLimits_def limitedBy_def [abs_def])

lemma limitedBy_fields [simp]:
  "rcName (limitedBy out c) = rcName c" "rcRequestMilli (limitedBy out c) = rcRequestMilli c"
  "rcRestartOnResize (limitedBy out c) = rcRestartOnResize c"
  by (simp_all add: limitedBy_def split: option.split)

lemma withLimits_reads:
  "PodCPURequestMilli (withLimits out rcs) = PodCPURequestMilli rcs" "HasRestartOnResize (withLimits out rcs) = HasRestartOnResize rcs"
  "map rcName (withLimits out rcs) = map rcName rcs" "containerRatioCapMilli (withLimits out rcs) = containerRatioCapMilli rcs"
  by (simp_all add: withLimits_eq PodCPURequestMilli_def HasRestartOnResize_def containerRatioCapMilli_def foldl_map list_ex_iff fun_eq_iff
      cong: if_cong)

text \<open>Limits for containers with a request only leave the sums of the LimitRange check alone.\<close>

lemma withLimits_lrSums:
  assumes "\<And>c. c \<in> set rcs \<Longrightarrow> rcRequestMilli c \<le> 0 \<Longrightarrow> mget out (rcName c) = None"
  shows "lrSums (withLimits out rcs) = lrSums rcs"
proof -
  have "foldl F acc (map (limitedBy out) cs) = foldl F acc cs"
    if "set cs \<subseteq> set rcs" and F: "F = (\<lambda>(tot, largest, untouched) c. (fadd tot (float_of_int (rcRequestMilli c)),
       fmax largest (float_of_int (rcRequestMilli c)),
       if rcRequestMilli c \<le> 0 then fadd untouched (float_of_int (rcLimitMilli c)) else untouched))" for F acc cs
    using that(1)
  proof (induction cs arbitrary: acc)
    case (Cons c cs)
    have "F acc (limitedBy out c) = F acc c"
    proof (cases "rcRequestMilli c \<le> 0")
      case True
      then show ?thesis using assms [of c] Cons.prems by (simp add: limitedBy_def)
    qed (simp add: F split: prod.split)
    then show ?case using Cons by simp
  qed simp
  then show ?thesis by (simp add: lrSums_def withLimits_eq)
qed

lemma split_requested_only:
  assumes "split_dom T rcs" "splitLimit T rcs = Some out" "c \<in> set rcs" "rcRequestMilli c \<le> 0"
  shows "mget out (rcName c) = None"
  using sl.split_lookup [OF assms(1)] assms(2-4) by (auto simp: requested_def)

section \<open>The patch of a split\<close>

lemma map_of_limits:
  "map_of (concat (map (\<lambda>c. case mget out (rcName c) of None \<Rightarrow> [] | Some m \<Rightarrow> if Q (rcName c) then [(rcName c, h m)] else []) rcs)) n
     = (if n \<in> rcName ` set rcs \<and> Q n then map_option h (mget out n) else None)"
  by (induction rcs) (auto split: option.split)

definition namesApart :: "Pod \<Rightarrow> bool" where
  "namesApart pod \<longleftrightarrow> distinct (map cName (pContainers pod @ pInitContainers pod))"

lemma toResizable_setCPULimit:
  "toResizable (setCPULimit limits c) = (case map_of limits (cName c) of
     None \<Rightarrow> toResizable c | Some q \<Rightarrow> (toResizable c)\<lparr>rcLimitMilli := MilliValue q\<rparr>)"
  by (simp add: toResizable_def setCPULimit_def cpuRestartOnResize_def Cpu_def resourceNamed_def entries_def gomap_simps split: option.split)

lemma toResizable_name [simp]: "rcName (toResizable c) = cName c"
  by (simp add: toResizable_def)

lemma resizable_names: "rcName ` set (ResizableContainers pod) =
    cName ` set (pContainers pod) \<union> cName ` set (filter isRestartableInitContainer (pInitContainers pod))"
  by (simp add: ResizableContainers_def image_Un image_image)

lemma resize_limits:
  fixes pod :: Pod and out :: "(string, int64) gomap" and owner :: string
  assumes "namesApart pod"
  defines "p \<equiv> resizeBody pod (ResizableContainers pod) out owner"
  shows "c \<in> set (pContainers pod) \<Longrightarrow> map_of (ptContainers p) (cName c) = map_option NewMilliQuantity (mget out (cName c))"
    and "c \<in> set (pInitContainers pod) \<Longrightarrow> map_of (ptInitContainers p) (cName c) =
      (if isRestartableInitContainer c then map_option NewMilliQuantity (mget out (cName c)) else None)"
proof -
  let ?init = "\<lambda>n. list_ex (\<lambda>i. cName i = n) (pInitContainers pod)"
  have l: "map_of (ptContainers p) n = (if n \<in> rcName ` set (ResizableContainers pod) \<and> ?init n = False
       then map_option NewMilliQuantity (mget out n) else None)"
    "map_of (ptInitContainers p) n = (if n \<in> rcName ` set (ResizableContainers pod) \<and> ?init n = True
       then map_option NewMilliQuantity (mget out n) else None)" for n
    unfolding p_def resizeBody_def Let_def
    by (simp_all only: ResizePatch.simps map_of_limits [where Q = "\<lambda>n. ?init n = False"] map_of_limits [where Q = "\<lambda>n. ?init n = True"])
  have apart: "c \<in> set (pContainers pod) \<Longrightarrow> i \<in> set (pInitContainers pod) \<Longrightarrow> cName i \<noteq> cName c"
    "c \<in> set (pInitContainers pod) \<Longrightarrow> i \<in> set (pInitContainers pod) \<Longrightarrow> cName i = cName c \<Longrightarrow> i = c" for c i
    using assms(1) by (auto simp: namesApart_def distinct_map inj_on_def)
  show "map_of (ptContainers p) (cName c) = map_option NewMilliQuantity (mget out (cName c))" if "c \<in> set (pContainers pod)"
    using that apart(1) [OF that] unfolding l(1) by (auto simp: resizable_names list_ex_iff)
  show "map_of (ptInitContainers p) (cName c) =
      (if isRestartableInitContainer c then map_option NewMilliQuantity (mget out (cName c)) else None)" if "c \<in> set (pInitContainers pod)"
    using that apart unfolding l(2) by (auto simp: resizable_names list_ex_iff)
qed

lemma landPatch_relimit:
  "(landPatch p pod)\<lparr>pAnnotations := a\<rparr> = relimit (setCPULimit (ptContainers p)) (setCPULimit (ptInitContainers p)) a pod"
  by (simp add: landPatch_def relimit_def)

lemma landed_resizable:
  fixes pod :: Pod and out :: "(string, int64) gomap" and owner :: string
  assumes "namesApart pod"
  defines "p \<equiv> resizeBody pod (ResizableContainers pod) out owner"
  shows "ResizableContainers (relimit (setCPULimit (ptContainers p)) (setCPULimit (ptInitContainers p)) a pod)
      = withLimits out (ResizableContainers pod)"
    and "c \<in> set (pInitContainers pod) \<Longrightarrow> \<not> isRestartableInitContainer c \<Longrightarrow> setCPULimit (ptInitContainers p) c = c"
proof -
  note lim = resize_limits [OF assms(1), of _ out owner, folded p_def]
  have 1: "toResizable (setCPULimit limits c) = limitedBy out (toResizable c)"
    if "map_of limits (cName c) = map_option NewMilliQuantity (mget out (cName c))" for limits c
    using that by (cases "mget out (cName c)") (simp_all add: toResizable_setCPULimit limitedBy_def)
  have f: "filter isRestartableInitContainer (map (setCPULimit l) cs) = map (setCPULimit l) (filter isRestartableInitContainer cs)" for l cs
    by (simp add: filter_map comp_def limitOnlyD [OF limitOnly_setCPULimit])
  show "ResizableContainers (relimit (setCPULimit (ptContainers p)) (setCPULimit (ptInitContainers p)) a pod)
      = withLimits out (ResizableContainers pod)"
    unfolding ResizableContainers_def withLimits_eq using lim by (auto simp: relimit_def f intro: 1)
  show "setCPULimit (ptInitContainers p) c = c" if "c \<in> set (pInitContainers pod)" "\<not> isRestartableInitContainer c"
    using that lim(2) by (simp add: setCPULimit_def)
qed

section \<open>What the next reconcile reads\<close>

text \<open>Two pods that \<open>buildInputs\<close> cannot tell apart but by their current limit.\<close>

definition readsAlike :: "Pod \<Rightarrow> Pod \<Rightarrow> bool" where
  "readsAlike pod pod' \<longleftrightarrow> podKey pod' = podKey pod \<and> pNamespace pod' = pNamespace pod
     \<and> PodTerminal pod' = PodTerminal pod \<and> podResizeInfeasible pod' = podResizeInfeasible pod
     \<and> OwnerExcluded pod' = OwnerExcluded pod \<and> PodBookedCPUMilli pod' = PodBookedCPUMilli pod
     \<and> guaranteedAtRequest pod' = guaranteedAtRequest pod
     \<and> mget (pAnnotations pod') AnnotationMaxCPU = mget (pAnnotations pod) AnnotationMaxCPU
     \<and> PodCPURequestMilli (ResizableContainers pod') = PodCPURequestMilli (ResizableContainers pod)
     \<and> Eligible pod' (ResizableContainers pod') = Eligible pod (ResizableContainers pod)
     \<and> LimitManagingVPA pod' (ResizableContainers pod') = LimitManagingVPA pod (ResizableContainers pod)
     \<and> LimitRangeCapMilli pod' (ResizableContainers pod') = LimitRangeCapMilli pod (ResizableContainers pod)"

lemma readsAlike_relimit:
  assumes f: "limitOnly f" "limitOnly g" "\<And>c. c \<in> set (pInitContainers pod) \<Longrightarrow> \<not> isRestartableInitContainer c \<Longrightarrow> g c = c"
    and rcs: "ResizableContainers (relimit f g a pod) = withLimits out (ResizableContainers pod)"
    and out: "\<And>c. c \<in> set (ResizableContainers pod) \<Longrightarrow> rcRequestMilli c \<le> 0 \<Longrightarrow> mget out (rcName c) = None"
    and a: "mget a AnnotationMaxCPU = mget (pAnnotations pod) AnnotationMaxCPU"
  shows "readsAlike pod (relimit f g a pod)"
proof -
  have "LimitRangeCapMilli (relimit f g a pod) (withLimits out (ResizableContainers pod)) lrs
      = LimitRangeCapMilli pod (ResizableContainers pod) lrs" for lrs
  proof -
    have item: "lrItem (withLimits out (ResizableContainers pod)) = lrItem (ResizableContainers pod)"
      unfolding lrItem_def [abs_def] withLimits_reads ..
    have sums: "lrSums (withLimits out (ResizableContainers pod)) = lrSums (ResizableContainers pod)"
      by (rule withLimits_lrSums [OF out])
    show ?thesis unfolding LimitRangeCapMilli_def item sums relimit_requests(1) [OF f(1,2)] ..
  qed
  moreover have "LimitManagingVPA (relimit f g a pod) (withLimits out (ResizableContainers pod)) vpas
      = LimitManagingVPA pod (ResizableContainers pod) vpas" for vpas
    by (intro LimitManagingVPA_names withLimits_reads) (simp add: relimit_fields)
  moreover have "Eligible (relimit f g a pod) (withLimits out (ResizableContainers pod)) = Eligible pod (ResizableContainers pod)"
    by (simp add: Eligible_def relimit_fields withLimits_reads)
  ultimately show ?thesis
    using a unfolding readsAlike_def rcs fun_eq_iff
    by (simp add: relimit_fields withLimits_reads relimit_requests [OF f(1,2)] relimit_guaranteed [OF f])
qed

text \<open>A pod without a patch reads as before, current limit included.\<close>

lemma landed_none:
  assumes "landedAs ps pod pod'" "filter (\<lambda>p. patchKey p = podKey pod) ps = []"
  shows "readsAlike pod pod'" "ResizableContainers pod' = ResizableContainers pod"
proof -
  have pod': "pod' = relimit (\<lambda>c. c) (\<lambda>c. c) (pAnnotations pod') pod"
    "mget (pAnnotations pod') AnnotationMaxCPU = mget (pAnnotations pod) AnnotationMaxCPU"
    using assms by (simp_all add: landedAs_def landAll_def relimit_def)
  show rcs: "ResizableContainers pod' = ResizableContainers pod"
    by (subst pod'(1)) (simp add: ResizableContainers_def relimit_def)
  have "withLimits [] rcs = rcs" for rcs by (simp add: withLimits_def)
  then show "readsAlike pod pod'"
    using rcs pod'(2) by (subst pod'(1), intro readsAlike_relimit [where out = "[]"]) (simp_all add: pod'(1) [symmetric])
qed

text \<open>A pod whose one patch is the split of a target reads as before, and its limit as the target.\<close>

lemma landed_one:
  assumes "landedAs ps pod pod'" "namesApart pod" "split_dom T (ResizableContainers pod)"
    "splitLimit T (ResizableContainers pod) = Some out"
    "filter (\<lambda>p. patchKey p = podKey pod) ps = [resizeBody pod (ResizableContainers pod) out owner]"
  shows "readsAlike pod pod'" "PodCurrentLimitMilli (ResizableContainers pod') = T"
proof -
  let ?p = "resizeBody pod (ResizableContainers pod) out owner"
  let ?f = "setCPULimit (ptContainers ?p)" and ?g = "setCPULimit (ptInitContainers ?p)"
  have pod': "pod' = relimit ?f ?g (pAnnotations pod') pod"
    "mget (pAnnotations pod') AnnotationMaxCPU = mget (pAnnotations pod) AnnotationMaxCPU"
    using assms(1,5) by (simp_all add: landedAs_def landAll_def landPatch_relimit)
  note land = landed_resizable [OF assms(2), where out = out and owner = owner]
  have "readsAlike pod (relimit ?f ?g (pAnnotations pod') pod)"
    by (intro readsAlike_relimit [where out = out] limitOnly_setCPULimit land split_requested_only [OF assms(3,4)] pod'(2))
  then show "readsAlike pod pod'" using pod'(1) by simp
  have "ResizableContainers pod' = withLimits out (ResizableContainers pod)" using land(1) pod'(1) by metis
  then show "PodCurrentLimitMilli (ResizableContainers pod') = T" using sl.read_back [OF assms(3)] assms(4) by simp
qed

end
