(* ===== verification/NodeConverge.thy ===== *)
theory NodeConverge
  imports LandedPods NodeProps PolicyProps
begin

text \<open>
  Two reconciles in a row. In a cluster that does not change, once a reconcile of an enforcing
  configuration has asked for no requeue and its resizes have landed, the next reconcile of the
  node issues none: judging, policy, split, patch and read-back compose to a fixed point.
\<close>

section \<open>Inputs in a steady environment\<close>

text \<open>An environment that answers every call as the first time, accepts every resize, and
  changes nothing but annotations when a status is patched.\<close>

definition steady :: "nodeEnv \<Rightarrow> bool" where
  "steady env \<longleftrightarrow> (\<forall>n. envVPAs env n = envVPAs env 0 \<and> envConfig env n = envConfig env 0 \<and> envNode env n = envNode env 0
     \<and> envPodsOn env n = envPodsOn env 0 \<and> envNamespace env n = envNamespace env 0 \<and> envLimitRanges env n = envLimitRanges env 0
     \<and> (\<forall>p. envPatchResize env n p = None)
     \<and> (\<forall>pod data pod'. envPatchStatus env n pod data = Inr pod' \<longrightarrow> (\<exists>a. pod' = pod\<lparr>pAnnotations := a\<rparr>)))"

lemma steadyD:
  assumes "steady env"
  shows "envVPAs env n = envVPAs env 0" "envConfig env n = envConfig env 0" "envNode env n = envNode env 0"
    "envPodsOn env n = envPodsOn env 0" "envNamespace env n = envNamespace env 0" "envLimitRanges env n = envLimitRanges env 0"
    "envPatchResize env n p = None" "envPatchStatus env n pod data = Inr pod' \<Longrightarrow> \<exists>a. pod' = pod\<lparr>pAnnotations := a\<rparr>"
  using assms unfolding steady_def by blast+

definition nsVerdict :: "nodeEnv \<Rightarrow> HeadroomConfigSpec \<Rightarrow> string \<Rightarrow> bool" where
  "nsVerdict env spec name = (case envNamespace env 0 name of Inl e \<Rightarrow> False | Inr ns \<Rightarrow> NamespaceManaged ns spec)"

definition nsReadable :: "nodeEnv \<Rightarrow> string \<Rightarrow> bool" where
  "nsReadable env name = (case envNamespace env 0 name of Inl e \<Rightarrow> (\<exists>m. e = NotFound m) | Inr ns \<Rightarrow> True)"

text \<open>The pods that reach the namespace check, those that are managed, and the input of each.\<close>

definition gated :: "resolvedConfig \<Rightarrow> bool \<Rightarrow> Pod \<Rightarrow> bool" where
  "gated cfg nodeManaged pod \<longleftrightarrow> nodeManaged \<and> Eligible pod (ResizableContainers pod)
     \<and> \<not> OwnerExcluded pod (specExcludedOwners (rcSpec cfg))"

definition chosen :: "nodeEnv \<Rightarrow> resolvedConfig \<Rightarrow> bool \<Rightarrow> Pod \<Rightarrow> bool" where
  "chosen env cfg nodeManaged pod \<longleftrightarrow> gated cfg nodeManaged pod \<and> nsVerdict env (rcSpec cfg) (pNamespace pod)
     \<and> LimitManagingVPA pod (ResizableContainers pod) (ForNamespace (envVPAs env 0) (pNamespace pod)) = ''''"

definition readable :: "nodeEnv \<Rightarrow> resolvedConfig \<Rightarrow> bool \<Rightarrow> Pod \<Rightarrow> bool" where
  "readable env cfg nodeManaged pod \<longleftrightarrow> (gated cfg nodeManaged pod \<longrightarrow> nsReadable env (pNamespace pod))
     \<and> (chosen env cfg nodeManaged pod \<longrightarrow> (\<exists>lrs. envLimitRanges env 0 (pNamespace pod) = Inr lrs))"

definition rangeCap :: "nodeEnv \<Rightarrow> Pod \<Rightarrow> int64" where
  "rangeCap env pod = (case envLimitRanges env 0 (pNamespace pod) of
     Inl e \<Rightarrow> 0 | Inr lrs \<Rightarrow> LimitRangeCapMilli pod (ResizableContainers pod) lrs)"

definition steadyInput :: "nodeEnv \<Rightarrow> resolvedConfig \<Rightarrow> bool \<Rightarrow> Pod \<Rightarrow> PodInput" where
  "steadyInput env cfg nodeManaged pod =
     (let m = chosen env cfg nodeManaged pod
      in (buildPodInput (envParseQuantity env) pod (ResizableContainers pod) m)
           \<lparr>HoldsShare := False, LimitRangeCap := if m then rangeCap env pod else 0\<rparr>)"

definition cachesOk :: "nodeEnv \<Rightarrow> resolvedConfig \<Rightarrow> inputsAcc \<Rightarrow> bool" where
  "cachesOk env cfg acc \<longleftrightarrow>
     (\<forall>name ok. mget (iaManaged acc) name = Some ok \<longrightarrow> nsReadable env name \<and> ok = nsVerdict env (rcSpec cfg) name)
     \<and> (\<forall>name lrs. mget (iaLimitRanges acc) name = Some lrs \<longrightarrow> envLimitRanges env 0 name = Inr lrs)"

lemma cachesOk_put:
  "cachesOk env cfg acc \<Longrightarrow> nsReadable env name \<Longrightarrow>
   cachesOk env cfg (acc\<lparr>iaManaged := mput name (nsVerdict env (rcSpec cfg) name) (iaManaged acc)\<rparr>)"
  by (simp add: cachesOk_def gomap_simps)

lemma lookupNamespace_steady:
  assumes "steady env" "cachesOk env cfg acc" "lookupNamespace env cfg pod acc r = (x, r')"
  shows "nrBackoff r' = nrBackoff r"
    "if nsReadable env (pNamespace pod)
     then \<exists>acc'. x = Inr (nsVerdict env (rcSpec cfg) (pNamespace pod), acc') \<and> cachesOk env cfg acc'
       \<and> iaInputs acc' = iaInputs acc \<and> iaByKey acc' = iaByKey acc
     else \<exists>e. x = Inl e"
proof -
  let ?ns = "pNamespace pod"
  have n: "envNamespace env (nrTick r) = envNamespace env 0" by (rule steadyD [OF assms(1)])
  show "nrBackoff r' = nrBackoff r" using assms(3) by (auto simp: lookupNamespace_def split: option.splits)
  show "if nsReadable env ?ns
     then \<exists>acc'. x = Inr (nsVerdict env (rcSpec cfg) ?ns, acc') \<and> cachesOk env cfg acc'
       \<and> iaInputs acc' = iaInputs acc \<and> iaByKey acc' = iaByKey acc
     else \<exists>e. x = Inl e"
  proof (cases "mget (iaManaged acc) ?ns")
    case (Some ok)
    then have "nsReadable env ?ns" "ok = nsVerdict env (rcSpec cfg) ?ns" using assms(2) unfolding cachesOk_def by blast+
    then show ?thesis using assms(2,3) Some by (auto simp: lookupNamespace_def)
  next
    case None
    then show ?thesis using assms(3) n cachesOk_put [OF assms(2), of ?ns]
      by (cases "envNamespace env 0 ?ns") (auto simp: lookupNamespace_def nsReadable_def nsVerdict_def split: apiError.splits)
  qed
qed

lemma lookupLimitRanges_steady:
  assumes "steady env" "cachesOk env cfg acc" "lookupLimitRanges env pod acc r = (x, r')"
  shows "nrBackoff r' = nrBackoff r"
    "case envLimitRanges env 0 (pNamespace pod) of
       Inr lrs \<Rightarrow> \<exists>acc'. x = Inr (lrs, acc') \<and> cachesOk env cfg acc' \<and> iaInputs acc' = iaInputs acc \<and> iaByKey acc' = iaByKey acc
     | Inl e \<Rightarrow> \<exists>e. x = Inl e"
proof -
  have n: "envLimitRanges env (nrTick r) = envLimitRanges env 0" by (rule steadyD [OF assms(1)])
  show "nrBackoff r' = nrBackoff r" using assms(3) by (auto simp: lookupLimitRanges_def split: option.splits)
  show "case envLimitRanges env 0 (pNamespace pod) of
       Inr lrs \<Rightarrow> \<exists>acc'. x = Inr (lrs, acc') \<and> cachesOk env cfg acc' \<and> iaInputs acc' = iaInputs acc \<and> iaByKey acc' = iaByKey acc
     | Inl e \<Rightarrow> \<exists>e. x = Inl e"
    using assms(2,3) n by (auto simp: lookupLimitRanges_def cachesOk_def gomap_simps split: option.splits sum.splits)
qed

lemma noteVPASkip_backoff [simp]: "nrBackoff (noteVPASkip pod vpa r) = nrBackoff r"
  by (simp add: noteVPASkip_def recordEvent_def emit_def Let_def)

definition sameInputs :: "nodeEnv \<Rightarrow> resolvedConfig \<Rightarrow> inputsAcc \<Rightarrow> inputsAcc \<Rightarrow> bool" where
  "sameInputs env cfg acc acc' \<longleftrightarrow> cachesOk env cfg acc' \<and> iaInputs acc' = iaInputs acc \<and> iaByKey acc' = iaByKey acc"

lemma judgePod_steady:
  assumes "steady env" "cachesOk env cfg acc" "nrBackoff r = []"
    "judgePod env cfg nodeManaged pod (ResizableContainers pod) acc r = (x, r')"
  shows "nrBackoff r' = []"
    "if gated cfg nodeManaged pod \<longrightarrow> nsReadable env (pNamespace pod)
     then \<exists>acc'. x = Inr ((chosen env cfg nodeManaged pod, False), acc') \<and> sameInputs env cfg acc acc'
     else \<exists>e. x = Inl e"
proof -
  obtain y r1 where y: "lookupNamespace env cfg pod acc r = (y, r1)" by fastforce
  note L = lookupNamespace_steady [OF assms(1,2) y]
  have v: "envVPAs env (nrTick r1) = envVPAs env 0" by (rule steadyD [OF assms(1)])
  have free: "inBackoff env pod r = (False, r)" by (simp add: inBackoff_def assms(3))
  have "nrBackoff r' = [] \<and> (if gated cfg nodeManaged pod \<longrightarrow> nsReadable env (pNamespace pod)
     then \<exists>acc'. x = Inr ((chosen env cfg nodeManaged pod, False), acc') \<and> sameInputs env cfg acc acc'
     else \<exists>e. x = Inl e)"
  proof (cases "gated cfg nodeManaged pod")
    case False
    then have "x = Inr ((False, False), acc)" "r' = r" using assms(4) by (auto simp: judgePod_def gated_def)
    then show ?thesis using False assms(2,3) by (simp add: chosen_def sameInputs_def)
  next
    case True
    note g = True [unfolded gated_def]
    show ?thesis
    proof (cases "nsReadable env (pNamespace pod)")
      case False
      then obtain e where "y = Inl e" using L(2) by auto
      then show ?thesis using True False assms(3,4) g L(1) y by (auto simp: judgePod_def free)
    next
      case readable: True
      then obtain acc' where a: "y = Inr (nsVerdict env (rcSpec cfg) (pNamespace pod), acc')" "sameInputs env cfg acc acc'"
        using L(2) by (auto simp: sameInputs_def)
      then show ?thesis using True readable assms(3,4) g L(1) y v
        by (auto simp: judgePod_def free chosen_def Let_def split: if_splits)
    qed
  qed
  then show "nrBackoff r' = []"
    "if gated cfg nodeManaged pod \<longrightarrow> nsReadable env (pNamespace pod)
     then \<exists>acc'. x = Inr ((chosen env cfg nodeManaged pod, False), acc') \<and> sameInputs env cfg acc acc'
     else \<exists>e. x = Inl e" by simp_all
qed

lemma inputOfPod_steady:
  assumes "steady env" "cachesOk env cfg acc" "nrBackoff r = []" "\<not> podResizeInfeasible pod" "\<not> PodTerminal pod"
    "inputOfPod env cfg nodeManaged pod acc r = (x, r')"
  shows "nrBackoff r' = [] \<and>
    (if readable env cfg nodeManaged pod
     then \<exists>acc'. x = Inr (addInput pod (steadyInput env cfg nodeManaged pod) acc') \<and> sameInputs env cfg acc acc'
     else \<exists>e. x = Inl e)"
proof -
  let ?m = "chosen env cfg nodeManaged pod"
  obtain j r1 where j: "judgePod env cfg nodeManaged pod (ResizableContainers pod) acc r = (j, r1)" by fastforce
  note J = judgePod_steady [OF assms(1-3) j]
  show ?thesis
  proof (cases "gated cfg nodeManaged pod \<longrightarrow> nsReadable env (pNamespace pod)")
    case False
    then have "\<exists>e. j = Inl e" using J(2) by simp
    then show ?thesis using False J(1) assms(5,6) j by (auto simp: inputOfPod_def readable_def)
  next
    case True
    then obtain acc1 where a: "j = Inr ((?m, False), acc1)" "sameInputs env cfg acc acc1" using J(2) by auto
    obtain l r2 where l: "lookupLimitRanges env pod acc1 r1 = (l, r2)" by fastforce
    note L = lookupLimitRanges_steady [OF assms(1) _ l] J(1)
    have c1: "cachesOk env cfg acc1" using a(2) by (simp add: sameInputs_def)
    show ?thesis
    proof (cases ?m)
      case False
      then show ?thesis using True a assms(4-6) j J(1)
        by (auto simp: inputOfPod_def readable_def steadyInput_def buildPodInput_def Let_def)
    next
      case m: True
      show ?thesis
      proof (cases "envLimitRanges env 0 (pNamespace pod)")
        case (Inl e)
        then have "\<exists>e. l = Inl e" "\<not> readable env cfg nodeManaged pod" using L(2) [OF c1] m by (auto simp: readable_def)
        then show ?thesis using m a assms(4-6) j l L(1) [OF c1] J(1) by (auto simp: inputOfPod_def)
      next
        case (Inr lrs)
        then obtain acc2 where acc2: "l = Inr (lrs, acc2)" "sameInputs env cfg acc acc2"
          using L(2) [OF c1] a(2) by (auto simp: sameInputs_def)
        have "readable env cfg nodeManaged pod" using Inr True by (simp add: readable_def)
        moreover have "x = Inr (addInput pod (steadyInput env cfg nodeManaged pod) acc2)" "r' = r2"
          using m a(1) assms(4-6) j l acc2(1) Inr by (simp_all add: inputOfPod_def steadyInput_def rangeCap_def Let_def)
        ultimately show ?thesis using acc2(2) L(1) [OF c1] J(1) by auto
      qed
    qed
  qed
qed

definition live :: "Pod list \<Rightarrow> Pod list" where
  "live pods = filter (\<lambda>pod. \<not> PodTerminal pod) pods"

lemma live_simps [simp]: "live [] = []" "live (pod # pods) = (if PodTerminal pod then live pods else pod # live pods)"
  by (simp_all add: live_def)

definition keyed :: "Pod list \<Rightarrow> (string, Pod) gomap \<Rightarrow> (string, Pod) gomap" where
  "keyed pods m = fold (\<lambda>pod. mput (podKey pod) pod) pods m"

lemma inputsLoop_steady:
  assumes "steady env" "cachesOk env cfg acc" "nrBackoff r = []" "list_all (\<lambda>pod. \<not> podResizeInfeasible pod) pods"
    "inputsLoop env cfg nodeManaged pods acc r = (x, r')"
  shows "nrBackoff r' = [] \<and>
    (if list_all (readable env cfg nodeManaged) (live pods)
     then \<exists>acc'. x = Inr acc' \<and> iaInputs acc' = iaInputs acc @ map (steadyInput env cfg nodeManaged) (live pods)
       \<and> iaByKey acc' = keyed (live pods) (iaByKey acc)
     else \<exists>e. x = Inl e)"
  using assms(2-)
proof (induction pods arbitrary: acc r)
  case Nil
  then show ?case by (auto simp: keyed_def)
next
  case (Cons pod pods)
  obtain y r1 where y: "inputOfPod env cfg nodeManaged pod acc r = (y, r1)" by fastforce
  have ok: "\<not> podResizeInfeasible pod" "list_all (\<lambda>pod. \<not> podResizeInfeasible pod) pods" using Cons.prems(3) by simp_all
  show ?case
  proof (cases "PodTerminal pod")
    case True
    then show ?thesis using Cons.IH [OF Cons.prems(1,2) ok(2)] Cons.prems(4) by (simp add: inputOfPod_def)
  next
    case False
    note S = inputOfPod_steady [OF assms(1) Cons.prems(1,2) ok(1) False y]
    show ?thesis
    proof (cases "readable env cfg nodeManaged pod")
      case unread: False
      then obtain e where "y = Inl e" using S by auto
      then show ?thesis using Cons.prems(4) y S unread False by auto
    next
      case read: True
      then obtain acc1 where a: "y = Inr (addInput pod (steadyInput env cfg nodeManaged pod) acc1)" "sameInputs env cfg acc acc1"
        using S by auto
      define acc2 where "acc2 = addInput pod (steadyInput env cfg nodeManaged pod) acc1"
      have acc2: "cachesOk env cfg acc2" "iaInputs acc2 = iaInputs acc @ [steadyInput env cfg nodeManaged pod]"
        "iaByKey acc2 = mput (podKey pod) pod (iaByKey acc)"
        using a(2) by (simp_all add: sameInputs_def cachesOk_def addInput_def acc2_def)
      have "inputsLoop env cfg nodeManaged pods acc2 r1 = (x, r')" using Cons.prems(4) y a(1) by (simp add: acc2_def)
      from Cons.IH [OF acc2(1) _ ok(2) this] show ?thesis using S read False by (auto simp: keyed_def acc2 split: if_splits)
    qed
  qed
qed

lemma buildInputs_steady:
  assumes "steady env" "nrBackoff r = []" "list_all (\<lambda>pod. \<not> podResizeInfeasible pod) pods"
    "buildInputs env cfg pods nodeManaged r = (x, r')"
  shows "nrBackoff r' = [] \<and>
    (if list_all (readable env cfg nodeManaged) (live pods)
     then x = Inr (map (steadyInput env cfg nodeManaged) (live pods), keyed (live pods) []) else \<exists>e. x = Inl e)"
proof -
  let ?acc = "\<lparr>iaManaged = [], iaLimitRanges = [], iaInputs = [], iaByKey = []\<rparr>"
  obtain y r1 where y: "inputsLoop env cfg nodeManaged pods ?acc r = (y, r1)" by fastforce
  have "cachesOk env cfg ?acc" by (simp add: cachesOk_def)
  from inputsLoop_steady [OF assms(1) this assms(2,3) y] show ?thesis
    using assms(4) y by (auto simp: buildInputs_def split: if_splits)
qed

lemma mget_keyed:
  assumes "distinct (map podKey pods)"
  shows "mget (keyed pods m) k = (case find (\<lambda>pod. podKey pod = k) pods of Some pod \<Rightarrow> Some pod | None \<Rightarrow> mget m k)"
  using assms
proof (induction pods arbitrary: m)
  case (Cons pod pods)
  have "find (\<lambda>p. podKey p = podKey pod) pods = None" using Cons.prems by (simp add: find_None_iff) (metis image_eqI)
  then show ?case using Cons.IH [of "mput (podKey pod) pod m"] Cons.prems
    by (auto simp: keyed_def gomap_simps split: option.split)
qed (simp add: keyed_def)

section \<open>The patches of a completed loop\<close>

text \<open>The patch a decision leads to.\<close>

definition sent :: "string \<Rightarrow> (string, Pod) gomap \<Rightarrow> Decision \<Rightarrow> ResizePatch list" where
  "sent owner byKey d =
     (case mget byKey (DKey d) of
        None \<Rightarrow> []
      | Some pod \<Rightarrow>
          if Apply d
          then (case splitLimit (TargetLimitMilli d) (ResizableContainers pod) of
                  None \<Rightarrow> []
                | Some per \<Rightarrow> if per = [] then [] else [resizeBody pod (ResizableContainers pod) per owner])
          else [])"

lemma writePodStatus_steady:
  assumes "steady env" "writePodStatus env pod desired r = (e, pod', r')"
  shows "\<exists>a. pod' = pod\<lparr>pAnnotations := a\<rparr>" "nrBackoff r' = nrBackoff r"
proof -
  have self: "\<exists>a. q = q\<lparr>pAnnotations := a\<rparr>" for q :: Pod by (rule exI [of _ "pAnnotations q"]) simp
  show "\<exists>a. pod' = pod\<lparr>pAnnotations := a\<rparr>"
    using assms(2) steadyD(8) [OF assms(1)]
    by (auto simp: writePodStatus_def Let_def self split: if_splits option.splits sum.splits)
  show "nrBackoff r' = nrBackoff r"
    using assms(2) by (auto simp: writePodStatus_def emit_def Let_def split: if_splits option.splits sum.splits)
qed

lemma resizeBody_annotation:
  "resizeBody (pod\<lparr>pAnnotations := a\<rparr>) = resizeBody pod" "ResizableContainers (pod\<lparr>pAnnotations := a\<rparr>) = ResizableContainers pod"
proof -
  have f: "pContainers (pod\<lparr>pAnnotations := a\<rparr>) = pContainers pod" "pInitContainers (pod\<lparr>pAnnotations := a\<rparr>) = pInitContainers pod"
    "pNamespace (pod\<lparr>pAnnotations := a\<rparr>) = pNamespace pod" "pName (pod\<lparr>pAnnotations := a\<rparr>) = pName pod" by simp_all
  show "resizeBody (pod\<lparr>pAnnotations := a\<rparr>) = resizeBody pod" "ResizableContainers (pod\<lparr>pAnnotations := a\<rparr>) = ResizableContainers pod"
    unfolding resizeBody_def [abs_def] ResizableContainers_def f by (rule refl)+
qed

lemma applyResize_steady:
  assumes "steady env" "applyResize env pod target r = (x, r')"
  shows "(x = None \<or> x = Some None) \<and> nrBackoff r' = nrBackoff r \<and> (x \<noteq> None \<longrightarrow> issued r' = issued r @
    (case splitLimit target (ResizableContainers pod) of None \<Rightarrow> []
     | Some per \<Rightarrow> if per = [] then [] else [resizeBody pod (ResizableContainers pod) per (fieldManager r)]))"
  using assms(2) steadyD(7) [OF assms(1)]
  by (auto simp: applyResize_def emit_def issued_def Let_def split: option.splits if_splits)

text \<open>A decision that the loop gets past has sent its patch.\<close>

lemma applyOne_steady:
  assumes "steady env" "\<not> rcDryRun cfg" "applyOne env node cfg stats nodePods d byKey bucket r = (step, byKey', bucket', r')"
  shows "step \<in> {Break, Panic} \<or> step = Next False [] \<and> issued r' = issued r @ sent (fieldManager r) byKey d
    \<and> nrBackoff r' = nrBackoff r \<and> fieldManager r' = fieldManager r \<and> (\<forall>k. k \<noteq> DKey d \<longrightarrow> mget byKey' k = mget byKey k)"
proof (cases "mget byKey (DKey d)")
  case None
  then show ?thesis using assms(3) by (auto simp: applyOne_def sent_def)
next
  case (Some pod)
  obtain e pod1 r1 where w: "writePodStatus env pod (buildPodStatus stats nodePods (TargetLimitMilli d) (rcDryRun cfg)) r = (e, pod1, r1)"
    by (metis prod.exhaust)
  obtain a where pod1: "pod1 = pod\<lparr>pAnnotations := a\<rparr>" and b1: "nrBackoff r1 = nrBackoff r"
    using writePodStatus_steady [OF assms(1) w] by blast
  have s1: "issued r1 = issued r" "fieldManager r1 = fieldManager r"
    using sameCore_writePodStatus [OF w] by (simp_all add: sameCore_def knobs_def fieldManager_def)
  show ?thesis
  proof (cases "Apply d")
    case False
    then have "step = Next False []" "byKey' = mput (DKey d) pod1 byKey" "r' = r1"
      using assms(3) Some w by (simp_all add: applyOne_def Let_def)
    then show ?thesis using False s1 b1 Some by (simp add: sent_def gomap_simps)
  next
    case True
    obtain ok b2 r2 where al: "allowPatch env node bucket r1 = (ok, b2, r2)" by (metis prod.exhaust)
    have s2: "issued r2 = issued r" "nrBackoff r2 = nrBackoff r" "fieldManager r2 = fieldManager r"
      using al s1 b1 by (auto simp: allowPatch_def fieldManager_def split: prod.splits)
    obtain x r3 where x: "applyResize env pod1 (TargetLimitMilli d) r2 = (x, r3)" by fastforce
    note X = applyResize_steady [OF assms(1) x] and f3 = applyResize_spec [OF x, of d]
    show ?thesis
    proof (cases "ok \<and> x \<noteq> None")
      case False
      then have "step \<in> {Break, Panic}" using assms(2,3) Some w True al x
        by (cases ok) (auto simp: applyOne_def Let_def)
      then show ?thesis by blast
    next
      case go: True
      then have "x = Some None" using X by auto
      then have r': "step = Next False []" "byKey' = mput (DKey d) pod1 byKey"
          "r' = recordEvent pod1 EventTypeNormal reasonCPULimitAdjusted
             (adjustMessage (PodCurrentLimitMilli (ResizableContainers pod1)) (TargetLimitMilli d) stats False)
             (meter (incResizes resultApplied) r3)"
        using assms(2,3) Some w True al x go by (simp_all add: applyOne_def Let_def)
      have "sameCore r3 r'" unfolding r'(3) by (intro core_steps sameCore_refl)
      then have "issued r' = issued r3" "fieldManager r' = fieldManager r3" by (simp_all add: sameCore_def knobs_def fieldManager_def)
      moreover have "nrBackoff r' = nrBackoff r3" unfolding r'(3) by (simp add: recordEvent_def emit_def meter_def)
      moreover have "fieldManager r3 = fieldManager r2"
        using x go by (auto simp: applyResize_def emit_def fieldManager_def Let_def split: option.splits if_splits)
      moreover have "issued r3 = issued r @ sent (fieldManager r) byKey d"
        using X go s2(1,2) True Some unfolding pod1 resizeBody_annotation s2(3) by (simp add: sent_def cong: option.case_cong)
      ultimately show ?thesis using X s2 r'(1,2) by (simp add: gomap_simps)
    qed
  qed
qed

lemma sent_cong: "mget byKey' (DKey d) = mget byKey (DKey d) \<Longrightarrow> sent owner byKey' d = sent owner byKey d"
  by (simp add: sent_def)

lemma applyLoop_completed:
  assumes "steady env" "\<not> rcDryRun cfg" "distinct (map DKey ds)"
    "applyLoop env node cfg stats nodePods ds byKey bucket rateLimited errs r = (Some (False, errs'), r')"
  shows "nrBackoff r' = nrBackoff r \<and> issued r' = issued r @ concat (map (sent (fieldManager r) byKey) ds)"
  using assms(3,4)
proof (induction ds arbitrary: byKey bucket rateLimited errs r)
  case (Cons d ds)
  obtain step byKey1 b1 r1 where one: "applyOne env node cfg stats nodePods d byKey bucket r = (step, byKey1, b1, r1)"
    by (metis prod.exhaust)
  have "step \<notin> {Break, Panic}" using Cons.prems(2) one by auto
  then have S: "step = Next False []" "issued r1 = issued r @ sent (fieldManager r) byKey d" "nrBackoff r1 = nrBackoff r"
      "fieldManager r1 = fieldManager r" "\<And>k. k \<noteq> DKey d \<Longrightarrow> mget byKey1 k = mget byKey k"
    using applyOne_steady [OF assms(1,2) one] by blast+
  have "applyLoop env node cfg stats nodePods ds byKey1 b1 rateLimited errs r1 = (Some (False, errs'), r')"
    using Cons.prems(2) one S(1) by simp
  moreover have "sent (fieldManager r) byKey1 d' = sent (fieldManager r) byKey d'" if "d' \<in> set ds" for d'
    using Cons.prems(1) imageI [OF that, of DKey] by (intro sent_cong S(5)) auto
  then have "concat (map (sent (fieldManager r) byKey1) ds) = concat (map (sent (fieldManager r) byKey) ds)"
    by (metis (no_types, lifting) map_cong)
  ultimately show ?case using Cons.IH [of byKey1 b1 rateLimited errs r1] Cons.prems(1) S(2-4) by simp
qed simp

text \<open>Decisions that apply nothing send nothing.\<close>

lemma applyLoop_idle:
  assumes "steady env" "\<not> rcDryRun cfg" "list_all (\<lambda>d. \<not> Apply d) ds"
  shows "\<exists>r'. applyLoop env node cfg stats nodePods ds byKey bucket rateLimited errs r = (Some (rateLimited, errs), r')
    \<and> issued r' = issued r \<and> nrBackoff r' = nrBackoff r"
  using assms(3)
proof (induction ds arbitrary: byKey bucket r)
  case (Cons d ds)
  obtain step byKey1 b1 r1 where one: "applyOne env node cfg stats nodePods d byKey bucket r = (step, byKey1, b1, r1)"
    by (metis prod.exhaust)
  have "step \<notin> {Break, Panic}"
    using one Cons.prems by (auto simp: applyOne_def Let_def split: option.splits prod.splits)
  moreover have "sent (fieldManager r) byKey d = []" using Cons.prems by (simp add: sent_def split: option.split)
  ultimately have S: "step = Next False []" "issued r1 = issued r" "nrBackoff r1 = nrBackoff r"
    using applyOne_steady [OF assms(1,2) one] by auto
  then show ?case using Cons.IH [of byKey1 b1 r1] Cons.prems one by simp
qed simp

section \<open>The policy at its own targets\<close>

text \<open>Inputs that differ in the current limit only, where that is the target if the first decision
  is applied and unchanged otherwise.\<close>

definition settledInput :: "NodeStats \<Rightarrow> Config \<Rightarrow> PodInput \<Rightarrow> PodInput \<Rightarrow> bool" where
  "settledInput s cfg p p' \<longleftrightarrow> (\<exists>c. p' = p\<lparr>CurrentLimitMilli := c\<rparr>
     \<and> (Managed p \<longrightarrow> c = (if Apply (decide p s cfg) then TargetLimitMilli (decide p s cfg) else CurrentLimitMilli p)))"

lemma settledInput_quiet:
  assumes "settledInput s cfg p p'" "Managed p"
  shows "\<not> Apply (decide p' s cfg)"
proof (cases "Apply (decide p s cfg)")
  case True
  then have p': "p' = p\<lparr>CurrentLimitMilli := TargetLimitMilli (decide p s cfg)\<rparr>" using assms by (auto simp: settledInput_def)
  show ?thesis unfolding p' by (simp add: decide_target decide_eq [of "_\<lparr>CurrentLimitMilli := _\<rparr>"] target_frame finalize_unchanged)
next
  case False
  then have "p' = p" using assms by (auto simp: settledInput_def)
  then show ?thesis using False by simp
qed

lemma settled_inputs_quiet:
  assumes "list_all2 (settledInput (statsOf a ps) cfg) ps ps'"
  shows "list_all (\<lambda>d. \<not> Apply d) (snd (Compute a ps' cfg))"
proof -
  let ?s = "statsOf a ps"
  have same: "bookedMilli p' = bookedMilli p \<and> holds p' = holds p \<and> RequestMilli p' = RequestMilli p \<and> Managed p' = Managed p"
    if "settledInput ?s cfg p p'" for p p'
  proof -
    from that obtain c where p': "p' = p\<lparr>CurrentLimitMilli := c\<rparr>" unfolding settledInput_def by blast
    show ?thesis unfolding p' by (simp add: bookedMilli_def holds_def)
  qed
  have "map bookedMilli ps' = map bookedMilli ps \<and> map RequestMilli (filter holds ps') = map RequestMilli (filter holds ps)"
    using assms by (induction rule: list_all2_induct) (use same in auto)
  then have "statsOf a ps' = ?s" by (intro statsOf_cong) simp_all
  moreover have "\<not> Apply (decide p' ?s cfg)" if mem: "p' \<in> set ps'" and m: "Managed p'" for p'
  proof -
    obtain i where "i < length ps'" "p' = ps' ! i" using mem by (metis in_set_conv_nth)
    then have "settledInput ?s cfg (ps ! i) p'" using list_all2_nthD2 [OF assms] by simp
    then show ?thesis using settledInput_quiet same m by blast
  qed
  ultimately show ?thesis by (auto simp: Compute_eq list_all_iff)
qed

section \<open>Landed patches as inputs\<close>

lemma concat_if: "concat (map (\<lambda>x. if P x then f x else []) xs) = concat (map f (filter P xs))"
  by (induction xs) simp_all

lemma filter_key: "distinct (map k xs) \<Longrightarrow> x \<in> set xs \<Longrightarrow> filter (\<lambda>y. k y = k x) xs = [x]"
  by (induction xs) (auto simp: filter_empty_conv image_iff)

lemma find_key: "distinct (map k xs) \<Longrightarrow> x \<in> set xs \<Longrightarrow> find (\<lambda>y. k y = k x) xs = Some x"
  by (induction xs) (auto simp: image_iff)

text \<open>The patches of a completed loop that are for one pod.\<close>

lemma patches_of_pod:
  assumes "distinct (map podKey pods)" "pod \<in> set pods" "\<And>p. DKey (dec p) = podKey p"
  shows "filter (\<lambda>p. patchKey p = podKey pod) (concat (map (sent owner (keyed pods [])) (map dec (filter Q pods))))
    = (if Q pod then sent owner (keyed pods []) (dec pod) else [])"
proof -
  let ?sent = "sent owner (keyed pods [])"
  have own: "mget (keyed pods []) (podKey p) = Some p" if "p \<in> set pods" for p
    using mget_keyed [OF assms(1)] find_key [OF assms(1) that] by simp
  have mine: "filter (\<lambda>q. patchKey q = podKey pod) (?sent (dec p)) = (if podKey p = podKey pod then ?sent (dec p) else [])"
    if "p \<in> set pods" for p
  proof -
    have "?sent (dec p) = [] \<or> (\<exists>per. ?sent (dec p) = [resizeBody p (ResizableContainers p) per owner])"
      using own [OF that] by (auto simp: sent_def assms(3) split: option.split)
    then show ?thesis by (auto simp: patchKey_resizeBody)
  qed
  have "filter (\<lambda>q. patchKey q = podKey pod) (concat (map ?sent (map dec (filter Q pods))))
      = concat (map (\<lambda>p. if podKey p = podKey pod then ?sent (dec p) else []) (filter Q pods))"
    unfolding filter_concat map_map comp_def using mine by (intro arg_cong [where f = concat] map_cong) auto
  also have "\<dots> = concat (map (\<lambda>p. ?sent (dec p)) (filter Q (filter (\<lambda>p. podKey p = podKey pod) pods)))"
    by (simp add: concat_if conj_commute)
  also have "\<dots> = (if Q pod then ?sent (dec pod) else [])" using filter_key [OF assms(1,2)] by simp
  finally show ?thesis .
qed

lemma landAll_fields: "PodTerminal (landAll ps pod) = PodTerminal pod" "podResizeInfeasible (landAll ps pod) = podResizeInfeasible pod"
proof -
  have "pPhase (fold landPatch qs pod) = pPhase pod \<and> pConditions (fold landPatch qs pod) = pConditions pod" for qs
    by (induction qs arbitrary: pod) (simp_all add: landPatch_def)
  then show "PodTerminal (landAll ps pod) = PodTerminal pod" "podResizeInfeasible (landAll ps pod) = podResizeInfeasible pod"
    by (simp_all add: landAll_def PodTerminal_def podResizeInfeasible_def)
qed

lemma landedAs_fields:
  assumes "landedAs ps pod pod'"
  shows "PodTerminal pod' = PodTerminal pod" "podResizeInfeasible pod' = podResizeInfeasible pod"
proof -
  obtain a where "pod' = (landAll ps pod)\<lparr>pAnnotations := a\<rparr>" using assms unfolding landedAs_def by blast
  then show "PodTerminal pod' = PodTerminal pod" "podResizeInfeasible pod' = podResizeInfeasible pod"
    using landAll_fields [of ps pod] by (simp_all add: PodTerminal_def podResizeInfeasible_def)
qed

lemma landedAs_live:
  assumes "list_all2 (landedAs ps) pods pods'"
  shows "list_all2 (landedAs ps) (live pods) (live pods')"
  using assms by (induction rule: list_all2_induct) (auto simp: landedAs_fields)

lemma landedAs_feasible:
  assumes "list_all2 (landedAs ps) pods pods'" "list_all (\<lambda>pod. \<not> podResizeInfeasible pod) pods"
  shows "list_all (\<lambda>pod. \<not> podResizeInfeasible pod) pods'"
  using assms by (induction rule: list_all2_induct) (auto simp: landedAs_fields)

lemma readsAlike_input:
  assumes "readsAlike pod pod'"
  shows "chosen env cfg nodeManaged pod' = chosen env cfg nodeManaged pod" "readable env cfg nodeManaged pod' = readable env cfg nodeManaged pod"
    "steadyInput env cfg nodeManaged pod' =
       (steadyInput env cfg nodeManaged pod)\<lparr>CurrentLimitMilli := PodCurrentLimitMilli (ResizableContainers pod')\<rparr>"
proof -
  note alike = assms [unfolded readsAlike_def]
  have g: "gated cfg nodeManaged pod' = gated cfg nodeManaged pod" using alike by (simp add: gated_def)
  show c: "chosen env cfg nodeManaged pod' = chosen env cfg nodeManaged pod" using alike by (simp add: chosen_def g)
  show "readable env cfg nodeManaged pod' = readable env cfg nodeManaged pod" using alike by (simp add: readable_def g c)
  show "steadyInput env cfg nodeManaged pod' =
       (steadyInput env cfg nodeManaged pod)\<lparr>CurrentLimitMilli := PodCurrentLimitMilli (ResizableContainers pod')\<rparr>"
    using alike by (simp add: steadyInput_def rangeCap_def buildPodInput_def podUserCapMilli_def c Let_def cong: sum.case_cong)
qed

text \<open>A pod whose containers have names of their own and requests that leave room for a quantum
  below \<open>2 ^ 24\<close> milli-cores.\<close>

definition podInBounds :: "int64 \<Rightarrow> Pod \<Rightarrow> bool" where
  "podInBounds q pod \<longleftrightarrow> namesApart pod \<and> \<not> podResizeInfeasible pod \<and> nonnegRequests pod
     \<and> totalRequest (ResizableContainers pod) + max q 1 \<le> 2 ^ 24"

lemma namesApart_resizable: "namesApart pod \<Longrightarrow> distinct (map rcName (ResizableContainers pod))"
  by (auto simp: namesApart_def ResizableContainers_def comp_def distinct_map_filter)

lemma chosen_target_splits:
  fixes env :: nodeEnv and inputs :: "PodInput list"
  assumes "podInBounds (QuantumMilli (rcPolicy cfg)) pod" "chosen env cfg nodeManaged pod" "a \<le> 2 ^ 24"
  defines "p \<equiv> steadyInput env cfg nodeManaged pod"
  shows "split_dom (TargetLimitMilli (decide p (statsOf a inputs) (rcPolicy cfg))) (ResizableContainers pod)"
proof -
  let ?q = "QuantumMilli (rcPolicy cfg)" and ?rcs = "ResizableContainers pod"
  let ?S = "totalRequest ?rcs" and ?t = "clampTarget p (statsOf a inputs) (rcPolicy cfg)"
  have b: "\<And>c. c \<in> set ?rcs \<Longrightarrow> 0 \<le> rcRequestMilli c" "?S + max ?q 1 \<le> 2 ^ 24" "distinct (map rcName ?rcs)"
    using assms(1) namesApart_resizable by (auto simp: podInBounds_def nonnegRequests_def)
  have S0: "0 \<le> ?S" using b(1) by (auto simp: totalRequest_def intro!: sum_list_nonneg)
  then have S: "0 \<le> ?S" "?S \<le> 2 ^ 24" "?q \<le> 2 ^ 24" using b(2) by (auto simp: max_def split: if_splits)
  then have req: "PodCPURequestMilli ?rcs = ?S" by (simp add: PodCPURequestMilli_eq wrap64_id in64_def)
  then have rp: "RequestMilli p = ?S" by (simp add: p_def steadyInput_def buildPodInput_def Let_def)
  have pos: "0 < ?S" using assms(2) req by (auto simp: chosen_def gated_def Eligible_def split: if_splits)
  have t: "?S \<le> ?t" "?t \<le> max ?S a" using clampTarget_bounds(1,2) [of p a "rcPolicy cfg" inputs] S assms(3) rp by auto
  have "?S \<le> liftTarget p ?t (rcPolicy cfg) \<and> liftTarget p ?t (rcPolicy cfg) \<le> max ?t (?S + max ?q 1)"
  proof (cases "AboveRequest p")
    case True
    then show ?thesis using liftTarget_above(1,2) [of p "rcPolicy cfg" ?t] S rp by auto
  next
    case False
    then show ?thesis using t(1) by (simp add: liftTarget_def)
  qed
  then show ?thesis using b pos t S(2) assms(3) unfolding decide_target split_dom_def list_all_iff by auto
qed

text \<open>After the landing every input is the one the policy decided on, at its target where the
  decision was applied.\<close>

lemma landed_input_settled:
  fixes env :: nodeEnv and nodeManaged :: bool
  assumes "distinct (map podKey pods)" "pod \<in> set pods" "podInBounds (QuantumMilli (rcPolicy cfg)) pod" "a \<le> 2 ^ 24"
  defines "s \<equiv> statsOf a (map (steadyInput env cfg nodeManaged) pods)" and "inp \<equiv> steadyInput env cfg nodeManaged"
  assumes "landedAs (concat (map (sent owner (keyed pods [])) (map (\<lambda>p. decide (inp p) s (rcPolicy cfg))
      (filter (chosen env cfg nodeManaged) pods)))) pod pod'"
  shows "readsAlike pod pod' \<and> settledInput s (rcPolicy cfg) (inp pod) (inp pod')"
proof -
  let ?d = "decide (inp pod) s (rcPolicy cfg)" and ?rcs = "ResizableContainers pod"
  let ?ps = "concat (map (sent owner (keyed pods [])) (map (\<lambda>p. decide (inp p) s (rcPolicy cfg)) (filter (chosen env cfg nodeManaged) pods)))"
  have key: "DKey (decide (inp p) s (rcPolicy cfg)) = podKey p" for p
    by (simp add: decide_eq inp_def steadyInput_def Let_def)
  have own: "mget (keyed pods []) (podKey pod) = Some pod" using mget_keyed [OF assms(1)] find_key [OF assms(1,2)] by simp
  have f: "filter (\<lambda>p. patchKey p = podKey pod) ?ps = (if chosen env cfg nodeManaged pod then sent owner (keyed pods []) ?d else [])"
    by (rule patches_of_pod [OF assms(1,2) key])
  have man: "Managed (inp pod) = chosen env cfg nodeManaged pod" "CurrentLimitMilli (inp pod) = PodCurrentLimitMilli ?rcs"
    by (simp_all add: inp_def steadyInput_def buildPodInput_def Let_def)
  have settled: ?thesis if "readsAlike pod pod'" "chosen env cfg nodeManaged pod \<Longrightarrow>
      PodCurrentLimitMilli (ResizableContainers pod') = (if Apply ?d then TargetLimitMilli ?d else PodCurrentLimitMilli ?rcs)"
    using that(1) that(2) readsAlike_input(3) [OF that(1), of env cfg nodeManaged] man
    by (auto simp: settledInput_def inp_def [symmetric])
  show ?thesis
  proof (cases "chosen env cfg nodeManaged pod \<and> Apply ?d")
    case False
    then have "filter (\<lambda>p. patchKey p = podKey pod) ?ps = []" unfolding f by (simp add: sent_def split: option.split)
    from landed_none [OF assms(7) this] False show ?thesis by (intro settled) auto
  next
    case True
    then have dom: "split_dom (TargetLimitMilli ?d) ?rcs"
      unfolding s_def inp_def using assms(3,4) by (intro chosen_target_splits) auto
    then obtain out where out: "splitLimit (TargetLimitMilli ?d) ?rcs = Some out" using sl.read_back by blast
    have "out \<noteq> []"
      using sl.split_total [OF dom] out split_domD(2,7) [OF dom] by auto
    then have "filter (\<lambda>p. patchKey p = podKey pod) ?ps = [resizeBody pod ?rcs out owner]"
      unfolding f using True own out by (simp add: sent_def key)
    from landed_one [OF assms(7) _ dom out this] True assms(3) show ?thesis by (intro settled) (auto simp: podInBounds_def)
  qed
qed

section \<open>Two reconciles\<close>

text \<open>A steady cluster with an enforcing configuration, a node and its pods.\<close>

definition steadyNode :: "nodeEnv \<Rightarrow> string \<Rightarrow> HeadroomConfig \<Rightarrow> Node \<Rightarrow> Pod list \<Rightarrow> bool" where
  "steadyNode env node hc nd pods \<longleftrightarrow> steady env \<and> envConfig env 0 = Inr hc \<and> specDryRun (hcSpec hc) = Some False
     \<and> envNode env 0 node = Inr nd \<and> envPodsOn env 0 node = Inr pods"

lemma limiterFor_backoff: "limiterFor env node pps r = (bucket, r') \<Longrightarrow> nrBackoff r' = nrBackoff r"
  by (auto simp: limiterFor_def Let_def split: option.splits if_splits)

lemma published_backoff [simp]: "nrBackoff (published node stats ds inputs byKey r) = nrBackoff r"
  by (simp add: published_def syncPodMetrics_def refreshPodsManagedLocked_def meter_def Let_def split: prod.split)

lemma nextExpiry_Nil [simp]: "nextExpiry [] keys now = 0"
  by (induction keys) (simp_all add: nextExpiry_def)

lemma verdict_zero: "verdict_of env byKey t out r = (requeue 0, r') \<Longrightarrow> out = (False, [])"
  by (cases out) (auto simp: verdict_of_def requeue_def failed_def Second_def split: if_splits)

lemma verdict_done: "nrBackoff r = [] \<Longrightarrow> verdict_of env byKey t (False, []) r = (requeue 0, r)"
  by (simp add: verdict_of_def backoffRequeue_def)

definition decisionsOf :: "nodeEnv \<Rightarrow> resolvedConfig \<Rightarrow> int64 \<Rightarrow> bool \<Rightarrow> Pod list \<Rightarrow> Decision list" where
  "decisionsOf env cfg a nodeManaged pods =
     map (\<lambda>p. decide (steadyInput env cfg nodeManaged p) (statsOf a (map (steadyInput env cfg nodeManaged) pods)) (rcPolicy cfg))
       (filter (chosen env cfg nodeManaged) pods)"

lemma Compute_steady:
  "Compute a (map (steadyInput env cfg nodeManaged) pods) (rcPolicy cfg)
     = (statsOf a (map (steadyInput env cfg nodeManaged) pods), decisionsOf env cfg a nodeManaged pods)"
proof -
  have "Managed (steadyInput env cfg nodeManaged p) = chosen env cfg nodeManaged p" for p
    by (simp add: steadyInput_def Let_def)
  then show ?thesis by (simp add: Compute_eq decisionsOf_def filter_map comp_def)
qed

text \<open>A reconcile that asks for no requeue has read all it needs and sent the patch of every decision.\<close>

lemma completed_run:
  fixes env :: nodeEnv and r :: NodeReconciler
  assumes node: "steadyNode env node hc nd pods" and feasible: "list_all (\<lambda>pod. \<not> podResizeInfeasible pod) pods"
    and free: "nrBackoff r = []" and keys: "distinct (map podKey pods)"
    and run: "Reconcile env node r = (Some (requeue 0), r1)"
  defines "cfg \<equiv> resolveConfig hc (debouncePeriod r)" and "a \<equiv> MilliValue (Cpu (nAllocatable nd))"
  shows "Synced (envVPAs env 0) \<and> list_all (readable env cfg (NodeManageable nd (rcSpec cfg))) (live pods) \<and> nrBackoff r1 = []
    \<and> (\<exists>owner. issued r1 = issued r @ concat (map (sent owner (keyed (live pods) []))
          (decisionsOf env cfg a (NodeManageable nd (rcSpec cfg)) (live pods))))"
proof -
  let ?m = "NodeManageable nd (rcSpec cfg)"
  have st: "steady env" and at: "envConfig env n = Inr hc" "envNode env n node = Inr nd" "envPodsOn env n node = Inr pods" for n
    using node steadyD(2-4) [of env n] by (simp_all add: steadyNode_def)
  have dry: "\<not> rcDryRun cfg" using node by (simp add: steadyNode_def cfg_def resolveConfig_def Let_def)
  have c: "configAt env r = Inr cfg" by (simp add: configAt_def loadConfig_def at cfg_def debouncePeriod_def)
  have sync: "Synced (envVPAs env (nrTick r))"
    using run by (auto simp: Reconcile_def requeue_def Second_def split: if_splits)
  from run have run: "reconcilePods env node cfg a ?m pods (readAt cfg 4 r) = (Some (requeue 0), r1)"
    using Reconcile_listed [OF sync c at(2,3)] by (simp add: a_def)
  have free4: "nrBackoff ((readAt cfg 4 r)\<lparr>nrTick := Suc (nrTick (readAt cfg 4 r))\<rparr>) = []"
    using free by (simp add: readAt_def setDebounce_def)
  have distinct: "distinct (map DKey (decisionsOf env cfg a ?m (live pods)))"
    using keys by (simp add: decisionsOf_def live_def comp_def decide_eq steadyInput_def Let_def distinct_map_filter)
  from run show ?thesis
  proof (cases rule: reconcilePods_split)
    case (refused e)
    then show ?thesis by (simp add: requeue_def failed_def)
  next
    case (applied inputs byKey rb stats ds bucket rl out rv)
    note B = buildInputs_steady [OF st free4 feasible applied(1)]
    then have reads: "list_all (readable env cfg ?m) (live pods)" by (auto split: if_splits)
    then have io: "inputs = map (steadyInput env cfg ?m) (live pods)" "byKey = keyed (live pods) []" "nrBackoff rb = []"
      using B by simp_all
    have ds: "ds = decisionsOf env cfg a ?m (live pods)" using applied(2) unfolding io(1) Compute_steady by simp
    have bl: "nrBackoff rl = []" "issued rl = issued r"
      using limiterFor_backoff [OF applied(3)] limiterFor_issued [OF applied(3)] io(3)
        issued_sameCore [OF sameCore_buildInputs [OF applied(1)]] by simp_all
    obtain x where x: "out = Some x" "verdict_of env byKey (envClock env (nrTick (readAt cfg 4 r))) x rv = (requeue 0, r1)"
      using applied(5) by (auto split: option.splits)
    have out: "out = Some (False, [])" using x verdict_zero by blast
    have "nrBackoff rv = [] \<and> issued rv = issued r @ concat (map (sent (fieldManager rl) byKey) ds)"
      using applyLoop_completed [OF st dry _ applied(4) [unfolded out]] distinct ds bl by simp
    moreover from this have "r1 = rv" using x out verdict_done [of rv] by simp
    ultimately show ?thesis using reads sync steadyD(1) [OF st, of "nrTick r"] unfolding io(2) ds by auto
  qed
qed

text \<open>A reconcile whose decisions apply nothing completes and sends nothing.\<close>

lemma quiet_run:
  fixes env :: nodeEnv and r :: NodeReconciler
  assumes node: "steadyNode env node hc nd pods" and feasible: "list_all (\<lambda>pod. \<not> podResizeInfeasible pod) pods"
    and free: "nrBackoff r = []" and sync: "Synced (envVPAs env 0)"
  defines "cfg \<equiv> resolveConfig hc (debouncePeriod r)" and "a \<equiv> MilliValue (Cpu (nAllocatable nd))"
  assumes reads: "list_all (readable env cfg (NodeManageable nd (rcSpec cfg))) (live pods)"
    and idle: "list_all (\<lambda>d. \<not> Apply d) (decisionsOf env cfg a (NodeManageable nd (rcSpec cfg)) (live pods))"
  shows "\<exists>r1. Reconcile env node r = (Some (requeue 0), r1) \<and> issued r1 = issued r"
proof -
  let ?m = "NodeManageable nd (rcSpec cfg)" and ?r = "readAt cfg 4 r"
  let ?inputs = "map (steadyInput env cfg (NodeManageable nd (rcSpec cfg))) (live pods)"
  have st: "steady env" and at: "envConfig env n = Inr hc" "envNode env n node = Inr nd" "envPodsOn env n node = Inr pods" for n
    using node steadyD(2-4) [of env n] by (simp_all add: steadyNode_def)
  have dry: "\<not> rcDryRun cfg" using node by (simp add: steadyNode_def cfg_def resolveConfig_def Let_def)
  have c: "configAt env r = Inr cfg" by (simp add: configAt_def loadConfig_def at cfg_def debouncePeriod_def)
  have sync': "Synced (envVPAs env (nrTick r))" using sync steadyD(1) [OF st] by metis
  have free4: "nrBackoff (?r\<lparr>nrTick := Suc (nrTick ?r)\<rparr>) = []" using free by (simp add: readAt_def setDebounce_def)
  obtain x rb where b: "buildInputs env cfg pods ?m (?r\<lparr>nrTick := Suc (nrTick ?r)\<rparr>) = (x, rb)" by fastforce
  have x: "x = Inr (?inputs, keyed (live pods) [])" "nrBackoff rb = []" using buildInputs_steady [OF st free4 feasible b] reads by simp_all
  let ?p = "published node (statsOf a ?inputs) (decisionsOf env cfg a ?m (live pods)) ?inputs (keyed (live pods) []) rb"
  obtain bucket rl where l: "limiterFor env node (rcPerNodePPS cfg) ?p = (bucket, rl)" by fastforce
  have rl: "nrBackoff rl = []" "issued rl = issued r"
    using limiterFor_backoff [OF l] limiterFor_issued [OF l] x(2) issued_sameCore [OF sameCore_buildInputs [OF b]] by simp_all
  obtain rv where v: "applyLoop env node cfg (statsOf a ?inputs) (int (length ?inputs)) (decisionsOf env cfg a ?m (live pods))
      (keyed (live pods) []) bucket False [] rl = (Some (False, []), rv)" "issued rv = issued rl" "nrBackoff rv = nrBackoff rl"
    using applyLoop_idle [OF st dry idle] by blast
  have "reconcilePods env node cfg a ?m pods ?r = (Some (requeue 0), rv)"
    using reconcilePods_applied [OF b [unfolded x(1)] Compute_steady l v(1) verdict_done] v(3) rl(1) by simp
  then show ?thesis using Reconcile_listed [OF sync' c at(2,3)] v(2) rl(2) by (simp add: a_def)
qed

lemma steady_listing: "steady env \<Longrightarrow> steady (env\<lparr>envPodsOn := (\<lambda>n name. x)\<rparr>)"
  unfolding steady_def by simp

text \<open>Neither the debounce nor the listing enters the inputs of given pods.\<close>

lemma inputs_frame:
  fixes env :: nodeEnv and hc :: HeadroomConfig and listing :: "nat \<Rightarrow> string \<Rightarrow> apiError + Pod list"
  defines "env' \<equiv> env\<lparr>envPodsOn := listing\<rparr>"
  shows "readable env' (resolveConfig hc d') m = readable env (resolveConfig hc d) m"
    "decisionsOf env' (resolveConfig hc d') a m = decisionsOf env (resolveConfig hc d) a m"
    "rcSpec (resolveConfig hc d') = rcSpec (resolveConfig hc d)"
    "QuantumMilli (rcPolicy (resolveConfig hc d)) = MilliValue (specQuantum (hcSpec hc))"
proof -
  show spec: "rcSpec (resolveConfig hc d') = rcSpec (resolveConfig hc d)"
    "QuantumMilli (rcPolicy (resolveConfig hc d)) = MilliValue (specQuantum (hcSpec hc))" by (simp_all add: resolveConfig_def Let_def)
  have pol: "rcPolicy (resolveConfig hc d') = rcPolicy (resolveConfig hc d)" by (simp add: resolveConfig_def Let_def)
  have g: "gated (resolveConfig hc d') m = gated (resolveConfig hc d) m" by (simp add: gated_def [abs_def] spec)
  have c: "chosen env' (resolveConfig hc d') m = chosen env (resolveConfig hc d) m"
    unfolding chosen_def [abs_def] g nsVerdict_def spec(1) env'_def by simp
  show "readable env' (resolveConfig hc d') m = readable env (resolveConfig hc d) m"
    unfolding readable_def [abs_def] g c by (simp add: nsReadable_def env'_def)
  have range: "rangeCap env' = rangeCap env" by (simp add: rangeCap_def [abs_def] env'_def)
  have "steadyInput env' (resolveConfig hc d') m = steadyInput env (resolveConfig hc d) m"
    unfolding steadyInput_def [abs_def] c range by (simp add: env'_def)
  then show "decisionsOf env' (resolveConfig hc d') a m = decisionsOf env (resolveConfig hc d) a m"
    by (simp add: decisionsOf_def [abs_def] c pol)
qed

text \<open>Once the patches of all decisions have landed, every pod is readable as before and no decision is applied.\<close>

lemma landed_decisions_idle:
  fixes env :: nodeEnv
  assumes "distinct (map podKey pods)" "list_all (podInBounds (QuantumMilli (rcPolicy cfg))) pods" "a \<le> 2 ^ 24"
    "list_all2 (landedAs (concat (map (sent owner (keyed pods [])) (decisionsOf env cfg a m pods)))) pods pods'"
    "list_all (readable env cfg m) pods"
  shows "list_all (readable env cfg m) pods' \<and> list_all (\<lambda>d. \<not> Apply d) (decisionsOf env cfg a m pods')"
proof -
  let ?inp = "steadyInput env cfg m"
  have one: "readsAlike pod pod' \<and> settledInput (statsOf a (map ?inp pods)) (rcPolicy cfg) (?inp pod) (?inp pod')"
    if "pod \<in> set pods" "landedAs (concat (map (sent owner (keyed pods [])) (decisionsOf env cfg a m pods))) pod pod'" for pod pod'
  proof -
    have "podInBounds (QuantumMilli (rcPolicy cfg)) pod" using assms(2) that(1) by (simp add: list_all_iff)
    from landed_input_settled [OF assms(1) that(1) this assms(3) that(2) [unfolded decisionsOf_def]] show ?thesis .
  qed
  have both: "list_all2 (\<lambda>pod pod'. readsAlike pod pod' \<and> settledInput (statsOf a (map ?inp pods)) (rcPolicy cfg) (?inp pod) (?inp pod')) pods pods'"
    by (rule list.rel_mono_strong [OF assms(4)]) (rule one)
  have "readable env cfg m pod'" if mem: "pod' \<in> set pods'" for pod'
  proof -
    obtain i where "i < length pods'" "pod' = pods' ! i" using mem by (metis in_set_conv_nth)
    then have "readsAlike (pods ! i) pod'" "pods ! i \<in> set pods"
      using list_all2_nthD2 [OF both] list_all2_lengthD [OF both] by auto
    then show ?thesis using readsAlike_input(2) assms(5) by (auto simp: list_all_iff)
  qed
  moreover have "list_all2 (settledInput (statsOf a (map ?inp pods)) (rcPolicy cfg)) (map ?inp pods) (map ?inp pods')"
    unfolding list.rel_map using both by (rule list_all2_mono) simp
  then have "list_all (\<lambda>d. \<not> Apply d) (decisionsOf env cfg a m pods')" using settled_inputs_quiet Compute_steady by (metis snd_conv)
  ultimately show ?thesis by (simp add: list_all_iff)
qed

text \<open>C4. Reconciling converges. In a cluster that stays as it is, let a reconcile of an
  enforcing configuration end without asking to be called again, and let the resizes it issued
  land on the pods. Then the next reconcile of the node, on the new listing, completes and
  issues no resize: the limits read back as the targets, nothing else the policy reads has
  moved, and changes inside the deadband stay left alone.\<close>

theorem landed_resizes_settle:
  assumes "steadyNode env node hc nd pods" "distinct (map podKey pods)"
    and "list_all (podInBounds (MilliValue (specQuantum (hcSpec hc)))) pods" "MilliValue (Cpu (nAllocatable nd)) \<le> 2 ^ 24"
    and "nrBackoff r = []" "Reconcile env node r = (Some (requeue 0), r1)" "issued r1 = issued r @ ps"
    and "list_all2 (landedAs ps) pods pods'"
  shows "\<exists>r2. Reconcile (env\<lparr>envPodsOn := (\<lambda>n name. Inr pods')\<rparr>) node r1 = (Some (requeue 0), r2) \<and> issued r2 = issued r1"
proof -
  let ?env = "env\<lparr>envPodsOn := (\<lambda>n name. Inr pods')\<rparr>"
  let ?cfg = "resolveConfig hc (debouncePeriod r)" and ?a = "MilliValue (Cpu (nAllocatable nd))"
  let ?m = "NodeManageable nd (rcSpec ?cfg)"
  have feasible: "list_all (\<lambda>pod. \<not> podResizeInfeasible pod) pods" using assms(3) by (auto simp: list_all_iff podInBounds_def)
  have live: "distinct (map podKey (live pods))" "list_all (podInBounds (QuantumMilli (rcPolicy ?cfg))) (live pods)"
    using assms(2,3) by (auto simp: live_def distinct_map_filter list_all_iff inputs_frame(4))
  obtain owner where first: "Synced (envVPAs env 0)" "list_all (readable env ?cfg ?m) (live pods)" "nrBackoff r1 = []"
      "ps = concat (map (sent owner (keyed (live pods) [])) (decisionsOf env ?cfg ?a ?m (live pods)))"
    using completed_run [OF assms(1) feasible assms(5,2,6)] assms(7) by auto
  have quiet: "list_all (readable env ?cfg ?m) (live pods')" "list_all (\<lambda>d. \<not> Apply d) (decisionsOf env ?cfg ?a ?m (live pods'))"
    using landed_decisions_idle [OF live assms(4) landedAs_live [OF assms(8), unfolded first(4)] first(2)] by simp_all
  have "steadyNode ?env node hc nd pods'" using assms(1) by (simp add: steadyNode_def steady_listing)
  from quiet_run [OF this landedAs_feasible [OF assms(8) feasible] first(3)] first(1) quiet show ?thesis
    by (simp add: inputs_frame(1-3) [where d = "debouncePeriod r" and d' = "debouncePeriod r1"])
qed

lemma sample_steady: "steadyNode sampleEnv ''node1'' sampleConfig sampleNode [samplePod]"
proof -
  have self: "\<exists>a. q = q\<lparr>pAnnotations := a\<rparr>" for q :: Pod by (rule exI [of _ "pAnnotations q"]) simp
  show ?thesis by (simp add: steadyNode_def steady_def sampleEnv_def sampleConfig_def sampleSpec_def self)
qed

lemma sample_in_bounds: "podInBounds 10 samplePod"
proof -
  have "namesApart samplePod" by (simp add: namesApart_def sample_pod_defs)
  moreover have "\<not> podResizeInfeasible samplePod" by (rule samplePod_gates)
  ultimately show ?thesis
    by (auto simp: podInBounds_def nonnegRequests_def nodeRcs_eval nodeRcs_def totalRequest_def)
qed

theorem landed_resizes_settle_witness:
  "\<exists>r1 r2. Reconcile sampleEnv ''node1'' newNodeReconciler = (Some (requeue 0), r1) \<and> issued r1 = [samplePatch]
    \<and> Reconcile (sampleEnv\<lparr>envPodsOn := (\<lambda>n name. Inr [landPatch samplePatch samplePod])\<rparr>) ''node1'' r1 = (Some (requeue 0), r2)
    \<and> issued r2 = [samplePatch]"
proof -
  have "freshFor newNodeReconciler" and free: "nrBackoff newNodeReconciler = []" and none: "issued newNodeReconciler = []"
    by (simp_all add: freshFor_def newNodeReconciler_def issued_def)
  then obtain r1 where r1: "Reconcile sampleEnv ''node1'' newNodeReconciler = (Some (requeue 0), r1)" "issued r1 = [samplePatch]"
    using sample_run by fastforce
  have key: "podKey samplePod = patchKey samplePatch" by (simp add: samplePod_facts patchKey_def samplePatch_def)
  have landed: "list_all2 (landedAs [samplePatch]) [samplePod] [landPatch samplePatch samplePod]"
    by (simp add: landedAs_def landAll_def key landPatch_def)
  have q: "MilliValue (specQuantum (hcSpec sampleConfig)) = 10" by (simp add: sampleConfig_def sampleSpec_def)
  have a: "MilliValue (Cpu (nAllocatable sampleNode)) \<le> 2 ^ 24"
    by (simp add: sampleNode_def cpuList_def Cpu_def resourceNamed_def entries_def)
  have "list_all (podInBounds (MilliValue (specQuantum (hcSpec sampleConfig)))) [samplePod]" using sample_in_bounds by (simp add: q)
  from landed_resizes_settle [OF sample_steady _ this a free r1(1) _ landed] r1 none show ?thesis by auto
qed

end
