(* ===== verification/NodeAccounting.thy ===== *)
theory NodeAccounting
  imports NodeSample
begin

text \<open>
  The accounting of managed pods as an invariant of every reachable state: the per-node
  series, the cluster-wide gauge and the counts the status reports are three views of one
  map, and no pod's gauge outlives the entry it is tracked under.
\<close>

section \<open>The invariant\<close>

definition refKey :: "podSeriesRef \<Rightarrow> string" where
  "refKey s = srNamespace s @ ''/'' @ srName s"

definition seriesWf :: "(string, podSeriesRef) gomap \<Rightarrow> bool" where
  "seriesWf s \<longleftrightarrow> (\<forall>key ref. mget s key = Some ref \<longrightarrow> key = refKey ref \<and> CHR ''/'' \<notin> set (srNamespace ref))"

text \<open>Some node's series holds the pod of this namespace and name.\<close>

definition tracked :: "(string, (string, podSeriesRef) gomap) gomap \<Rightarrow> string \<times> string \<Rightarrow> bool" where
  "tracked series k \<longleftrightarrow> (\<exists>node s key ref. mget series node = Some s \<and> mget s key = Some ref
     \<and> (srNamespace ref, srName ref) = k)"

definition acctOk :: "NodeReconciler \<Rightarrow> bool" where
  "acctOk r \<longleftrightarrow> gomap_ok (nrPodSeries r)
     \<and> (\<forall>node s. mget (nrPodSeries r) node = Some s \<longrightarrow> s \<noteq> [] \<and> seriesWf s)
     \<and> (\<forall>k. mget (podLimitCores (nrMetrics r)) k \<noteq> None \<longrightarrow> tracked (nrPodSeries r) k)
     \<and> podsManaged (nrMetrics r) = float_of_int (fst (ManagedCounts r))"

lemma refKey_inj:
  assumes "refKey a = refKey b" "CHR ''/'' \<notin> set (srNamespace a)" "CHR ''/'' \<notin> set (srNamespace b)"
  shows "a = b"
proof -
  have "takeWhile (\<lambda>c. c \<noteq> CHR ''/'') (refKey s) = srNamespace s" if "CHR ''/'' \<notin> set (srNamespace s)" for s :: podSeriesRef
    using that by (auto simp: refKey_def takeWhile_append)
  then have "srNamespace a = srNamespace b" using assms by metis
  then show ?thesis using assms(1) by (simp add: refKey_def)
qed

lemma acctOk_books: "books r' = books r \<Longrightarrow> acctOk r' = acctOk r"
  by (simp add: books_def acctOk_def ManagedCounts_def)

section \<open>Counting\<close>

lemma counts_foldl:
  "foldl (\<lambda>(pods, nodes) s. if snd s = [] then (pods, nodes) else (pods + int (length (snd s)), nodes + 1)) (p, n) series
   = (p + (\<Sum>s\<leftarrow>series. int (length (snd s))), n + int (length (filter (\<lambda>s. snd s \<noteq> []) series)))"
  by (induction series arbitrary: p n) auto

lemma ManagedCounts_sums:
  "ManagedCounts r = (\<Sum>s\<leftarrow>nrPodSeries r. int (length (snd s)), int (length (filter (\<lambda>s. snd s \<noteq> []) (nrPodSeries r))))"
  by (simp add: ManagedCounts_def counts_foldl)

lemma total_foldl: "foldl (\<lambda>n s. n + int (length (snd s))) t series = t + (\<Sum>s\<leftarrow>series. int (length (snd s)))"
  by (induction series arbitrary: t) auto

lemma refresh_simps [simp]:
  "nrPodSeries (refreshPodsManagedLocked r) = nrPodSeries r"
  "podLimitCores (nrMetrics (refreshPodsManagedLocked r)) = podLimitCores (nrMetrics r)"
  "podsManaged (nrMetrics (refreshPodsManagedLocked r)) = float_of_int (fst (ManagedCounts r))"
  by (simp_all add: refreshPodsManagedLocked_def meter_def total_foldl ManagedCounts_sums Let_def)

lemma managed_nodes:
  assumes "acctOk r"
  shows "snd (ManagedCounts r) = int (length (nrPodSeries r))"
proof -
  have "snd x \<noteq> []" if x: "x \<in> set (nrPodSeries r)" for x
  proof -
    have "mget (nrPodSeries r) (fst x) = Some (snd x)" using assms x by (simp add: acctOk_def gomap_ok_def)
    then show ?thesis using assms by (simp add: acctOk_def)
  qed
  then have "filter (\<lambda>s. snd s \<noteq> []) (nrPodSeries r) = nrPodSeries r" by (intro filter_True) blast
  then show ?thesis by (simp add: ManagedCounts_sums)
qed

section \<open>Publishing\<close>

lemma mget_fold_mdel: "mget (fold (\<lambda>s. mdel (srNamespace s, srName s)) refs m) k =
   (if k \<in> (\<lambda>s. (srNamespace s, srName s)) ` set refs then None else mget m k)"
  by (induction refs arbitrary: m) (auto simp: gomap_simps)

text \<open>What the gauges may hold after publishing: what they held before, and the new series.\<close>

definition publishedFrom :: "Metrics \<Rightarrow> Metrics \<times> (string, podSeriesRef) gomap \<Rightarrow> bool" where
  "publishedFrom m st \<longleftrightarrow> seriesWf (snd st) \<and> podsManaged (fst st) = podsManaged m
    \<and> (\<forall>k. mget (podLimitCores (fst st)) k \<noteq> None \<longrightarrow> mget (podLimitCores m) k \<noteq> None
         \<or> (\<exists>key ref. mget (snd st) key = Some ref \<and> (srNamespace ref, srName ref) = k))"

lemma publishedFrom_add:
  assumes st: "publishedFrom m (m1, cur)" and ns: "CHR ''/'' \<notin> set (srNamespace s)"
  shows "publishedFrom m (m1\<lparr>podLimitCores := mput (srNamespace s, srName s) v (podLimitCores m1)\<rparr>, mput (refKey s) s cur)"
proof -
  have w1: "seriesWf cur" using st by (simp add: publishedFrom_def)
  then have "seriesWf (mput (refKey s) s cur)" using ns by (auto simp: seriesWf_def gomap_simps)
  moreover have "mget (podLimitCores m) k \<noteq> None \<or>
      (\<exists>key ref. mget (mput (refKey s) s cur) key = Some ref \<and> (srNamespace ref, srName ref) = k)"
    if k: "mget (mput (srNamespace s, srName s) v (podLimitCores m1)) k \<noteq> None" for k
  proof (cases "k = (srNamespace s, srName s)")
    case True
    then show ?thesis by (auto simp: gomap_simps)
  next
    case False
    then have "mget (podLimitCores m1) k \<noteq> None" using k by (simp add: gomap_simps)
    then have "mget (podLimitCores m) k \<noteq> None \<or> (\<exists>key ref. mget cur key = Some ref \<and> (srNamespace ref, srName ref) = k)"
      using st unfolding publishedFrom_def fst_conv snd_conv by blast
    moreover have "key \<noteq> refKey s" if "mget cur key = Some ref" "(srNamespace ref, srName ref) = k" for key ref
      using False that w1 ns refKey_inj by (metis seriesWf_def)
    ultimately show ?thesis by (metis gm.lookup_put)
  qed
  ultimately show ?thesis using st by (simp add: publishedFrom_def)
qed

lemma publishPods_spec:
  assumes "\<And>key pod. mget byKey key = Some pod \<Longrightarrow> podKey pod = key \<and> CHR ''/'' \<notin> set (pNamespace pod)"
  shows "publishedFrom m (publishPods ds byKey m)"
  unfolding publishPods_def
proof (rule fold_invariant [where Q = "\<lambda>_. True"])
  show "publishedFrom m (m, [])" by (simp add: publishedFrom_def seriesWf_def)
  fix d :: Decision and st assume st: "publishedFrom m st"
  obtain m1 cur where x: "st = (m1, cur)" by fastforce
  show "publishedFrom m (case st of (m, current) \<Rightarrow> (case mget byKey (DKey d) of None \<Rightarrow> (m, current)
      | Some pod \<Rightarrow> (m\<lparr>podLimitCores := mput (pNamespace pod, pName pod) (fdiv (float_of_int (TargetLimitMilli d)) (F 1000))
            (podLimitCores m)\<rparr>, mput (DKey d) \<lparr>srNamespace = pNamespace pod, srName = pName pod\<rparr> current)))"
  proof (cases "mget byKey (DKey d)")
    case None
    then show ?thesis using st x by simp
  next
    case (Some pod)
    let ?s = "\<lparr>srNamespace = pNamespace pod, srName = pName pod\<rparr>"
    have "DKey d = refKey ?s" "CHR ''/'' \<notin> set (srNamespace ?s)" using assms [OF Some] by (simp_all add: refKey_def podKey_def)
    then show ?thesis using publishedFrom_add [OF st [unfolded x], of ?s] Some x by simp
  qed
qed simp
text \<open>One method keeps the accounting when it replaces the series of one node by a well-formed
  one and deletes the gauges of the series it drops.\<close>

lemma acctOk_replace:
  assumes ok: "gomap_ok (nrPodSeries r)" "\<forall>n s. mget (nrPodSeries r) n = Some s \<longrightarrow> s \<noteq> [] \<and> seriesWf s"
    and series: "nrPodSeries r' = (if current = [] then mdel node (nrPodSeries r) else mput node current (nrPodSeries r))"
    and wf: "seriesWf current"
    and gauge: "\<And>k. mget (podLimitCores (nrMetrics r')) k \<noteq> None \<Longrightarrow>
        (tracked (nrPodSeries r) k \<or> (\<exists>key ref. mget current key = Some ref \<and> (srNamespace ref, srName ref) = k))
        \<and> \<not> (\<exists>key ref. mget (seriesOf r node) key = Some ref \<and> mget current key = None \<and> (srNamespace ref, srName ref) = k)"
    and count: "podsManaged (nrMetrics r') = float_of_int (fst (ManagedCounts r'))"
  shows "acctOk r'"
proof -
  have get: "mget (nrPodSeries r') n = (if n = node then (if current = [] then None else Some current) else mget (nrPodSeries r) n)"
    for n using series by (auto simp: gomap_simps)
  have "tracked (nrPodSeries r') k" if k: "mget (podLimitCores (nrMetrics r')) k \<noteq> None" for k
  proof -
    have new: ?thesis if "mget current key = Some ref" "(srNamespace ref, srName ref) = k" for key ref
    proof -
      have "mget (nrPodSeries r') node = Some current" using that get by auto
      then show ?thesis using that unfolding tracked_def by blast
    qed
    show ?thesis
    proof (cases "\<exists>key ref. mget current key = Some ref \<and> (srNamespace ref, srName ref) = k")
      case True
      then show ?thesis using new by blast
    next
      case False
      then obtain n s key ref where t: "mget (nrPodSeries r) n = Some s" "mget s key = Some ref" "(srNamespace ref, srName ref) = k"
        using gauge [OF k] unfolding tracked_def by blast
      show ?thesis
      proof (cases "n = node")
        case True
        then have "mget (seriesOf r node) key = Some ref" using t by (simp add: seriesOf_def)
        then obtain ref' where ref': "mget current key = Some ref'" using gauge [OF k] t(3) by fastforce
        have "ref' = ref" using wf ref' ok(2) t True refKey_inj unfolding seriesWf_def by metis
        then show ?thesis using new ref' t(3) by blast
      next
        case False
        then have "mget (nrPodSeries r') n = Some s" using t get by simp
        then show ?thesis using t unfolding tracked_def by blast
      qed
    qed
  qed
  moreover have "gomap_ok (nrPodSeries r')" using ok(1) series by (simp add: gm.ok_put gm.ok_del)
  moreover have "s \<noteq> [] \<and> seriesWf s" if "mget (nrPodSeries r') n = Some s" for n s
    using that get ok(2) wf by (auto split: if_splits)
  ultimately show ?thesis using count unfolding acctOk_def by blast
qed

lemma mget_in_refs:
  "mget s key = Some ref \<Longrightarrow> (srNamespace ref, srName ref) \<in> (\<lambda>s. (srNamespace s, srName s)) ` set (map snd s)"
  by (force dest: map_of_SomeD)

lemma acctOk_forgetNode:
  assumes "acctOk r"
  shows "acctOk (forgetNode node r)"
proof (rule acctOk_replace [where r = r and node = node and current = "[]"])
  show "gomap_ok (nrPodSeries r)" "\<forall>n s. mget (nrPodSeries r) n = Some s \<longrightarrow> s \<noteq> [] \<and> seriesWf s"
    using assms by (simp_all add: acctOk_def)
  show "nrPodSeries (forgetNode node r) =
      (if [] = [] then mdel node (nrPodSeries r) else mput node [] (nrPodSeries r))"
    by (simp add: forgetNode_def refreshPodsManagedLocked_def meter_def Let_def)
  show "podsManaged (nrMetrics (forgetNode node r)) = float_of_int (fst (ManagedCounts (forgetNode node r)))"
    by (simp add: forgetNode_def refreshPodsManagedLocked_def meter_def Let_def ManagedCounts_sums total_foldl)
  fix k assume "mget (podLimitCores (nrMetrics (forgetNode node r))) k \<noteq> None"
  then have "mget (podLimitCores (nrMetrics r)) k \<noteq> None"
    "k \<notin> (\<lambda>s. (srNamespace s, srName s)) ` set (map snd (seriesOf r node))"
    by (auto simp: forgetNode_def refreshPodsManagedLocked_def meter_def deletePodSeries_def seriesOf_def mget_fold_mdel Let_def
        split: if_splits)
  moreover from this have "tracked (nrPodSeries r) k" using assms unfolding acctOk_def by blast
  ultimately show "(tracked (nrPodSeries r) k \<or> (\<exists>key ref. mget [] key = Some ref \<and> (srNamespace ref, srName ref) = k))
      \<and> \<not> (\<exists>key ref. mget (seriesOf r node) key = Some ref \<and> mget [] key = None \<and> (srNamespace ref, srName ref) = k)"
    using mget_in_refs [of "seriesOf r node"] by blast
qed (simp add: seriesWf_def)

lemma acctOk_sync:
  assumes ok: "acctOk r" and pub: "publishedFrom (nrMetrics r) (m, current)"
  shows "acctOk (syncPodMetrics node current (r\<lparr>nrMetrics := m\<rparr>))"
proof (rule acctOk_replace [where r = r and node = node and current = current])
  let ?r' = "syncPodMetrics node current (r\<lparr>nrMetrics := m\<rparr>)"
  let ?gone = "map snd (filter (\<lambda>(key, s). mget current key = None) (seriesOf r node))"
  show "gomap_ok (nrPodSeries r)" "\<forall>n s. mget (nrPodSeries r) n = Some s \<longrightarrow> s \<noteq> [] \<and> seriesWf s"
    using ok by (simp_all add: acctOk_def)
  show "seriesWf current" using pub by (simp add: publishedFrom_def)
  show "nrPodSeries ?r' = (if current = [] then mdel node (nrPodSeries r) else mput node current (nrPodSeries r))"
    by (simp add: syncPodMetrics_def meter_def Let_def)
  show "podsManaged (nrMetrics ?r') = float_of_int (fst (ManagedCounts ?r'))"
    by (simp add: syncPodMetrics_def meter_def Let_def ManagedCounts_def)
  fix k assume k: "mget (podLimitCores (nrMetrics ?r')) k \<noteq> None"
  have "podLimitCores (nrMetrics ?r') = fold (\<lambda>s. mdel (srNamespace s, srName s)) ?gone (podLimitCores m)"
    by (simp add: syncPodMetrics_def meter_def deletePodSeries_def seriesOf_def Let_def)
  then have k': "mget (podLimitCores m) k \<noteq> None" "k \<notin> (\<lambda>s. (srNamespace s, srName s)) ` set ?gone"
    using k by (auto simp only: mget_fold_mdel split: if_splits)
  have "tracked (nrPodSeries r) k \<or> (\<exists>key ref. mget current key = Some ref \<and> (srNamespace ref, srName ref) = k)"
    using k'(1) pub ok unfolding publishedFrom_def acctOk_def fst_conv snd_conv by blast
  moreover have "k \<in> (\<lambda>s. (srNamespace s, srName s)) ` set ?gone"
    if "mget (seriesOf r node) key = Some ref" "mget current key = None" "(srNamespace ref, srName ref) = k" for key ref
  proof -
    have "(key, ref) \<in> set (filter (\<lambda>(key, s). mget current key = None) (seriesOf r node))"
      using that map_of_SomeD [OF that(1)] by simp
    then have "ref \<in> set ?gone" by force
    then show ?thesis using that(3) by blast
  qed
  ultimately show "(tracked (nrPodSeries r) k \<or> (\<exists>key ref. mget current key = Some ref \<and> (srNamespace ref, srName ref) = k))
      \<and> \<not> (\<exists>key ref. mget (seriesOf r node) key = Some ref \<and> mget current key = None \<and> (srNamespace ref, srName ref) = k)"
    using k'(2) by blast
qed

section \<open>Reachable states\<close>

text \<open>Names the API server admits: no slash in a namespace.\<close>

definition validNames :: "nodeEnv \<Rightarrow> bool" where
  "validNames env \<longleftrightarrow> (\<forall>n node pods pod. envPodsOn env n node = Inr pods \<longrightarrow> pod \<in> set pods \<longrightarrow> CHR ''/'' \<notin> set (pNamespace pod))"

lemma publishNode_gauges [simp]:
  "podLimitCores (publishNode node stats ds inputs byKey m) = podLimitCores m"
  "podsManaged (publishNode node stats ds inputs byKey m) = podsManaged m"
  by (simp_all add: publishNode_def)

lemma acctOk_published:
  assumes "acctOk r" "\<And>key pod. mget byKey key = Some pod \<Longrightarrow> podKey pod = key \<and> CHR ''/'' \<notin> set (pNamespace pod)"
  shows "acctOk (published node stats ds inputs byKey r)"
proof -
  let ?m = "publishNode node stats ds inputs byKey (nrMetrics r)"
  obtain m current where p: "publishPods ds byKey ?m = (m, current)" by fastforce
  have "publishedFrom ?m (m, current)" using publishPods_spec [of byKey ?m ds] assms(2) p by simp
  then have "publishedFrom (nrMetrics r) (m, current)" by (simp add: publishedFrom_def)
  then show ?thesis using acctOk_sync [OF assms(1)] p by (simp add: published_def)
qed

lemma acctOk_reconcilePods:
  assumes "reconcilePods env node cfg alloc nodeManaged pods r = (res, r')" "patchKeepsName env" "acctOk r"
    "\<forall>pod \<in> set pods. CHR ''/'' \<notin> set (pNamespace pod)"
  shows "acctOk r'"
  using assms(1)
proof (cases rule: reconcilePods_split)
  case (refused e)
  have "books r' = books r" using sameCore_books [OF sameCore_buildInputs [OF refused(1)]] by (simp add: books_def)
  then show ?thesis using acctOk_books assms(3) by blast
next
  case (applied inputs byKey r1 stats ds bucket r2 out r3)
  note spec = buildInputs_spec(2) [OF applied(1)]
  have "books r1 = books r" using sameCore_books [OF sameCore_buildInputs [OF applied(1)]] by (simp add: books_def)
  then have "acctOk r1" using acctOk_books assms(3) by blast
  then have p: "acctOk (published node stats ds inputs byKey r1)"
    using spec assms(4) by (intro acctOk_published) blast+
  have "books r2 = books (published node stats ds inputs byKey r1)"
    using applied(3) by (auto simp: limiterFor_def books_def Let_def split: option.splits if_splits)
  moreover have "keysOk byKey" using spec by (simp add: keysOk_def)
  then have "books r3 = books r2" using applyLoop_spec [OF applied(4) assms(2)] by (auto simp: drawn_def)
  moreover have "sameCore r3 r'" using applied(5) by (auto split: option.splits dest: sameCore_verdict)
  then have "books r' = books r3" by (rule sameCore_books)
  ultimately show ?thesis using acctOk_books [of r'] p by simp
qed

lemma acctOk_Reconcile:
  assumes "Reconcile env node r = (res, r')" "patchKeepsName env" "validNames env" "acctOk r"
  shows "acctOk r'"
proof -
  have b: "acctOk (readAt cfg n r)" for cfg n
    using acctOk_books [of "readAt cfg n r" r] assms(4) by (simp add: books_def readAt_def setDebounce_def)
  show ?thesis using assms(1)
  proof (cases rule: Reconcile_split)
    case (quiet res1)
    then show ?thesis using acctOk_books [OF sameCore_books] assms(4) by blast
  next
    case (listed cfg nd pods)
    then show ?thesis using assms(3) by (intro acctOk_reconcilePods [OF listed(4) assms(2) b]) (auto simp: validNames_def)
  qed (use b acctOk_forgetNode in auto)
qed

lemma sameCore_addAfter: "sameCore r r' \<Longrightarrow> sameCore r (addAfter env node r')"
  by (simp add: addAfter_def enqueueDelay_def rand_def Let_def sameCore_emit sameCore_tick)

lemma sameCore_fold:
  "(\<And>x r r'. sameCore r r' \<Longrightarrow> sameCore r (f x r')) \<Longrightarrow> sameCore r r' \<Longrightarrow> sameCore r (fold f xs r')"
  by (induction xs arbitrary: r') auto

lemma sameCore_handleWatch: "sameCore r (handleWatch env ev r)"
proof -
  have n: "sameCore r (nodesEventHandler env names r)" for names
    unfolding nodesEventHandler_def by (rule sameCore_fold) (simp_all add: sameCore_addAfter)
  have q: "sameCore r (fold (\<lambda>name. emit (Enqueued name 0)) names r)" for names
    by (rule sameCore_fold) (simp_all add: sameCore_emit)
  have p: "sameCore r (podEventHandler env pe r)" for pe
    by (cases pe) (simp_all add: podEventHandler_def enqueueNode_def sameCore_addAfter Let_def)
  show ?thesis
    by (cases ev) (simp_all add: handleWatch_def n p q split: podEvent.splits)
qed

text \<open>The steps of the running controller: a reconcile of some node, or a watch event. Each may
  see a different world.\<close>

inductive nodeStep :: "NodeReconciler \<Rightarrow> NodeReconciler \<Rightarrow> bool" where
  reconcile: "patchKeepsName env \<Longrightarrow> validNames env \<Longrightarrow> Reconcile env node r = (res, r') \<Longrightarrow> nodeStep r r'"
| watch: "nodeStep r (handleWatch env ev r)"

inductive reachable :: "NodeReconciler \<Rightarrow> bool" where
  start: "reachable newNodeReconciler"
| step: "reachable r \<Longrightarrow> nodeStep r r' \<Longrightarrow> reachable r'"

inductive_cases nodeStepE: "nodeStep r r'"

lemma reachable_acctOk: "reachable r \<Longrightarrow> acctOk r"
proof (induction rule: reachable.induct)
  case start
  show ?case by (simp add: acctOk_def newNodeReconciler_def initMetrics_def ManagedCounts_def gm.ok_empty float_of_int_exact)
next
  case (step r r')
  from step(2) show ?case
  proof cases
    case (reconcile env node res)
    then show ?thesis using acctOk_Reconcile step.IH by blast
  next
    case (watch env ev)
    then show ?thesis using acctOk_books [OF sameCore_books [OF sameCore_handleWatch]] step.IH by blast
  qed
qed

text \<open>C8. In every state the controller can reach, whatever the API server answered on the
  way, the \<open>pods_managed\<close> gauge is the number of managed pods the status reports, every node
  the accounting holds manages a pod, and every per-pod gauge belongs to a pod some node
  tracks under its own key: nothing leaks when pods or nodes go away.\<close>

theorem accounting_invariant:
  assumes "reachable r"
  shows "podsManaged (nrMetrics r) = float_of_int (fst (ManagedCounts r))
    \<and> snd (ManagedCounts r) = int (length (nrPodSeries r))
    \<and> (\<forall>ns name. mget (podLimitCores (nrMetrics r)) (ns, name) \<noteq> None \<longrightarrow>
         (\<exists>node s. mget (nrPodSeries r) node = Some s
            \<and> mget s (ns @ ''/'' @ name) = Some \<lparr>srNamespace = ns, srName = name\<rparr>))"
proof (intro conjI allI impI)
  note ok = reachable_acctOk [OF assms]
  show "podsManaged (nrMetrics r) = float_of_int (fst (ManagedCounts r))" using ok by (simp add: acctOk_def)
  show "snd (ManagedCounts r) = int (length (nrPodSeries r))" by (rule managed_nodes [OF ok])
  fix ns name assume "mget (podLimitCores (nrMetrics r)) (ns, name) \<noteq> None"
  then have "tracked (nrPodSeries r) (ns, name)" using ok unfolding acctOk_def by blast
  then obtain node s key ref where t: "mget (nrPodSeries r) node = Some s" "mget s key = Some ref"
      "srNamespace ref = ns" "srName ref = name" unfolding tracked_def by blast
  have "key = refKey ref" using ok t(1,2) unfolding acctOk_def seriesWf_def by blast
  moreover have "ref = \<lparr>srNamespace = ns, srName = name\<rparr>" using t(3,4) by simp
  ultimately show "\<exists>node s. mget (nrPodSeries r) node = Some s
      \<and> mget s (ns @ ''/'' @ name) = Some \<lparr>srNamespace = ns, srName = name\<rparr>"
    using t(1,2) by (auto simp: refKey_def)
qed

theorem accounting_invariant_witness:
  "\<exists>r. reachable r \<and> issued r = [samplePatch] \<and> podsManaged (nrMetrics r) = float_of_int (fst (ManagedCounts r))"
proof -
  have new: "freshFor newNodeReconciler" "issued newNodeReconciler = []"
    by (simp_all add: freshFor_def newNodeReconciler_def issued_def)
  obtain r' where r': "Reconcile sampleEnv ''node1'' newNodeReconciler = (Some (requeue 0), r')" "issued r' = [samplePatch]"
    using sample_run [OF new(1)] new(2) by auto
  have "validNames sampleEnv" by (simp add: validNames_def sampleEnv_def samplePod_def)
  then have "nodeStep newNodeReconciler r'" using r'(1) sample_names by (intro nodeStep.reconcile)
  then have "reachable r'" using reachable.start reachable.step by blast
  then show ?thesis using accounting_invariant [of r'] r'(2) by blast
qed

section \<open>Two nodes, one name\<close>

lemma syncPodMetrics_drops:
  assumes "mget (seriesOf r old) key = Some ref" "mget (seriesOf r new) key = Some ref" "old \<noteq> new" "mget current key = None"
  shows "mget (seriesOf (syncPodMetrics old current r) new) key = Some ref
    \<and> mget (podLimitCores (nrMetrics (syncPodMetrics old current r))) (srNamespace ref, srName ref) = None"
proof -
  have "ref \<in> set (map snd (filter (\<lambda>(key, s). mget current key = None) (seriesOf r old)))"
    using map_of_SomeD [OF assms(1)] assms(4) by force
  then have "(srNamespace ref, srName ref) \<in> (\<lambda>s. (srNamespace s, srName s)) `
      set (map snd (filter (\<lambda>(key, s). mget current key = None) (seriesOf r old)))" by (rule imageI)
  moreover have "mget (nrPodSeries (syncPodMetrics old current r)) new = mget (nrPodSeries r) new"
    using assms(3) by (simp add: syncPodMetrics_def meter_def gomap_simps Let_def)
  ultimately show ?thesis using assms(2)
    by (simp only: syncPodMetrics_def meter_def deletePodSeries_def mget_fold_mdel Let_def seriesOf_def refresh_simps)
      (simp add: mget_fold_mdel seriesOf_def)
qed

lemma seriesOf_books: "books r' = books r \<Longrightarrow> seriesOf r' node = seriesOf r node"
  by (simp add: books_def seriesOf_def)

text \<open>The books after a reconcile that could judge the pods of its node are those it published.\<close>

lemma Reconcile_books:
  assumes "Synced (envVPAs env (nrTick r))" "configAt env r = Inr cfg"
    and "envNode env (nrTick r + 2) node = Inr nd" "envPodsOn env (nrTick r + 3) node = Inr pods"
    and "Reconcile env node r = (res, r')" "patchKeepsName env"
  obtains (refused) e where "res = Some (failed e)"
      "buildInputs env cfg pods (NodeManageable nd (rcSpec cfg)) (readAt cfg 5 r) = (Inl e, r')"
  | (judged) inputs byKey r1 stats ds where
      "buildInputs env cfg pods (NodeManageable nd (rcSpec cfg)) (readAt cfg 5 r) = (Inr (inputs, byKey), r1)"
      "Compute (MilliValue (Cpu (nAllocatable nd))) inputs (rcPolicy cfg) = (stats, ds)"
      "\<And>key pod. mget byKey key = Some pod \<Longrightarrow> podKey pod = key \<and> pod \<in> set pods"
      "books r1 = books r" "books r' = books (published node stats ds inputs byKey r1)"
proof -
  have tick: "(readAt cfg 4 r)\<lparr>nrTick := Suc (nrTick (readAt cfg 4 r))\<rparr> = readAt cfg 5 r"
    by (simp add: readAt_def setDebounce_def)
  have "reconcilePods env node cfg (MilliValue (Cpu (nAllocatable nd))) (NodeManageable nd (rcSpec cfg)) pods
      (readAt cfg 4 r) = (res, r')"
    using Reconcile_listed [OF assms(1-4)] assms(5) by simp
  then show thesis
  proof (cases rule: reconcilePods_split)
    case (refused e)
    then show thesis using that(1) unfolding tick by blast
  next
    case (applied inputs byKey r1 stats ds bucket r2 out r3)
    note b = applied(1) [unfolded tick] and keys = buildInputs_spec(2) [OF applied(1)]
    have "books r1 = books (readAt cfg 5 r)" by (rule sameCore_books [OF sameCore_buildInputs [OF b]])
    then have r1: "books r1 = books r" by (simp add: books_def readAt_def setDebounce_def)
    have "books r2 = books (published node stats ds inputs byKey r1)"
      using applied(3) by (auto simp: limiterFor_def books_def Let_def split: option.splits if_splits)
    moreover have "keysOk byKey" using keys by (simp add: keysOk_def)
    then have "books r3 = books r2" using applyLoop_spec [OF applied(4) assms(6)] by (auto simp: drawn_def)
    moreover have "sameCore r3 r'" using applied(5) by (auto split: option.splits dest: sameCore_verdict)
    then have "books r' = books r3" by (rule sameCore_books)
    ultimately show thesis using keys r1 by (intro that(2) [OF b applied(2)]) auto
  qed
qed

lemma publishPods_series:
  "mget byKey key = None \<Longrightarrow> publishPods ds byKey m = (m', current) \<Longrightarrow> mget current key = None"
proof -
  assume none: "mget byKey key = None" and p: "publishPods ds byKey m = (m', current)"
  have "mget (snd (publishPods ds byKey m)) key = None"
    unfolding publishPods_def
    by (rule fold_invariant [where Q = "\<lambda>_. True"])
      (use none in \<open>auto simp: gomap_simps split: prod.splits option.splits\<close>)
  then show ?thesis using p by simp
qed

text \<open>C40. The gauges are labelled by namespace and name alone. When a pod of one name is tracked
  on two nodes, as after a rebind or a replacement under the same name, a successful reconcile of
  the old node, whose listing no longer holds the pod, deletes the pod's gauge although the new
  node still tracks it.\<close>

theorem moved_pod_loses_gauge:
  assumes "mget (seriesOf r old) key = Some ref" "mget (seriesOf r new) key = Some ref" "old \<noteq> new"
    and "Synced (envVPAs env (nrTick r))" "configAt env r = Inr cfg"
    and "envNode env (nrTick r + 2) old = Inr nd" "envPodsOn env (nrTick r + 3) old = Inr pods"
    and "\<forall>pod \<in> set pods. podKey pod \<noteq> key"
    and "Reconcile env old r = (Some res, r')" "resErr res = None" "patchKeepsName env"
  shows "mget (seriesOf r' new) key = Some ref
    \<and> mget (podLimitCores (nrMetrics r')) (srNamespace ref, srName ref) = None"
  using assms(4-7,9,11)
proof (cases rule: Reconcile_books)
  case (refused e)
  then show ?thesis using assms(10) by (simp add: failed_def)
next
  case (judged inputs byKey r1 stats ds)
  obtain m current where p: "publishPods ds byKey (publishNode old stats ds inputs byKey (nrMetrics r1)) = (m, current)"
    by fastforce
  have "mget byKey key = None" using judged(3) [of key] assms(8) by (cases "mget byKey key") auto
  then have cur: "mget current key = None" using p by (rule publishPods_series)
  have s: "seriesOf (r1\<lparr>nrMetrics := m\<rparr>) n = seriesOf r n" for n
    using seriesOf_books [OF judged(4)] by (simp add: seriesOf_def)
  have pub: "published old stats ds inputs byKey r1 = syncPodMetrics old current (r1\<lparr>nrMetrics := m\<rparr>)"
    using p by (simp add: published_def)
  have "podLimitCores (nrMetrics r') = podLimitCores (nrMetrics (published old stats ds inputs byKey r1))"
    using judged(5) by (simp add: books_def)
  then show ?thesis
    using syncPodMetrics_drops [of "r1\<lparr>nrMetrics := m\<rparr>" old key ref new current] assms(1-3) cur s
      seriesOf_books [OF judged(5)] pub by simp
qed

text \<open>A run that gets there: the pod is managed on one node, then listed on another, and then the
  first node is reconciled without it.\<close>

lemma sample_tracks:
  assumes "nrBackoff r = []" "Reconcile sampleEnv node r = (res, r')"
  shows "seriesOf r' node = [(''ns/web'', \<lparr>srNamespace = ''ns'', srName = ''web''\<rparr>)]"
    and "n \<noteq> node \<Longrightarrow> seriesOf r' n = seriesOf r n"
proof -
  have env: "Synced (envVPAs sampleEnv (nrTick r))" "envNode sampleEnv (nrTick r + 2) node = Inr sampleNode"
    "envPodsOn sampleEnv (nrTick r + 3) node = Inr [samplePod]"
    by (simp_all add: sampleEnv_def Synced_def)
  have nm: "NodeManageable sampleNode (rcSpec sampleCfg)" using samplePod_gates(6) by (simp add: sampleCfg_def)
  have al: "MilliValue (Cpu (nAllocatable sampleNode)) = 4000"
    by (simp add: sampleNode_def cpuList_def Cpu_def resourceNamed_def entries_def)
  have b: "buildInputs sampleEnv sampleCfg [samplePod] (NodeManageable sampleNode (rcSpec sampleCfg)) (readAt sampleCfg 5 r)
      = (Inr ([sampleInput], [(''ns/web'', samplePod)]), (readAt sampleCfg 5 r)\<lparr>nrTick := nrTick (readAt sampleCfg 5 r) + 3,
          nrVPASkipped := mdel ''u1'' (nrVPASkipped (readAt sampleCfg 5 r))\<rparr>)"
    using assms(1) nm sample_inputs [of "readAt sampleCfg 5 r"] by (simp add: readAt_def setDebounce_def)
  have "seriesOf r' node = [(''ns/web'', \<lparr>srNamespace = ''ns'', srName = ''web''\<rparr>)]
      \<and> (n \<noteq> node \<longrightarrow> seriesOf r' n = seriesOf r n)"
    using env(1) sampleCfg_eval [of r] env(2,3) assms(2) sample_names
  proof (cases rule: Reconcile_books)
    case (refused e)
    then show ?thesis using b by simp
  next
    case (judged inputs byKey r1 stats ds)
    have "inputs = [sampleInput]" "byKey = [(''ns/web'', samplePod)]" using judged(1) b by simp_all
    moreover from this have "stats = sampleStats" "ds = [sampleDecision]"
      using judged(2) sample_compute al by simp_all
    ultimately show ?thesis
      using seriesOf_books [OF judged(5)] seriesOf_books [OF judged(4)]
      by (simp add: published_def publishPods_def sampleDecision_def samplePod_def syncPodMetrics_def meter_def
          seriesOf_def gomap_simps Let_def)
  qed
  then show "seriesOf r' node = [(''ns/web'', \<lparr>srNamespace = ''ns'', srName = ''web''\<rparr>)]"
    "n \<noteq> node \<Longrightarrow> seriesOf r' n = seriesOf r n" by simp_all
qed

lemma sample_empty_run:
  "\<exists>d r'. Reconcile (sampleEnv\<lparr>envPodsOn := \<lambda>n s. Inr []\<rparr>) node r = (Some (requeue d), r')"
proof -
  let ?env = "sampleEnv\<lparr>envPodsOn := \<lambda>n s. Inr []\<rparr>" and ?r = "readAt sampleCfg 4 r"
  let ?alloc = "MilliValue (Cpu (nAllocatable sampleNode))" and ?nm = "NodeManageable sampleNode (rcSpec sampleCfg)"
  have env: "Synced (envVPAs ?env (nrTick r))" "configAt ?env r = Inr sampleCfg"
    "envNode ?env (nrTick r + 2) node = Inr sampleNode" "envPodsOn ?env (nrTick r + 3) node = Inr []"
    using sampleCfg_eval [of r] by (simp_all add: Synced_def sampleEnv_def configAt_def loadConfig_def)
  have b: "buildInputs ?env sampleCfg [] ?nm (?r\<lparr>nrTick := Suc (nrTick ?r)\<rparr>) = (Inr ([], []), ?r\<lparr>nrTick := Suc (nrTick ?r)\<rparr>)"
    by (simp add: buildInputs_def)
  obtain stats ds where c: "Compute ?alloc [] (rcPolicy sampleCfg) = (stats, ds)" by fastforce
  then have ds: "ds = []" by (auto simp: Compute_def Let_def)
  obtain bucket r2 where l: "limiterFor ?env node (rcPerNodePPS sampleCfg)
      (published node stats ds [] [] (?r\<lparr>nrTick := Suc (nrTick ?r)\<rparr>)) = (bucket, r2)" by fastforce
  have a: "applyLoop ?env node sampleCfg stats (int (length [])) ds [] bucket False [] r2 = (Some (False, []), r2)"
    by (simp add: ds)
  obtain d r' where "backoffRequeue ?env (map fst ([] :: (string, Pod) gomap)) (envClock ?env (nrTick ?r)) r2 = (d, r')" by fastforce
  then have v: "verdict_of ?env [] (envClock ?env (nrTick ?r)) (False, []) r2 = (requeue d, r')"
    by (simp add: verdict_of_def)
  show ?thesis
    using reconcilePods_applied [OF b c l a v] Reconcile_listed [OF env] by auto
qed

theorem moved_pod_loses_gauge_witness:
  "\<exists>r. reachable r \<and> mget (seriesOf r ''node2'') ''ns/web'' \<noteq> None
     \<and> mget (podLimitCores (nrMetrics r)) (''ns'', ''web'') = None"
proof -
  let ?ref = "\<lparr>srNamespace = ''ns'', srName = ''web''\<rparr>" and ?empty = "sampleEnv\<lparr>envPodsOn := \<lambda>n s. Inr []\<rparr>"
  have step: "reachable r \<Longrightarrow> Reconcile env node r = (res, r') \<Longrightarrow> env \<in> {sampleEnv, ?empty} \<Longrightarrow> reachable r'"
    for env node r res r'
    by (rule reachable.step, assumption, rule nodeStep.reconcile [where env = env])
      (auto simp: patchKeepsName_def validNames_def sampleEnv_def samplePod_def)
  have "freshFor newNodeReconciler" by (simp add: freshFor_def newNodeReconciler_def)
  then obtain r1 where r1: "Reconcile sampleEnv ''node1'' newNodeReconciler = (Some (requeue 0), r1)" "nrBackoff r1 = []"
    using sample_run by blast
  obtain res2 r2 where r2: "Reconcile sampleEnv ''node2'' r1 = (res2, r2)" by fastforce
  obtain d r3 where r3: "Reconcile ?empty ''node1'' r2 = (Some (requeue d), r3)"
    using sample_empty_run by blast
  have "nrBackoff newNodeReconciler = []" by (simp add: newNodeReconciler_def)
  then have two: "mget (seriesOf r2 ''node1'') ''ns/web'' = Some ?ref" "mget (seriesOf r2 ''node2'') ''ns/web'' = Some ?ref"
    using sample_tracks(1) [OF _ r1(1)] sample_tracks(1) [OF r1(2) r2] sample_tracks(2) [OF r1(2) r2, of "''node1''"] by simp_all
  have "Synced (envVPAs ?empty (nrTick r2))" "configAt ?empty r2 = Inr sampleCfg" "envNode ?empty (nrTick r2 + 2) ''node1'' = Inr sampleNode"
    "envPodsOn ?empty (nrTick r2 + 3) ''node1'' = Inr []" "patchKeepsName ?empty"
    using sampleCfg_eval [of r2] sample_names
    by (simp_all add: Synced_def sampleEnv_def configAt_def loadConfig_def patchKeepsName_def)
  note gone = moved_pod_loses_gauge [OF two _ this(1-4) _ r3 _ this(5)]
  have "reachable r3" using step [OF step [OF step [OF reachable.start r1(1)] r2] r3] by simp
  moreover have "mget (seriesOf r3 ''node2'') ''ns/web'' = Some ?ref \<and> mget (podLimitCores (nrMetrics r3)) (''ns'', ''web'') = None"
    using gone by (simp add: requeue_def)
  ultimately show ?thesis by (intro exI [of _ r3]) simp
qed

end
