(* ===== verification/ConfigReconciler.thy ===== *)
theory ConfigReconciler
  imports NodeAccounting
begin

text \<open>
  The reconciler of the singleton configuration,
  \<open>internal/controller/headroomconfig_controller.go\<close>: it copies the node reconciler's counts
  into the status, and writes only when something changed. The source of the counts is an
  interface in the code and a locale here.
\<close>

section \<open>Status conditions\<close>

definition ConditionTrue :: string where
  "ConditionTrue = ''True''"

fun FindStatusCondition :: "Condition list \<Rightarrow> string \<Rightarrow> Condition option" where
  "FindStatusCondition [] conditionType = None"
| "FindStatusCondition (c # cs) conditionType =
     (if condType c = conditionType then Some c else FindStatusCondition cs conditionType)"

text \<open>Go updates the condition through a pointer into the slice: the first one of its type.\<close>

fun updateFirst :: "string \<Rightarrow> (Condition \<Rightarrow> Condition) \<Rightarrow> Condition list \<Rightarrow> Condition list" where
  "updateFirst conditionType f [] = []"
| "updateFirst conditionType f (c # cs) =
     (if condType c = conditionType then f c # cs else c # updateFirst conditionType f cs)"

definition mergeCondition :: "Condition \<Rightarrow> Time \<Rightarrow> Condition \<Rightarrow> Condition" where
  "mergeCondition newCondition now c =
     (let c = (if condStatus c \<noteq> condStatus newCondition
               then c\<lparr>condStatus := condStatus newCondition,
                      condLastTransitionTime :=
                        (if condLastTransitionTime newCondition \<noteq> 0 then condLastTransitionTime newCondition else now)\<rparr>
               else c)
      in c\<lparr>condReason := condReason newCondition, condMessage := condMessage newCondition,
           condObservedGeneration := condObservedGeneration newCondition\<rparr>)"

definition SetStatusCondition :: "Condition list \<Rightarrow> Condition \<Rightarrow> Time \<Rightarrow> Condition list" where
  "SetStatusCondition conditions newCondition now =
     (case FindStatusCondition conditions (condType newCondition) of
        None \<Rightarrow>
          conditions @ [if condLastTransitionTime newCondition = 0
                        then newCondition\<lparr>condLastTransitionTime := now\<rparr> else newCondition]
      | Some c \<Rightarrow> updateFirst (condType newCondition) (mergeCondition newCondition now) conditions)"

section \<open>The reconciler\<close>

definition conditionReady :: string where
  "conditionReady = ''Ready''"

definition reasonReconciled :: string where
  "reasonReconciled = ''Reconciled''"

definition statusResyncPeriod :: Duration where
  "statusResyncPeriod = 30 * Second"

text \<open>The conversion \<open>int32(n)\<close>.\<close>

definition wrap32 :: "int \<Rightarrow> int" where
  "wrap32 n = (n + 2 ^ 31) mod 2 ^ 32 - 2 ^ 31"

text \<open>What the API server answers: the object, the time, and the outcome of the status update.\<close>

record configEnv =
  ceGet :: "apiError + HeadroomConfig"
  ceNow :: Time
  ceUpdate :: "HeadroomConfig \<Rightarrow> apiError option"

definition readyMessage :: "HeadroomConfig \<Rightarrow> int \<Rightarrow> int \<Rightarrow> string" where
  "readyMessage hc pods nodes =
     (let mode = (if specDryRun (hcSpec hc) = None \<or> specDryRun (hcSpec hc) = Some True then ''dry-run'' else ''enforcing'')
      in ''Reconciling in '' @ mode @ '' mode; managing '' @ showInt pods @ '' pods across '' @ showInt nodes @ '' nodes'')"

text \<open>The object with the status the reconciler wants.\<close>

definition desiredConfig :: "Time \<Rightarrow> int \<times> int \<Rightarrow> HeadroomConfig \<Rightarrow> HeadroomConfig" where
  "desiredConfig now counts hc =
     (let (pods, nodes) = counts;
          ready = \<lparr>condType = conditionReady, condStatus = ConditionTrue, condObservedGeneration = hcGeneration hc,
                   condLastTransitionTime = 0, condReason = reasonReconciled, condMessage = readyMessage hc pods nodes\<rparr>
      in hc\<lparr>hcStatus := \<lparr>stObservedGeneration = hcGeneration hc, stManagedPods = wrap32 pods, stManagedNodes = wrap32 nodes,
              stConditions = SetStatusCondition (stConditions (hcStatus hc)) ready now\<rparr>\<rparr>)"

text \<open>The result, and the object given to the status update if there was one. A nil
  \<open>ManagedState\<close> is None.\<close>

definition configReconcile :: "configEnv \<Rightarrow> (int \<times> int) option \<Rightarrow> reconcileResult \<times> HeadroomConfig option" where
  "configReconcile env managedState =
     (case ceGet env of
        Inl (NotFound m) \<Rightarrow> (requeue 0, None)
      | Inl e \<Rightarrow> (failed (Plain e), None)
      | Inr orig \<Rightarrow>
          let counts = (case managedState of Some c \<Rightarrow> c | None \<Rightarrow> (0, 0));
              hc = desiredConfig (ceNow env) counts orig
          in if hcStatus orig \<noteq> hcStatus hc then
               (case ceUpdate env hc of
                  Some e \<Rightarrow> (failed (Wrapped ''update HeadroomConfig status'' e), Some hc)
                | None \<Rightarrow> (requeue statusResyncPeriod, Some hc))
             else (requeue statusResyncPeriod, None))"

definition headroomConfigRequests :: "string list" where
  "headroomConfigRequests = [SingletonName]"

text \<open>The watches of \<open>SetupWithManager\<close>, with the events of the node watches.\<close>

definition configWatch :: "parser \<Rightarrow> string \<Rightarrow> watchEvent \<Rightarrow> string list" where
  "configWatch parseQuantity name ev =
     (case ev of
        OnConfig oldGeneration generation nodes \<Rightarrow> if oldGeneration = Some generation then [] else [name]
      | OnPod pe \<Rightarrow>
          (case pe of
             PodUpdated old new \<Rightarrow>
               if podUpdateRelevant parseQuantity (Some old) (Some new) then headroomConfigRequests else []
           | _ \<Rightarrow> headroomConfigRequests)
      | OnNode old new \<Rightarrow> if old = None \<or> nodeUpdateRelevant old (Some new) then headroomConfigRequests else []
      | _ \<Rightarrow> [])"

section \<open>Conditions after an update\<close>

lemma Find_updateFirst:
  assumes "\<And>c. condType (f c) = condType c"
  shows "FindStatusCondition (updateFirst ty f cs) ty = map_option f (FindStatusCondition cs ty)"
    and "ty' \<noteq> ty \<Longrightarrow> FindStatusCondition (updateFirst ty f cs) ty' = FindStatusCondition cs ty'"
  using assms by (induction cs) auto

lemma Find_append: "FindStatusCondition (cs @ ds) ty =
    (case FindStatusCondition cs ty of Some c \<Rightarrow> Some c | None \<Rightarrow> FindStatusCondition ds ty)"
  by (induction cs) auto

lemma mergeCondition_type [simp]: "condType (mergeCondition n now c) = condType c"
  by (simp add: mergeCondition_def Let_def)

text \<open>After \<open>SetStatusCondition\<close> the condition of that type carries the new fields and every other
  type is untouched; an unchanged status keeps its transition time.\<close>

lemma SetStatusCondition_spec:
  "\<exists>c. FindStatusCondition (SetStatusCondition cs n now) (condType n) = Some c
     \<and> condStatus c = condStatus n \<and> condReason c = condReason n \<and> condMessage c = condMessage n
     \<and> condObservedGeneration c = condObservedGeneration n
     \<and> (\<forall>old. FindStatusCondition cs (condType n) = Some old \<longrightarrow> condStatus old = condStatus n \<longrightarrow>
          condLastTransitionTime c = condLastTransitionTime old)"
  "ty \<noteq> condType n \<Longrightarrow> FindStatusCondition (SetStatusCondition cs n now) ty = FindStatusCondition cs ty"
  by (auto simp: SetStatusCondition_def Find_append Find_updateFirst mergeCondition_def Let_def split: option.splits)

lemma updateFirst_updateFirst:
  assumes "\<And>c. condType (f c) = condType c" "\<And>c. g (f c) = f c"
  shows "updateFirst ty g (updateFirst ty f cs) = updateFirst ty f cs"
  using assms by (induction cs) auto

lemma updateFirst_append_new:
  "FindStatusCondition cs ty = None \<Longrightarrow> condType c = ty \<Longrightarrow> updateFirst ty f (cs @ [c]) = cs @ [f c]"
  by (induction cs) (auto split: if_splits)

lemma SetStatusCondition_idem:
  assumes "condLastTransitionTime n = 0"
  shows "SetStatusCondition (SetStatusCondition cs n now) n later = SetStatusCondition cs n now"
proof (cases "FindStatusCondition cs (condType n)")
  case None
  then show ?thesis using assms
    by (simp add: SetStatusCondition_def Find_append updateFirst_append_new mergeCondition_def Let_def)
next
  case (Some c)
  have "mergeCondition n later (mergeCondition n now c) = mergeCondition n now c" for c
    by (simp add: mergeCondition_def Let_def)
  then show ?thesis using Some
    by (simp add: SetStatusCondition_def Find_updateFirst updateFirst_updateFirst)
qed

lemma desiredConfig_idem: "desiredConfig later counts (desiredConfig now counts hc) = desiredConfig now counts hc"
  by (cases counts) (simp add: desiredConfig_def readyMessage_def SetStatusCondition_idem Let_def)

section \<open>The interface to the node reconciler\<close>

text \<open>
  \<open>managedCountSource\<close>: whoever reports the counts also exports them as a gauge, in every state
  it can be in.
\<close>

locale managed_count_source =
  fixes counts :: "'s \<Rightarrow> int \<times> int" and gauge :: "'s \<Rightarrow> float64" and valid :: "'s \<Rightarrow> bool"
  assumes counts_nonneg: "valid s \<Longrightarrow> 0 \<le> fst (counts s) \<and> 0 \<le> snd (counts s)"
    and gauge_counts: "valid s \<Longrightarrow> gauge s = float_of_int (fst (counts s))"
begin

lemma wrapped_counts:
  assumes "valid s" "fst (counts s) < 2 ^ 31" "snd (counts s) < 2 ^ 31"
  shows "wrap32 (fst (counts s)) = fst (counts s)" "wrap32 (snd (counts s)) = snd (counts s)"
  using counts_nonneg [OF assms(1)] assms(2,3) by (simp_all add: wrap32_def)

lemma desired_status:
  assumes "valid s" "fst (counts s) < 2 ^ 31" "snd (counts s) < 2 ^ 31"
  shows "stManagedPods (hcStatus (desiredConfig now (counts s) hc)) = fst (counts s)"
    "stManagedNodes (hcStatus (desiredConfig now (counts s) hc)) = snd (counts s)"
    "float_of_int (stManagedPods (hcStatus (desiredConfig now (counts s) hc))) = gauge s"
  using wrapped_counts [OF assms] gauge_counts [OF assms(1)]
  by (simp_all add: desiredConfig_def case_prod_beta Let_def)

end

lemma ManagedCounts_nonneg: "0 \<le> fst (ManagedCounts r) \<and> 0 \<le> snd (ManagedCounts r)"
  by (auto simp: ManagedCounts_sums intro!: sum_list_nonneg)

interpretation mc: managed_count_source ManagedCounts "\<lambda>r. podsManaged (nrMetrics r)" acctOk
  by unfold_locales (simp_all add: ManagedCounts_nonneg acctOk_def)

section \<open>Properties\<close>

text \<open>The object after a reconcile whose write, if any, landed.\<close>

definition storedConfig :: "HeadroomConfig \<Rightarrow> HeadroomConfig option \<Rightarrow> HeadroomConfig" where
  "storedConfig hc written = (case written of Some h \<Rightarrow> h | None \<Rightarrow> hc)"

lemma configReconcile_stored:
  assumes "ceGet env = Inr hc" "configReconcile env (Some c) = (res, written)"
  shows "storedConfig hc written = desiredConfig (ceNow env) c hc"
proof -
  let ?d = "desiredConfig (ceNow env) c hc"
  have "hcSpec ?d = hcSpec hc" "hcGeneration ?d = hcGeneration hc" by (simp_all add: desiredConfig_def case_prod_beta Let_def)
  then have "hc = ?d" if "hcStatus hc = hcStatus ?d" using that by simp
  then show ?thesis
    using assms by (auto simp: configReconcile_def storedConfig_def Let_def split: if_splits option.splits)
qed

text \<open>C17. Read in any state the controller can reach, the counts a status write leaves on the
  configuration are those of the node reconciler and equal the \<open>pods_managed\<close> gauge; the
  status observes the current generation, the Ready condition is true with the message for
  those counts, and the specification and every other condition stay as they were.\<close>

theorem status_agrees_with_gauge:
  assumes "reachable r" "ceGet env = Inr hc" "configReconcile env (Some (ManagedCounts r)) = (res, written)"
    and "fst (ManagedCounts r) < 2 ^ 31" "snd (ManagedCounts r) < 2 ^ 31"
  shows "let hc' = storedConfig hc written; st = hcStatus hc' in
      hcSpec hc' = hcSpec hc \<and> stObservedGeneration st = hcGeneration hc
    \<and> (stManagedPods st, stManagedNodes st) = ManagedCounts r
    \<and> podsManaged (nrMetrics r) = float_of_int (stManagedPods st)
    \<and> (\<exists>c. FindStatusCondition (stConditions st) conditionReady = Some c \<and> condStatus c = ConditionTrue
          \<and> condObservedGeneration c = hcGeneration hc
          \<and> condMessage c = readyMessage hc (stManagedPods st) (stManagedNodes st))
    \<and> (\<forall>ty. ty \<noteq> conditionReady \<longrightarrow>
          FindStatusCondition (stConditions st) ty = FindStatusCondition (stConditions (hcStatus hc)) ty)"
proof -
  note d = mc.desired_status [OF reachable_acctOk [OF assms(1)] assms(4,5), of "ceNow env" hc]
  let ?hc' = "desiredConfig (ceNow env) (ManagedCounts r) hc"
  let ?ready = "\<lparr>condType = conditionReady, condStatus = ConditionTrue, condObservedGeneration = hcGeneration hc,
      condLastTransitionTime = 0, condReason = reasonReconciled,
      condMessage = readyMessage hc (fst (ManagedCounts r)) (snd (ManagedCounts r))\<rparr>"
  have f: "hcSpec ?hc' = hcSpec hc" "stObservedGeneration (hcStatus ?hc') = hcGeneration hc"
    "stConditions (hcStatus ?hc') = SetStatusCondition (stConditions (hcStatus hc)) ?ready (ceNow env)"
    by (simp_all add: desiredConfig_def case_prod_beta Let_def)
  show ?thesis
    unfolding configReconcile_stored [OF assms(2,3)] Let_def f d
    using SetStatusCondition_spec [where cs = "stConditions (hcStatus hc)" and n = ?ready and now = "ceNow env"] d by auto
qed

text \<open>C37. A configuration that has the status of the current counts is left alone: a reconcile
  of the object as the last one left it writes nothing, and the next look is one resync
  period away.\<close>

theorem config_reconcile_settles:
  assumes "ceGet env = Inr hc" "configReconcile env (Some c) = (res, written)"
  shows "configReconcile (env\<lparr>ceGet := Inr (storedConfig hc written), ceNow := later\<rparr>) (Some c) =
    (requeue statusResyncPeriod, None)"
  unfolding configReconcile_stored [OF assms] by (simp add: configReconcile_def desiredConfig_idem)

definition sampleConfigEnv :: configEnv where
  "sampleConfigEnv = \<lparr>ceGet = Inr sampleConfig, ceNow = 5, ceUpdate = (\<lambda>hc. None)\<rparr>"

theorem status_agrees_with_gauge_witness:
  "\<exists>hc'. configReconcile sampleConfigEnv (Some (0, 0)) = (requeue statusResyncPeriod, Some hc')
    \<and> stObservedGeneration (hcStatus hc') = 3 \<and> (stManagedPods (hcStatus hc'), stManagedNodes (hcStatus hc')) = (0, 0)
    \<and> podsManaged (nrMetrics newNodeReconciler) = float_of_int 0"
proof -
  have z: "ManagedCounts newNodeReconciler = (0, 0)" by (simp add: ManagedCounts_def newNodeReconciler_def)
  have g: "ceGet sampleConfigEnv = Inr sampleConfig" "hcGeneration sampleConfig = 3"
    by (simp_all add: sampleConfigEnv_def sampleConfig_def)
  have "hcStatus sampleConfig \<noteq> hcStatus (desiredConfig 5 (0, 0) sampleConfig)"
    by (simp add: sampleConfig_def desiredConfig_def Let_def)
  then obtain hc' where c: "configReconcile sampleConfigEnv (Some (0, 0)) = (requeue statusResyncPeriod, Some hc')"
    by (simp add: configReconcile_def sampleConfigEnv_def)
  from status_agrees_with_gauge [OF reachable.start g(1), unfolded z, OF c] show ?thesis
    using c g(2) by (auto simp: storedConfig_def Let_def)
qed

theorem config_reconcile_settles_witness:
  "\<exists>hc'. configReconcile sampleConfigEnv (Some (4, 2)) = (requeue statusResyncPeriod, Some hc')
    \<and> configReconcile (sampleConfigEnv\<lparr>ceGet := Inr hc', ceNow := 99\<rparr>) (Some (4, 2)) = (requeue statusResyncPeriod, None)"
proof -
  have g: "ceGet sampleConfigEnv = Inr sampleConfig" by (simp add: sampleConfigEnv_def)
  have "hcStatus sampleConfig \<noteq> hcStatus (desiredConfig 5 (4, 2) sampleConfig)"
    by (simp add: sampleConfig_def desiredConfig_def Let_def)
  then obtain hc' where c: "configReconcile sampleConfigEnv (Some (4, 2)) = (requeue statusResyncPeriod, Some hc')"
    by (simp add: configReconcile_def sampleConfigEnv_def)
  then show ?thesis using config_reconcile_settles [OF g c, of 99] by (simp add: storedConfig_def)
qed

end
