(* ===== verification/ManagerMain.thy ===== *)
theory ManagerMain
  imports ConfigReconciler
begin

text \<open>
  The start of the program, \<open>cmd/main.go\<close>: the options of its servers from the flags, the
  client's rate limits from the configuration, and the calls that build and start the
  manager, each followed by its own check of the error. The libraries behind the calls are an
  environment that says which of them fail.
\<close>

section \<open>Client rate limits\<close>

text \<open>\<open>float32(v)\<close> of a 32-bit integer, rounded to 24 bits, half to even. The value is an
  integer.\<close>

definition float32_of_int :: "int \<Rightarrow> int" where
  "float32_of_int v =
     (let ulp = 2 ^ nat (bits \<bar>v\<bar> - 24) in rne (of_int v / of_int ulp) * ulp)"

definition defaultClientQPS :: int where
  "defaultClientQPS = 50"

definition defaultClientBurst :: int where
  "defaultClientBurst = 100"

definition rateLimitsFrom :: "HeadroomConfig option \<Rightarrow> int \<times> int" where
  "rateLimitsFrom hc =
     (case hc of
        None \<Rightarrow> (defaultClientQPS, defaultClientBurst)
      | Some hc \<Rightarrow>
          (let limits = specRateLimits (hcSpec hc);
               qps = (if ClientQPS limits > 0 then float32_of_int (ClientQPS limits) else defaultClientQPS);
               burst = (if ClientBurst limits > 0 then ClientBurst limits else defaultClientBurst)
           in (qps, burst)))"

text \<open>The bootstrap client, or the error of building it, as its \<open>Get\<close> of the singleton.\<close>

definition bootstrapRateLimits :: "string + (apiError + HeadroomConfig) \<Rightarrow> int \<times> int" where
  "bootstrapRateLimits client =
     (case client of
        Inl e \<Rightarrow> (defaultClientQPS, defaultClientBurst)
      | Inr (Inl e) \<Rightarrow> (defaultClientQPS, defaultClientBurst)
      | Inr (Inr hc) \<Rightarrow> rateLimitsFrom (Some hc))"

section \<open>Options from the flags\<close>

record mainFlags =
  metricsAddr :: string
  probeAddr :: string
  enableLeaderElection :: bool
  secureMetrics :: bool
  webhookCertPath :: string
  webhookCertName :: string
  webhookCertKey :: string
  metricsCertPath :: string
  metricsCertName :: string
  metricsCertKey :: string
  enableHTTP2 :: bool

definition defaultFlags :: mainFlags where
  "defaultFlags = \<lparr>metricsAddr = ''0'', probeAddr = '':8081'', enableLeaderElection = False, secureMetrics = True,
     webhookCertPath = '''', webhookCertName = ''tls.crt'', webhookCertKey = ''tls.key'', metricsCertPath = '''',
     metricsCertName = ''tls.crt'', metricsCertKey = ''tls.key'', enableHTTP2 = False\<rparr>"

text \<open>A TLS option changes a configuration; of it the program sets the protocols.\<close>

type_synonym tlsOpt = "string list \<Rightarrow> string list"

definition disableHTTP2 :: tlsOpt where
  "disableHTTP2 nextProtos = [''http/1.1'']"

definition tlsOptsOf :: "mainFlags \<Rightarrow> tlsOpt list" where
  "tlsOptsOf flags = (if \<not> enableHTTP2 flags then [] @ [disableHTTP2] else [])"

record serverOptions =
  soTLSOpts :: "tlsOpt list"
  soCertDir :: string
  soCertName :: string
  soKeyName :: string

definition webhookOptions :: "mainFlags \<Rightarrow> serverOptions" where
  "webhookOptions flags =
     (let opts = \<lparr>soTLSOpts = tlsOptsOf flags, soCertDir = '''', soCertName = '''', soKeyName = ''''\<rparr>
      in if webhookCertPath flags \<noteq> ''''
         then opts\<lparr>soCertDir := webhookCertPath flags, soCertName := webhookCertName flags,
                   soKeyName := webhookCertKey flags\<rparr>
         else opts)"

record metricsOptions = serverOptions +
  msBindAddress :: string
  msSecureServing :: bool
  msAuthenticated :: bool

definition metricsServerOptions :: "mainFlags \<Rightarrow> metricsOptions" where
  "metricsServerOptions flags =
     (let opts = \<lparr>soTLSOpts = tlsOptsOf flags, soCertDir = '''', soCertName = '''', soKeyName = '''',
                  msBindAddress = metricsAddr flags, msSecureServing = secureMetrics flags, msAuthenticated = False\<rparr>;
          opts = (if secureMetrics flags then opts\<lparr>msAuthenticated := True\<rparr> else opts)
      in if metricsCertPath flags \<noteq> ''''
         then opts\<lparr>soCertDir := metricsCertPath flags, soCertName := metricsCertName flags,
                   soKeyName := metricsCertKey flags\<rparr>
         else opts)"

record managerOptions =
  moMetrics :: metricsOptions
  moWebhookServer :: serverOptions
  moHealthProbe :: string
  moLeaderElection :: bool
  moLeaderElectionID :: string
  moReleaseOnCancel :: bool
  moQPS :: int
  moBurst :: int

section \<open>The start\<close>

datatype startupCall =
    GetConfig | NewManager managerOptions | AddPoller | SetupNode | SetupConfig | SetupWebhook
  | AddHealthz | AddReadyz | StartManager

record mainEnv =
  meFails :: "startupCall \<Rightarrow> bool"
  meBootstrap :: "string + (apiError + HeadroomConfig)"
  meEnableWebhooks :: string

definition managerOptionsOf :: "mainFlags \<Rightarrow> mainEnv \<Rightarrow> managerOptions" where
  "managerOptionsOf flags env =
     (let (qps, burst) = bootstrapRateLimits (meBootstrap env)
      in \<lparr>moMetrics = metricsServerOptions flags, moWebhookServer = webhookOptions flags, moHealthProbe = probeAddr flags,
          moLeaderElection = enableLeaderElection flags, moLeaderElectionID = ''605152a6.dev'', moReleaseOnCancel = True,
          moQPS = qps, moBurst = burst\<rparr>)"

text \<open>The body of \<open>main\<close> from the first call that may fail: the exit status and the calls made
  so far. The second half is from the health check on.\<close>

definition mainServe :: "mainEnv \<Rightarrow> startupCall list \<Rightarrow> int \<times> startupCall list" where
  "mainServe env made =
     (let made = made @ [AddHealthz] in
      if meFails env AddHealthz then (1, made)
      else
        let made = made @ [AddReadyz] in
        if meFails env AddReadyz then (1, made)
        else
          let made = made @ [StartManager] in
          if meFails env StartManager then (1, made)
          else (0, made))"

definition mainRun :: "mainFlags \<Rightarrow> mainEnv \<Rightarrow> int \<times> startupCall list" where
  "mainRun flags env =
     (let made = [GetConfig] in
      if meFails env GetConfig then (1, made)
      else
        let opts = managerOptionsOf flags env;
            made = made @ [NewManager opts] in
        if meFails env (NewManager opts) then (1, made)
        else
          let made = made @ [AddPoller] in
          if meFails env AddPoller then (1, made)
          else
            let made = made @ [SetupNode] in
            if meFails env SetupNode then (1, made)
            else
              let made = made @ [SetupConfig] in
              if meFails env SetupConfig then (1, made)
              else if meEnableWebhooks env \<noteq> ''false'' then
                let made = made @ [SetupWebhook] in
                if meFails env SetupWebhook then (1, made)
                else mainServe env made
              else mainServe env made)"

section \<open>Properties\<close>

lemma float32_small: "\<bar>v\<bar> < 2 ^ 24 \<Longrightarrow> float32_of_int v = v"
proof -
  assume "\<bar>v\<bar> < 2 ^ 24"
  then have "bits \<bar>v\<bar> \<le> int 24" by (subst bits_le_iff)
  then show ?thesis by (simp add: float32_of_int_def)
qed

lemma float32_err:
  assumes "0 < v"
  shows "0 < float32_of_int v \<and> \<bar>float32_of_int v - v\<bar> * 2 ^ 24 \<le> v"
proof (cases "v < 2 ^ 24")
  case True
  then show ?thesis using assms float32_small [of v] by simp
next
  case False
  define k where "k = nat (bits v - 24)"
  define m where "m = rne (of_int v / of_int (2 ^ k))"
  have "\<not> bits v \<le> int 24" using False by (subst bits_le_iff) simp
  then have k: "0 < k" "bits v = int (k + 24)" by (simp_all add: k_def)
  then have "\<not> bits v \<le> int (k + 23)" by simp
  then have lo: "2 ^ (k + 23) \<le> v" by (subst (asm) bits_le_iff) simp
  have f: "float32_of_int v = m * 2 ^ k" using assms by (simp add: float32_of_int_def m_def k_def Let_def)
  have "\<bar>of_int m - of_int v / of_int (2 ^ k)\<bar> \<le> (1 / 2 :: rat)" unfolding m_def by (rule rne_err)
  then have h: "\<bar>of_int m - of_int v / of_int (2 ^ k)\<bar> * 2 ^ k \<le> (1 / 2 :: rat) * 2 ^ k" by (rule mult_right_mono) simp
  have a: "\<bar>of_int m - of_int v / of_int (2 ^ k)\<bar> * 2 ^ k = \<bar>(of_int m - of_int v / of_int (2 ^ k)) * (2 ^ k :: rat)\<bar>"
    by (simp only: abs_mult) simp
  have b: "(of_int m - of_int v / of_int (2 ^ k)) * (2 ^ k :: rat) = of_int (m * 2 ^ k - v)"
    by (simp add: left_diff_distrib)
  have "\<bar>of_int (m * 2 ^ k - v)\<bar> \<le> (1 / 2 :: rat) * 2 ^ k" using h unfolding a b .
  then have "of_int (2 * \<bar>m * 2 ^ k - v\<bar>) \<le> (of_int (2 ^ k) :: rat)" by simp
  then have d: "2 * \<bar>m * 2 ^ k - v\<bar> \<le> 2 ^ k" by (simp only: of_int_le_iff)
  have "\<bar>m * 2 ^ k - v\<bar> * 2 ^ 24 \<le> v" using d lo by (simp add: power_add)
  moreover have "0 < w" if "\<bar>w - v\<bar> * 2 ^ 24 \<le> v" for w :: int using that assms by (simp add: abs_if split: if_splits)
  ultimately show ?thesis unfolding f by blast
qed

text \<open>C38. The client always starts with a positive budget: the documented defaults whenever the
  singleton cannot be read, and otherwise the configured values, the query rate exactly
  below \<open>2 ^ 24\<close> and within one part in \<open>2 ^ 24\<close> beyond; a value that is not set falls back alone.\<close>

theorem client_rate_limits_resolved:
  "(case client of
      Inr (Inr hc) \<Rightarrow>
        (let limits = specRateLimits (hcSpec hc); (qps, burst) = bootstrapRateLimits client in
           0 < qps \<and> 0 < burst
           \<and> (if 0 < ClientQPS limits then \<bar>qps - ClientQPS limits\<bar> * 2 ^ 24 \<le> ClientQPS limits else qps = 50)
           \<and> (if 0 < ClientQPS limits \<and> ClientQPS limits < 2 ^ 24 then qps = ClientQPS limits else True)
           \<and> burst = (if 0 < ClientBurst limits then ClientBurst limits else 100))
    | _ \<Rightarrow> bootstrapRateLimits client = (50, 100))"
proof -
  show ?thesis
  proof (cases "\<exists>hc. client = Inr (Inr hc)")
    case True
    then obtain hc where c: "client = Inr (Inr hc)" by blast
    let ?q = "ClientQPS (specRateLimits (hcSpec hc))"
    have "0 < ?q \<longrightarrow> 0 < float32_of_int ?q \<and> \<bar>float32_of_int ?q - ?q\<bar> * 2 ^ 24 \<le> ?q" using float32_err by blast
    moreover have "0 < ?q \<and> ?q < 2 ^ 24 \<longrightarrow> float32_of_int ?q = ?q" using float32_small [of ?q] by simp
    ultimately show ?thesis
      by (simp add: c bootstrapRateLimits_def rateLimitsFrom_def defaultClientQPS_def defaultClientBurst_def Let_def)
  next
    case False
    then show ?thesis
      by (auto simp: bootstrapRateLimits_def defaultClientQPS_def defaultClientBurst_def split: sum.splits)
  qed
qed

section \<open>The start, call by call\<close>

text \<open>What has to succeed before the program serves, in order, and what a process that gives up
  at the first failure does with such a list.\<close>

definition startupCalls :: "mainFlags \<Rightarrow> mainEnv \<Rightarrow> startupCall list" where
  "startupCalls flags env =
     [GetConfig, NewManager (managerOptionsOf flags env), AddPoller, SetupNode, SetupConfig]
     @ (if meEnableWebhooks env \<noteq> ''false'' then [SetupWebhook] else [])
     @ [AddHealthz, AddReadyz, StartManager]"

fun untilFailure :: "(startupCall \<Rightarrow> bool) \<Rightarrow> startupCall list \<Rightarrow> int \<times> startupCall list" where
  "untilFailure fails [] = (0, [])"
| "untilFailure fails (c # cs) =
     (if fails c then (1, [c]) else let (status, made) = untilFailure fails cs in (status, c # made))"

lemma mainServe_eq:
  "mainServe env made =
     (let (status, more) = untilFailure (meFails env) [AddHealthz, AddReadyz, StartManager] in (status, made @ more))"
  by (simp add: mainServe_def)

lemma mainRun_eq: "mainRun flags env = untilFailure (meFails env) (startupCalls flags env)"
  by (simp add: mainRun_def mainServe_eq startupCalls_def Let_def)

lemma untilFailure_spec:
  "untilFailure fails cs = (status, made) \<Longrightarrow>
   (status = 0 \<and> made = cs \<and> (\<forall>c \<in> set cs. \<not> fails c))
   \<or> (status = 1 \<and> (\<exists>pre c post. cs = pre @ c # post \<and> made = pre @ [c] \<and> fails c \<and> (\<forall>c \<in> set pre. \<not> fails c)))"
proof (induction cs arbitrary: status made)
  case (Cons c cs)
  show ?case
  proof (cases "fails c")
    case True
    then have "status = 1" "made = [] @ [c]" using Cons.prems by simp_all
    then show ?thesis using True by (metis append_Nil empty_iff list.set(1))
  next
    case False
    obtain made' where m: "untilFailure fails cs = (status, made')" "made = c # made'"
      using Cons.prems False by (auto split: prod.splits)
    from Cons.IH [OF m(1)] show ?thesis
    proof
      assume "status = 0 \<and> made' = cs \<and> (\<forall>c \<in> set cs. \<not> fails c)"
      then show ?thesis using m False by simp
    next
      assume "status = 1 \<and> (\<exists>pre d post. cs = pre @ d # post \<and> made' = pre @ [d] \<and> fails d \<and> (\<forall>c \<in> set pre. \<not> fails c))"
      then obtain pre d post where "status = 1" "c # cs = (c # pre) @ d # post" "made = (c # pre) @ [d]" "fails d"
          "\<forall>x \<in> set (c # pre). \<not> fails x" using m False by auto
      then show ?thesis by blast
    qed
  qed
qed simp

lemma bootstrapRateLimits_pos: "0 < fst (bootstrapRateLimits client) \<and> 0 < snd (bootstrapRateLimits client)"
  using float32_err
  by (auto simp: bootstrapRateLimits_def rateLimitsFrom_def defaultClientQPS_def defaultClientBurst_def Let_def
      split: sum.splits)

lemma managerOptions_sound:
  "\<not> enableHTTP2 flags \<Longrightarrow> fold id (soTLSOpts (moMetrics (managerOptionsOf flags env))) protos = [''http/1.1'']"
  "\<not> enableHTTP2 flags \<Longrightarrow> fold id (soTLSOpts (moWebhookServer (managerOptionsOf flags env))) protos = [''http/1.1'']"
  "msSecureServing (moMetrics (managerOptionsOf flags env)) \<Longrightarrow> msAuthenticated (moMetrics (managerOptionsOf flags env))"
  by (auto simp: managerOptionsOf_def metricsServerOptions_def webhookOptions_def tlsOptsOf_def disableHTTP2_def Let_def
      split: prod.splits if_splits)

text \<open>C39. A failing call of the start ends the process with status 1 and nothing after it is
  made: the manager runs only once its configuration was read, it was built, the poller, both
  controllers, the webhook unless it is switched off, and both checks were registered, in that
  order; and the process ends with status 0 exactly when all of that and the run itself
  succeeded. The manager is never built without a positive budget for its client.\<close>

theorem startup_is_guarded:
  assumes "mainRun flags env = (status, made)"
  shows "(status = 0 \<longleftrightarrow> (\<forall>c \<in> set (startupCalls flags env). \<not> meFails env c))
    \<and> (status = 0 \<longrightarrow> made = startupCalls flags env)
    \<and> (status \<noteq> 0 \<longrightarrow> status = 1 \<and> (\<exists>pre c post. startupCalls flags env = pre @ c # post \<and> made = pre @ [c]
         \<and> meFails env c \<and> (\<forall>c \<in> set pre. \<not> meFails env c)))
    \<and> (\<forall>opts. NewManager opts \<in> set made \<longrightarrow> 0 < moQPS opts \<and> 0 < moBurst opts)"
proof -
  note spec = untilFailure_spec [OF assms [unfolded mainRun_eq]]
  have "set made \<subseteq> set (startupCalls flags env)" using spec by auto
  then have "opts = managerOptionsOf flags env" if "NewManager opts \<in> set made" for opts
    using subsetD [OF _ that] by (auto simp: startupCalls_def split: if_splits)
  moreover have "0 < moQPS (managerOptionsOf flags env) \<and> 0 < moBurst (managerOptionsOf flags env)"
    using bootstrapRateLimits_pos [of "meBootstrap env"] by (auto simp: managerOptionsOf_def split: prod.splits)
  ultimately have "\<forall>opts. NewManager opts \<in> set made \<longrightarrow> 0 < moQPS opts \<and> 0 < moBurst opts" by blast
  then show ?thesis using spec by (intro conjI) (fastforce | blast)+
qed

theorem startup_is_guarded_witness:
  "mainRun defaultFlags \<lparr>meFails = (\<lambda>c. c = SetupNode), meBootstrap = Inl ''no client'', meEnableWebhooks = ''''\<rparr> =
     (1, [GetConfig, NewManager (managerOptionsOf defaultFlags
       \<lparr>meFails = (\<lambda>c. c = SetupNode), meBootstrap = Inl ''no client'', meEnableWebhooks = ''''\<rparr>), AddPoller, SetupNode])
   \<and> \<not> (\<forall>c \<in> set (startupCalls defaultFlags
       \<lparr>meFails = (\<lambda>c. c = SetupNode), meBootstrap = Inl ''no client'', meEnableWebhooks = ''''\<rparr>). c \<noteq> SetupNode)"
proof -
  let ?env = "\<lparr>meFails = (\<lambda>c. c = SetupNode), meBootstrap = Inl ''no client'', meEnableWebhooks = ''''\<rparr>"
  have run: "mainRun defaultFlags ?env = (1, [GetConfig, NewManager (managerOptionsOf defaultFlags ?env), AddPoller, SetupNode])"
    by (simp add: mainRun_def)
  from startup_is_guarded [OF this] show ?thesis using run by simp
qed

end
