(* ===== verification/GoHeap.thy ===== *)
theory GoHeap
  imports Prelude "HOL-Library.Monad_Syntax"
begin

text \<open>
  A heap of Go: addresses with cells, allocation that only hands out new addresses, and the
  four shapes in which generated \<open>DeepCopy\<close> code copies what a field refers to: the pointee of
  a pointer, the elements of a slice one by one, a slice of plain values at once, and a
  \<open>map[string]string\<close>. The locale \<open>copier\<close> is the contract of a deep copy; it is closed
  under pointers and slices, which is what the copies of structs are built from.

  A value on the heap is read together with its footprint, the addresses it consists of; None
  is a dangling reference or a cell of the wrong type, which Go's type system rules out.
\<close>

section \<open>Heaps\<close>

type_synonym addr = nat

record 'c heap =
  hNext :: addr
  hCells :: "addr \<Rightarrow> 'c option"

definition heapOk :: "'c heap \<Rightarrow> bool" where
  "heapOk h \<longleftrightarrow> (\<forall>a. hNext h \<le> a \<longrightarrow> hCells h a = None)"

definition emptyHeap :: "'c heap" where
  "emptyHeap = \<lparr>hNext = 0, hCells = (\<lambda>a. None)\<rparr>"

definition alloc :: "'c \<Rightarrow> 'c heap \<Rightarrow> addr \<times> 'c heap" where
  "alloc c h = (hNext h, \<lparr>hNext = Suc (hNext h), hCells = (hCells h)(hNext h := Some c)\<rparr>)"

definition assign :: "addr \<Rightarrow> 'c \<Rightarrow> 'c heap \<Rightarrow> 'c heap" where
  "assign a c h = h\<lparr>hCells := (hCells h)(a := Some c)\<rparr>"

definition load :: "('c \<Rightarrow> 'v option) \<Rightarrow> 'c heap \<Rightarrow> addr \<Rightarrow> 'v option" where
  "load prj h a = do { c \<leftarrow> hCells h a; prj c }"

definition extends :: "'c heap \<Rightarrow> 'c heap \<Rightarrow> bool" where
  "extends h h' \<longleftrightarrow> (\<forall>a c. hCells h a = Some c \<longrightarrow> hCells h' a = Some c)"

named_theorems heap_simps \<open>reading after allocating and writing\<close>

lemma hCells_alloc [heap_simps]:
  "hCells (snd (alloc c h)) a = (if a = hNext h then Some c else hCells h a)" "fst (alloc c h) = hNext h"
  by (simp_all add: alloc_def)

lemma hCells_assign [heap_simps]: "hCells (assign a c h) b = (if b = a then Some c else hCells h b)"
  by (simp add: assign_def)

lemma load_eq: "load prj h a = (case hCells h a of None \<Rightarrow> None | Some c \<Rightarrow> prj c)"
  by (simp add: load_def split: option.splits)

lemma heapOk_alloc: "heapOk h \<Longrightarrow> heapOk (snd (alloc c h))"
  by (simp add: heapOk_def alloc_def)

lemma heapOk_assign: "heapOk h \<Longrightarrow> hCells h a \<noteq> None \<Longrightarrow> heapOk (assign a c h)"
  by (auto simp: heapOk_def assign_def)

lemma heapOk_empty: "heapOk emptyHeap"
  by (simp add: heapOk_def emptyHeap_def)

lemma next_free: "heapOk h \<Longrightarrow> hCells h (hNext h) = None"
  by (simp add: heapOk_def)

lemma extends_refl [simp]: "extends h h"
  by (simp add: extends_def)

lemma extends_trans: "extends h h1 \<Longrightarrow> extends h1 h2 \<Longrightarrow> extends h h2"
  by (simp add: extends_def)

lemma extends_alloc: "heapOk h \<Longrightarrow> extends h (snd (alloc c h))"
  by (auto simp: extends_def alloc_def heapOk_def)

lemma extends_assign: "extends h h' \<Longrightarrow> hCells h a = None \<Longrightarrow> extends h (assign a c h')"
  by (auto simp: extends_def assign_def)

lemma extends_dom: "extends h h' \<Longrightarrow> dom (hCells h) \<subseteq> dom (hCells h')"
  by (auto simp: extends_def)

section \<open>Deep copies\<close>

text \<open>A slice is its backing array and its length; the cell of the array may be longer, the rest
  is spare capacity.\<close>

record slice =
  slArray :: addr
  slLen :: nat

type_synonym ('c, 'v, 'a) reader = "'c heap \<Rightarrow> 'v \<Rightarrow> ('a \<times> addr set) option"
type_synonym ('c, 'v) copy = "'v \<Rightarrow> 'c heap \<Rightarrow> ('v \<times> 'c heap) option"

text \<open>In the later heap the copy reads as the value and shares no address with the earlier one.\<close>

definition fresh :: "('c, 'v, 'a) reader \<Rightarrow> 'c heap \<Rightarrow> 'v \<Rightarrow> 'a \<Rightarrow> 'c heap \<Rightarrow> bool" where
  "fresh sees h v x h' \<longleftrightarrow> heapOk h' \<and> extends h h'
     \<and> (\<exists>fp. sees h' v = Some (x, fp) \<and> fp \<inter> dom (hCells h) = {})"

lemma fresh_alloc:
  assumes "heapOk h" "sees (snd (alloc c h)) v = Some (x, {hNext h})"
  shows "fresh sees h v x (snd (alloc c h))"
  using assms next_free [OF assms(1)] by (auto simp: fresh_def heapOk_alloc extends_alloc)

lemma fresh_nil: "heapOk h \<Longrightarrow> sees h v = Some (x, {}) \<Longrightarrow> fresh sees h v x h"
  by (simp add: fresh_def)

locale copier =
  fixes sees :: "('c, 'v, 'a) reader" and deepCopy :: "('c, 'v) copy"
  assumes frame: "sees h v = Some (x, fp) \<Longrightarrow> (\<And>a. a \<in> fp \<Longrightarrow> hCells h' a = hCells h a) \<Longrightarrow> sees h' v = Some (x, fp)"
    and footprint: "sees h v = Some (x, fp) \<Longrightarrow> fp \<subseteq> dom (hCells h)"
    and copies: "heapOk h \<Longrightarrow> sees h v = Some (x, fp) \<Longrightarrow>
      \<exists>v' h'. deepCopy v h = Some (v', h') \<and> fresh sees h v' x h'"
begin

lemma sees_extends: "sees h v = Some (x, fp) \<Longrightarrow> extends h h' \<Longrightarrow> sees h' v = Some (x, fp)"
  using footprint [of h v x fp] by (auto simp: extends_def intro!: frame [of h v x fp h'])

lemma fresh_later:
  assumes "fresh sees h v x h1" "extends h1 h2" "heapOk h2"
  shows "fresh sees h v x h2"
  using assms sees_extends extends_trans unfolding fresh_def by blast

lemma fresh_earlier:
  assumes "fresh sees h1 v x h2" "extends h h1"
  shows "fresh sees h v x h2"
  using assms extends_trans extends_dom [OF assms(2)] unfolding fresh_def by blast

text \<open>A copy made in the middle of others: the value was readable at the start, and what the copy
  made is new with respect to the start.\<close>

lemma step:
  assumes "sees h v = Some (x, fp)" "heapOk h1" "extends h h1"
  obtains v' h2 where "deepCopy v h1 = Some (v', h2)" "fresh sees h v' x h2" "heapOk h2" "extends h h2" "extends h1 h2"
proof -
  obtain v' h2 where c: "deepCopy v h1 = Some (v', h2)" "fresh sees h1 v' x h2"
    using copies [OF assms(2) sees_extends [OF assms(1,3)]] by blast
  show ?thesis
    using that [OF c(1) fresh_earlier [OF c(2) assms(3)]] c(2) extends_trans [OF assms(3)] by (simp add: fresh_def)
qed

text \<open>A write to an address that was there before the copy was made, but not in the first heap.\<close>

lemma fresh_assign:
  assumes "fresh sees h0 v x h1" "extends h h0" "hCells h a = None" "hCells h0 a \<noteq> None"
  shows "fresh sees h v x (assign a c h1)"
proof -
  obtain fp where fp: "sees h1 v = Some (x, fp)" "fp \<inter> dom (hCells h0) = {}" "heapOk h1" "extends h0 h1"
    using assms(1) unfolding fresh_def by blast
  then have "a \<notin> fp" using assms(4) by auto
  then have "sees (assign a c h1) v = Some (x, fp)" by (intro frame [OF fp(1)]) (auto simp: heap_simps)
  moreover have "heapOk (assign a c h1)" using fp(3,4) assms(4) by (intro heapOk_assign) (auto simp: extends_def)
  moreover have "extends h (assign a c h1)" using extends_trans [OF assms(2) fp(4)] assms(3) by (rule extends_assign)
  ultimately show ?thesis using fp(2) extends_dom [OF assms(2)] unfolding fresh_def by blast
qed

end

section \<open>Plain values behind a reference\<close>

text \<open>\<open>*out = new(T); **out = **in\<close> for a type without references.\<close>

definition copyFlat :: "('v \<Rightarrow> 'c) \<Rightarrow> ('c \<Rightarrow> 'v option) \<Rightarrow> ('c, addr option) copy" where
  "copyFlat mk prj p h =
     (case p of
        None \<Rightarrow> Some (None, h)
      | Some a \<Rightarrow> do { v \<leftarrow> load prj h a; let (a', h) = alloc (mk v) h; Some (Some a', h) })"

definition seesFlat :: "('c \<Rightarrow> 'v option) \<Rightarrow> ('c, addr option, 'v option) reader" where
  "seesFlat prj h p =
     (case p of
        None \<Rightarrow> Some (None, {})
      | Some a \<Rightarrow> do { v \<leftarrow> load prj h a; Some (Some v, {a}) })"

text \<open>\<open>*out = make([]T, len(*in)); copy(*out, *in)\<close>.\<close>

definition copyArray :: "('v list \<Rightarrow> 'c) \<Rightarrow> ('c \<Rightarrow> 'v list option) \<Rightarrow> ('c, slice option) copy" where
  "copyArray mk prj s h =
     (case s of
        None \<Rightarrow> Some (None, h)
      | Some sl \<Rightarrow> do {
          vs \<leftarrow> load prj h (slArray sl);
          let (a', h) = alloc (mk (take (slLen sl) vs)) h;
          Some (Some \<lparr>slArray = a', slLen = slLen sl\<rparr>, h) })"

definition seesArray :: "('c \<Rightarrow> 'v list option) \<Rightarrow> ('c, slice option, 'v list option) reader" where
  "seesArray prj h s =
     (case s of
        None \<Rightarrow> Some (None, {})
      | Some sl \<Rightarrow> do {
          vs \<leftarrow> load prj h (slArray sl);
          if slLen sl \<le> length vs then Some (Some (take (slLen sl) vs), {slArray sl}) else None })"

text \<open>\<open>*out = make(map[string]string, len(*in))\<close> and the loop that fills it.\<close>

definition copyMap :: "(('k, 'v) gomap \<Rightarrow> 'c) \<Rightarrow> ('c \<Rightarrow> ('k, 'v) gomap option) \<Rightarrow> ('c, addr option) copy" where
  "copyMap mk prj p h =
     (case p of
        None \<Rightarrow> Some (None, h)
      | Some a \<Rightarrow> do {
          m \<leftarrow> load prj h a;
          let (a', h) = alloc (mk (fold (\<lambda>(key, val). mput key val) m [])) h;
          Some (Some a', h) })"

definition seesMap :: "('c \<Rightarrow> ('k, 'v) gomap option) \<Rightarrow> ('c, addr option, ('k, 'v) gomap option) reader" where
  "seesMap prj h p =
     (case p of
        None \<Rightarrow> Some (None, {})
      | Some a \<Rightarrow> do { m \<leftarrow> load prj h a; if gomap_ok m then Some (Some m, {a}) else None })"

locale flat_cell =
  fixes mk :: "'v \<Rightarrow> 'c" and prj :: "'c \<Rightarrow> 'v option"
  assumes prj_mk: "prj (mk v) = Some v"

sublocale flat_cell \<subseteq> ptr: copier "seesFlat prj" "copyFlat mk prj"
proof unfold_locales
  show "\<exists>v' h'. copyFlat mk prj p h = Some (v', h') \<and> fresh (seesFlat prj) h v' x h'"
    if ok: "heapOk h" and s: "seesFlat prj h p = Some (x, fp)" for h p x fp
  proof (cases p)
    case None
    then show ?thesis using ok s by (auto simp: copyFlat_def seesFlat_def intro!: fresh_nil)
  next
    case (Some a)
    then obtain v where v: "load prj h a = Some v" "x = Some v" using s by (auto simp: seesFlat_def bind_eq_Some_conv)
    then show ?thesis using Some prj_mk ok
      by (auto simp: copyFlat_def seesFlat_def case_prod_beta load_eq heap_simps intro!: fresh_alloc)
  qed
qed (auto simp: seesFlat_def load_def bind_eq_Some_conv split: option.splits)

locale flat_array =
  fixes mk :: "'v list \<Rightarrow> 'c" and prj :: "'c \<Rightarrow> 'v list option"
  assumes prj_mk: "prj (mk vs) = Some vs"

sublocale flat_array \<subseteq> arr: copier "seesArray prj" "copyArray mk prj"
proof unfold_locales
  show "\<exists>v' h'. copyArray mk prj s h = Some (v', h') \<and> fresh (seesArray prj) h v' x h'"
    if ok: "heapOk h" and s: "seesArray prj h s = Some (x, fp)" for h s x fp
  proof (cases s)
    case None
    then show ?thesis using ok s by (auto simp: copyArray_def seesArray_def intro!: fresh_nil)
  next
    case (Some sl)
    then obtain vs where v: "load prj h (slArray sl) = Some vs" "slLen sl \<le> length vs" "x = Some (take (slLen sl) vs)"
      using s by (auto simp: seesArray_def bind_eq_Some_conv split: if_splits)
    then show ?thesis using Some prj_mk ok
      by (auto simp: copyArray_def seesArray_def case_prod_beta load_eq heap_simps intro!: fresh_alloc)
  qed
qed (auto simp: seesArray_def load_def bind_eq_Some_conv split: option.splits if_splits)

lemma update_fresh_key: "k \<notin> fst ` set m \<Longrightarrow> mput k v m = m @ [(k, v)]"
  by (induction m) auto

lemma fold_mput: "distinct (map fst (acc @ m)) \<Longrightarrow> fold (\<lambda>(key, val). mput key val) m acc = acc @ m"
  by (induction m arbitrary: acc) (auto simp: update_fresh_key)

locale map_cell =
  fixes mk :: "('k, 'v) gomap \<Rightarrow> 'c" and prj :: "'c \<Rightarrow> ('k, 'v) gomap option"
  assumes prj_mk: "prj (mk m) = Some m"

sublocale map_cell \<subseteq> ptr: copier "seesMap prj" "copyMap mk prj"
proof unfold_locales
  show "\<exists>v' h'. copyMap mk prj p h = Some (v', h') \<and> fresh (seesMap prj) h v' x h'"
    if ok: "heapOk h" and s: "seesMap prj h p = Some (x, fp)" for h p x fp
  proof (cases p)
    case None
    then show ?thesis using ok s by (auto simp: copyMap_def seesMap_def intro!: fresh_nil)
  next
    case (Some a)
    then obtain m where m: "load prj h a = Some m" "gomap_ok m" "x = Some m"
      using s by (auto simp: seesMap_def bind_eq_Some_conv split: if_splits)
    then have "fold (\<lambda>(key, val). mput key val) m [] = m" using fold_mput [of "[]" m] by (simp add: gomap_ok_def)
    then show ?thesis using Some prj_mk ok m
      by (auto simp: copyMap_def seesMap_def case_prod_beta load_eq heap_simps intro!: fresh_alloc)
  qed
qed (auto simp: seesMap_def load_def bind_eq_Some_conv split: option.splits if_splits)

section \<open>References to values that have references\<close>

text \<open>
  \<open>*out = new(T); (*in).DeepCopyInto(*out)\<close>, and for a slice \<open>*out = make([]T, len(*in))\<close> with a
  loop of \<open>DeepCopyInto\<close> over the elements. Generated code begins every \<open>DeepCopyInto\<close> with
  \<open>*out = *in\<close>, so the new cell starts as the shallow copy; it is overwritten once the fields
  have been copied.
\<close>

definition copyPtr :: "('v \<Rightarrow> 'c) \<Rightarrow> ('c \<Rightarrow> 'v option) \<Rightarrow> ('c, 'v) copy \<Rightarrow> ('c, addr option) copy" where
  "copyPtr mk prj deepCopyInto p h =
     (case p of
        None \<Rightarrow> Some (None, h)
      | Some a \<Rightarrow> do {
          v \<leftarrow> load prj h a;
          let (a', h) = alloc (mk v) h;
          (v', h) \<leftarrow> deepCopyInto v h;
          Some (Some a', assign a' (mk v') h) })"

definition seesPtr :: "('c \<Rightarrow> 'v option) \<Rightarrow> ('c, 'v, 'a) reader \<Rightarrow> ('c, addr option, 'a option) reader" where
  "seesPtr prj sees h p =
     (case p of
        None \<Rightarrow> Some (None, {})
      | Some a \<Rightarrow> do { v \<leftarrow> load prj h a; (x, fp) \<leftarrow> sees h v; Some (Some x, insert a fp) })"

fun copyElems :: "('v list \<Rightarrow> 'c) \<Rightarrow> ('c \<Rightarrow> 'v list option) \<Rightarrow> ('c, 'v) copy \<Rightarrow> addr \<Rightarrow> addr \<Rightarrow> nat list \<Rightarrow>
    'c heap \<Rightarrow> 'c heap option" where
  "copyElems mk prj deepCopyInto src out [] h = Some h"
| "copyElems mk prj deepCopyInto src out (i # is) h = do {
     vs \<leftarrow> load prj h src;
     (v', h) \<leftarrow> (if i < length vs then deepCopyInto (vs ! i) h else None);
     ws \<leftarrow> load prj h out;
     copyElems mk prj deepCopyInto src out is (assign out (mk (ws[i := v'])) h) }"

definition copySlice :: "('v list \<Rightarrow> 'c) \<Rightarrow> ('c \<Rightarrow> 'v list option) \<Rightarrow> ('c, 'v) copy \<Rightarrow> ('c, slice option) copy" where
  "copySlice mk prj deepCopyInto s h =
     (case s of
        None \<Rightarrow> Some (None, h)
      | Some sl \<Rightarrow> do {
          vs \<leftarrow> load prj h (slArray sl);
          let (a', h) = alloc (mk (take (slLen sl) vs)) h;
          h \<leftarrow> copyElems mk prj deepCopyInto (slArray sl) a' [0..<slLen sl] h;
          Some (Some \<lparr>slArray = a', slLen = slLen sl\<rparr>, h) })"

fun seesList :: "('c, 'v, 'a) reader \<Rightarrow> ('c, 'v list, 'a list) reader" where
  "seesList sees h [] = Some ([], {})"
| "seesList sees h (v # vs) = do {
     (x, fp) \<leftarrow> sees h v;
     (xs, fps) \<leftarrow> seesList sees h vs;
     Some (x # xs, fp \<union> fps) }"

definition seesSlice :: "('c \<Rightarrow> 'v list option) \<Rightarrow> ('c, 'v, 'a) reader \<Rightarrow> ('c, slice option, 'a list option) reader" where
  "seesSlice prj sees h s =
     (case s of
        None \<Rightarrow> Some (None, {})
      | Some sl \<Rightarrow> do {
          vs \<leftarrow> load prj h (slArray sl);
          (xs, fp) \<leftarrow> (if slLen sl \<le> length vs then seesList sees h (take (slLen sl) vs) else None);
          Some (Some xs, insert (slArray sl) fp) })"

locale cell_copier = copier sees deepCopy
  for sees :: "('c, 'v, 'a) reader" and deepCopy :: "('c, 'v) copy" +
  fixes mk :: "'v \<Rightarrow> 'c" and prj :: "'c \<Rightarrow> 'v option"
  assumes prj_mk: "prj (mk v) = Some v"
begin

lemma load_frame: "load prj h a = Some v \<Longrightarrow> hCells h' a = hCells h a \<Longrightarrow> load prj h' a = Some v"
  by (simp add: load_def)

lemma copyPtr_ok:
  assumes ok: "heapOk h" and p: "load prj h a = Some v" "sees h v = Some (x, fp)"
  shows "\<exists>a' h'. copyPtr mk prj deepCopy (Some a) h = Some (Some a', h') \<and> fresh (seesPtr prj sees) h (Some a') (Some x) h'"
proof -
  let ?h1 = "snd (alloc (mk v) h)" and ?a = "hNext h"
  have "sees ?h1 v = Some (x, fp)" using p(2) extends_alloc [OF ok] by (rule sees_extends)
  then obtain v' h2 where c: "deepCopy v ?h1 = Some (v', h2)" "fresh sees ?h1 v' x h2"
    using copies [OF heapOk_alloc [OF ok]] by blast
  have "fresh sees h v' x (assign ?a (mk v') h2)"
    using ok by (intro fresh_assign [OF c(2) extends_alloc]) (simp_all add: heap_simps next_free)
  then obtain fp' where fp': "sees (assign ?a (mk v') h2) v' = Some (x, fp')" "fp' \<inter> dom (hCells h) = {}"
      "heapOk (assign ?a (mk v') h2)" "extends h (assign ?a (mk v') h2)"
    unfolding fresh_def by blast
  have "seesPtr prj sees (assign ?a (mk v') h2) (Some ?a) = Some (Some x, insert ?a fp')"
    using fp'(1) by (simp add: seesPtr_def load_def heap_simps prj_mk)
  then have "fresh (seesPtr prj sees) h (Some ?a) (Some x) (assign ?a (mk v') h2)"
    using fp'(2-4) next_free [OF ok] unfolding fresh_def by auto
  moreover have "copyPtr mk prj deepCopy (Some a) h = Some (Some ?a, assign ?a (mk v') h2)"
    using p(1) c(1) by (simp add: copyPtr_def case_prod_beta heap_simps)
  ultimately show ?thesis by blast
qed

end

sublocale cell_copier \<subseteq> ptr: copier "seesPtr prj sees" "copyPtr mk prj deepCopy"
proof unfold_locales
  show "seesPtr prj sees h' p = Some (x, fp)"
    if s: "seesPtr prj sees h p = Some (x, fp)" and agree: "\<And>a. a \<in> fp \<Longrightarrow> hCells h' a = hCells h a" for h h' p x fp
  proof (cases p)
    case (Some a)
    then obtain v y fq where v: "load prj h a = Some v" "sees h v = Some (y, fq)" "x = Some y" "fp = insert a fq"
      using s by (auto simp: seesPtr_def bind_eq_Some_conv)
    have "sees h' v = Some (y, fq)" using v(4) agree by (intro frame [OF v(2)]) simp
    moreover have "load prj h' a = Some v" using v(4) agree by (intro load_frame [OF v(1)]) simp
    ultimately show ?thesis using Some v(3,4) by (simp add: seesPtr_def)
  qed (use s in \<open>simp add: seesPtr_def\<close>)
  show "fp \<subseteq> dom (hCells h)" if s: "seesPtr prj sees h p = Some (x, fp)" for h p x fp
  proof (cases p)
    case (Some a)
    then obtain v y fq where "load prj h a = Some v" "sees h v = Some (y, fq)" "fp = insert a fq"
      using s by (auto simp: seesPtr_def bind_eq_Some_conv)
    then show ?thesis using footprint [of h v y fq] by (auto simp: load_def bind_eq_Some_conv)
  qed (use s in \<open>simp add: seesPtr_def\<close>)
  show "\<exists>v' h'. copyPtr mk prj deepCopy p h = Some (v', h') \<and> fresh (seesPtr prj sees) h v' x h'"
    if ok: "heapOk h" and s: "seesPtr prj sees h p = Some (x, fp)" for h p x fp
  proof (cases p)
    case None
    then show ?thesis using ok s by (auto simp: copyPtr_def seesPtr_def intro!: fresh_nil)
  next
    case (Some a)
    then obtain v y fq where "load prj h a = Some v" "sees h v = Some (y, fq)" "x = Some y"
      using s by (auto simp: seesPtr_def bind_eq_Some_conv)
    then show ?thesis using Some copyPtr_ok [OF ok] by blast
  qed
qed

text \<open>In a heap the value reads as expected and avoids a set of addresses.\<close>

definition apart :: "('c, 'v, 'a) reader \<Rightarrow> addr set \<Rightarrow> 'c heap \<Rightarrow> 'v \<Rightarrow> 'a \<Rightarrow> bool" where
  "apart sees D h v x \<longleftrightarrow> (\<exists>fp. sees h v = Some (x, fp) \<and> fp \<inter> D = {})"

locale slice_copier = copier sees deepCopy
  for sees :: "('c, 'v, 'a) reader" and deepCopy :: "('c, 'v) copy" +
  fixes mk :: "'v list \<Rightarrow> 'c" and prj :: "'c \<Rightarrow> 'v list option"
  assumes prj_mk: "prj (mk vs) = Some vs"
begin

lemma seesList_frame:
  "seesList sees h vs = Some (xs, fp) \<Longrightarrow> (\<And>a. a \<in> fp \<Longrightarrow> hCells h' a = hCells h a) \<Longrightarrow> seesList sees h' vs = Some (xs, fp)"
proof (induction vs arbitrary: xs fp)
  case (Cons v vs)
  then obtain x fx ys fy where v: "sees h v = Some (x, fx)" "seesList sees h vs = Some (ys, fy)" "xs = x # ys" "fp = fx \<union> fy"
    by (auto simp: bind_eq_Some_conv)
  have "sees h' v = Some (x, fx)" using v(4) Cons.prems(2) by (intro frame [OF v(1)]) simp
  moreover have "seesList sees h' vs = Some (ys, fy)" using v(4) Cons.prems(2) by (intro Cons.IH [OF v(2)]) simp
  ultimately show ?case using v(3,4) by simp
qed simp

lemma seesList_footprint: "seesList sees h vs = Some (xs, fp) \<Longrightarrow> fp \<subseteq> dom (hCells h)"
proof (induction vs arbitrary: xs fp)
  case (Cons v vs)
  then obtain x fx ys fy where v: "sees h v = Some (x, fx)" "seesList sees h vs = Some (ys, fy)" "fp = fx \<union> fy"
    by (auto simp: bind_eq_Some_conv)
  then show ?case using footprint [OF v(1)] Cons.IH [OF v(2)] by simp
qed simp

lemma seesList_nth:
  "seesList sees h vs = Some (xs, fp) \<Longrightarrow> length xs = length vs \<and> (\<forall>j < length vs. \<exists>fq. sees h (vs ! j) = Some (xs ! j, fq))"
proof (induction vs arbitrary: xs fp)
  case (Cons v vs)
  then obtain x fx ys fy where v: "sees h v = Some (x, fx)" "seesList sees h vs = Some (ys, fy)" "xs = x # ys"
    by (auto simp: bind_eq_Some_conv)
  then show ?case using Cons.IH [OF v(2)] by (auto simp: nth_Cons split: nat.splits)
qed simp

lemma seesList_apart:
  "length vs = length xs \<Longrightarrow> (\<forall>j < length vs. apart sees D h (vs ! j) (xs ! j)) \<Longrightarrow>
   \<exists>fp. seesList sees h vs = Some (xs, fp) \<and> fp \<inter> D = {}"
proof (induction vs xs rule: list_induct2)
  case (Cons v vs x xs)
  have "apart sees D h v x" using Cons.prems by force
  moreover have "\<forall>j < length vs. apart sees D h (vs ! j) (xs ! j)" using Cons.prems by force
  ultimately show ?case using Cons.IH by (fastforce simp: apart_def)
qed simp

text \<open>One iteration: the element is copied beside everything that is there and put in its place.\<close>

lemma copyElem_step:
  assumes v: "sees h0 v = Some (x, fq)" and h: "heapOk h" "extends h0 h" and a': "hCells h0 a' = None" "load prj h a' = Some ws"
  shows "\<exists>v' h1. deepCopy v h = Some (v', h1) \<and> load prj h1 a' = Some ws
    \<and> (let h2 = assign a' (mk (ws[i := v'])) h1; D = insert a' (dom (hCells h0)) in
         heapOk h2 \<and> extends h0 h2 \<and> load prj h2 a' = Some (ws[i := v']) \<and> apart sees D h2 v' x
         \<and> (\<forall>w y. apart sees D h w y \<longrightarrow> apart sees D h2 w y))"
proof -
  obtain v' h1 where c: "deepCopy v h = Some (v', h1)" "fresh sees h v' x h1"
    using copies [OF h(1) sees_extends [OF v h(2)]] by blast
  let ?h2 = "assign a' (mk (ws[i := v'])) h1" and ?D = "insert a' (dom (hCells h0))"
  have a: "hCells h a' \<noteq> None" using a'(2) by (auto simp: load_def bind_eq_Some_conv)
  have f: "heapOk h1" "extends h h1" using c(2) by (simp_all add: fresh_def)
  have l: "load prj h1 a' = Some ws" using a'(2) f(2) by (auto simp: load_def extends_def bind_eq_Some_conv)
  have ok: "heapOk ?h2" using f a by (intro heapOk_assign) (auto simp: extends_def)
  have ext: "extends h0 ?h2" using extends_trans [OF h(2) f(2)] a'(1) by (rule extends_assign)
  have D: "?D \<subseteq> dom (hCells h)" using extends_dom [OF h(2)] a by auto
  have keep: "apart sees ?D ?h2 w y" if w: "apart sees ?D h1 w y" for w y
  proof -
    obtain fp where fp: "sees h1 w = Some (y, fp)" "fp \<inter> ?D = {}" using w by (auto simp: apart_def)
    have "sees ?h2 w = Some (y, fp)" using fp(2) by (intro frame [OF fp(1)]) (auto simp: heap_simps)
    then show ?thesis using fp(2) by (auto simp: apart_def)
  qed
  have new: "apart sees ?D h1 v' x" using c(2) D unfolding apart_def fresh_def by blast
  have old: "apart sees ?D h1 w y" if "apart sees ?D h w y" for w y
    using that sees_extends f(2) unfolding apart_def by blast
  have "load prj ?h2 a' = Some (ws[i := v'])" by (simp add: load_def heap_simps prj_mk)
  then show ?thesis using c(1) l ok ext keep [OF new] keep old by (auto simp: Let_def)
qed

lemma copyElems_ok:
  assumes src: "load prj h0 a = Some vs" "length xs \<le> length vs" "\<forall>j < length xs. \<exists>fq. sees h0 (vs ! j) = Some (xs ! j, fq)"
    and a': "hCells h0 a' = None"
  shows "i \<le> length xs \<Longrightarrow> heapOk h \<Longrightarrow> extends h0 h \<Longrightarrow> load prj h a' = Some ws \<Longrightarrow> length ws = length xs \<Longrightarrow>
    (\<forall>j < i. apart sees (insert a' (dom (hCells h0))) h (ws ! j) (xs ! j)) \<Longrightarrow>
    \<exists>h' ws'. copyElems mk prj deepCopy a a' [i..<length xs] h = Some h' \<and> heapOk h' \<and> extends h0 h'
      \<and> load prj h' a' = Some ws' \<and> length ws' = length xs
      \<and> (\<forall>j < length xs. apart sees (insert a' (dom (hCells h0))) h' (ws' ! j) (xs ! j))"
proof (induction "length xs - i" arbitrary: i h ws)
  case 0
  then show ?case by auto
next
  case (Suc k)
  then have i: "i < length xs" by simp
  then have up: "[i..<length xs] = i # [Suc i..<length xs]" by (simp add: upt_conv_Cons)
  have l: "load prj h a = Some vs" using src(1) Suc.prems(3) by (auto simp: load_def extends_def bind_eq_Some_conv)
  obtain fq where "sees h0 (vs ! i) = Some (xs ! i, fq)" using src(3) i by blast
  from copyElem_step [OF this Suc.prems(2,3) a' Suc.prems(4), of i] obtain v' h1 where c:
      "deepCopy (vs ! i) h = Some (v', h1)" "load prj h1 a' = Some ws" and
    h2: "heapOk (assign a' (mk (ws[i := v'])) h1)" "extends h0 (assign a' (mk (ws[i := v'])) h1)"
      "load prj (assign a' (mk (ws[i := v'])) h1) a' = Some (ws[i := v'])"
      "apart sees (insert a' (dom (hCells h0))) (assign a' (mk (ws[i := v'])) h1) v' (xs ! i)"
      "\<forall>w y. apart sees (insert a' (dom (hCells h0))) h w y \<longrightarrow>
         apart sees (insert a' (dom (hCells h0))) (assign a' (mk (ws[i := v'])) h1) w y"
    by (auto simp: Let_def)
  have "\<forall>j < Suc i. apart sees (insert a' (dom (hCells h0))) (assign a' (mk (ws[i := v'])) h1) (ws[i := v'] ! j) (xs ! j)"
    using Suc.prems(5,6) h2(4,5) i by (auto simp: less_Suc_eq)
  with Suc.hyps(1) [of "Suc i", OF _ _ h2(1-3)] Suc.hyps(2) Suc.prems(5) i obtain h' ws' where
    "copyElems mk prj deepCopy a a' [Suc i..<length xs] (assign a' (mk (ws[i := v'])) h1) = Some h'" "heapOk h'" "extends h0 h'"
      "load prj h' a' = Some ws'" "length ws' = length xs"
      "\<forall>j < length xs. apart sees (insert a' (dom (hCells h0))) h' (ws' ! j) (xs ! j)" by force
  then show ?case using l c i src(2) by (auto simp: up)
qed

lemma copySlice_ok:
  assumes ok: "heapOk h" and s: "load prj h (slArray sl) = Some vs" "slLen sl \<le> length vs"
      "seesList sees h (take (slLen sl) vs) = Some (xs, fp)"
  shows "\<exists>sl' h'. copySlice mk prj deepCopy (Some sl) h = Some (Some sl', h')
    \<and> fresh (seesSlice prj sees) h (Some sl') (Some xs) h'"
proof -
  let ?a = "hNext h" and ?h1 = "snd (alloc (mk (take (slLen sl) vs)) h)"
  have n: "length xs = slLen sl" "\<forall>j < slLen sl. \<exists>fq. sees h (vs ! j) = Some (xs ! j, fq)"
    using seesList_nth [OF s(3)] s(2) by auto
  from copyElems_ok [OF s(1) _ _ next_free [OF ok], of xs 0 ?h1 "take (slLen sl) vs"] obtain h' ws where
    c: "copyElems mk prj deepCopy (slArray sl) ?a [0..<slLen sl] ?h1 = Some h'" "heapOk h'" "extends h h'"
      "load prj h' ?a = Some ws" "length ws = slLen sl"
      "\<forall>j < slLen sl. apart sees (insert ?a (dom (hCells h))) h' (ws ! j) (xs ! j)"
    using n s(2) heapOk_alloc [OF ok] extends_alloc [OF ok] by (auto simp: load_def heap_simps prj_mk)
  obtain fp' where fp': "seesList sees h' ws = Some (xs, fp')" "fp' \<inter> insert ?a (dom (hCells h)) = {}"
    using seesList_apart [of ws xs] c(5,6) n(1) by metis
  have "seesSlice prj sees h' (Some \<lparr>slArray = ?a, slLen = slLen sl\<rparr>) = Some (Some xs, insert ?a fp')"
    using c(4,5) fp'(1) by (simp add: seesSlice_def)
  then have "fresh (seesSlice prj sees) h (Some \<lparr>slArray = ?a, slLen = slLen sl\<rparr>) (Some xs) h'"
    using c(2,3) fp'(2) next_free [OF ok] unfolding fresh_def by auto
  moreover have "copySlice mk prj deepCopy (Some sl) h = Some (Some \<lparr>slArray = ?a, slLen = slLen sl\<rparr>, h')"
    using s(1) c(1) by (simp add: copySlice_def case_prod_beta heap_simps)
  ultimately show ?thesis by blast
qed

lemma seesSlice_SomeE:
  assumes "seesSlice prj sees h (Some sl) = Some (x, fp)"
  obtains vs xs fq where "load prj h (slArray sl) = Some vs" "slLen sl \<le> length vs"
    "seesList sees h (take (slLen sl) vs) = Some (xs, fq)" "x = Some xs" "fp = insert (slArray sl) fq"
  using assms by (auto simp: seesSlice_def bind_eq_Some_conv split: if_splits)

end

sublocale slice_copier \<subseteq> sl: copier "seesSlice prj sees" "copySlice mk prj deepCopy"
proof unfold_locales
  show "seesSlice prj sees h' s = Some (x, fp)"
    if s: "seesSlice prj sees h s = Some (x, fp)" and agree: "\<And>a. a \<in> fp \<Longrightarrow> hCells h' a = hCells h a" for h h' s x fp
  proof (cases s)
    case (Some sl)
    obtain vs xs fq where v: "load prj h (slArray sl) = Some vs" "slLen sl \<le> length vs"
      "seesList sees h (take (slLen sl) vs) = Some (xs, fq)" "x = Some xs" "fp = insert (slArray sl) fq"
      using s [unfolded Some] by (rule seesSlice_SomeE)
    have "seesList sees h' (take (slLen sl) vs) = Some (xs, fq)" using v(5) agree by (intro seesList_frame [OF v(3)]) simp
    moreover have "load prj h' (slArray sl) = Some vs" using v(1,5) agree by (simp add: load_def)
    ultimately show ?thesis using Some v(2,4,5) by (simp add: seesSlice_def)
  qed (use s in \<open>simp add: seesSlice_def\<close>)
  show "fp \<subseteq> dom (hCells h)" if s: "seesSlice prj sees h s = Some (x, fp)" for h s x fp
  proof (cases s)
    case (Some sl)
    obtain vs xs fq where v: "load prj h (slArray sl) = Some vs" "seesList sees h (take (slLen sl) vs) = Some (xs, fq)"
      "fp = insert (slArray sl) fq"
      using s [unfolded Some] by (rule seesSlice_SomeE)
    then show ?thesis using seesList_footprint [OF v(2)] by (auto simp: load_def bind_eq_Some_conv)
  qed (use s in \<open>simp add: seesSlice_def\<close>)
  show "\<exists>v' h'. copySlice mk prj deepCopy s h = Some (v', h') \<and> fresh (seesSlice prj sees) h v' x h'"
    if ok: "heapOk h" and s: "seesSlice prj sees h s = Some (x, fp)" for h s x fp
  proof (cases s)
    case None
    then show ?thesis using ok s by (auto simp: copySlice_def seesSlice_def intro!: fresh_nil)
  next
    case (Some sl)
    obtain vs xs fq where "load prj h (slArray sl) = Some vs" "slLen sl \<le> length vs"
      "seesList sees h (take (slLen sl) vs) = Some (xs, fq)" "x = Some xs"
      using s [unfolded Some] by (rule seesSlice_SomeE)
    then show ?thesis using Some copySlice_ok [OF ok] by blast
  qed
qed

section \<open>Structs\<close>

text \<open>The fields of a struct are copied one after the other. A struct whose copies and reader go
  field by field is a copier when its fields are: \<open>parts\<close> are the fields with references,
  \<open>update\<close> puts copied ones in their place and \<open>rebuild\<close> makes the value.\<close>

definition seesPair :: "('c, 'v, 'a) reader \<Rightarrow> ('c, 'w, 'b) reader \<Rightarrow> ('c, 'v \<times> 'w, 'a \<times> 'b) reader" where
  "seesPair s t h vw = do { (x, f1) \<leftarrow> s h (fst vw); (y, f2) \<leftarrow> t h (snd vw); Some ((x, y), f1 \<union> f2) }"

definition copyPair :: "('c, 'v) copy \<Rightarrow> ('c, 'w) copy \<Rightarrow> ('c, 'v \<times> 'w) copy" where
  "copyPair c d vw h = do { (v, h) \<leftarrow> c (fst vw) h; (w, h) \<leftarrow> d (snd vw) h; Some ((v, w), h) }"

lemma copier_pair:
  assumes "copier s c" "copier t d"
  shows "copier (seesPair s t) (copyPair c d)"
proof
  fix h h' vw xy fp
  assume r: "seesPair s t h vw = Some (xy, fp)"
  then obtain x f1 y f2 where e: "s h (fst vw) = Some (x, f1)" "t h (snd vw) = Some (y, f2)" "xy = (x, y)" "fp = f1 \<union> f2"
    by (auto simp: seesPair_def bind_eq_Some_conv)
  show "fp \<subseteq> dom (hCells h)" using copier.footprint [OF assms(1) e(1)] copier.footprint [OF assms(2) e(2)] e(4) by simp
  show "seesPair s t h' vw = Some (xy, fp)" if "\<And>a. a \<in> fp \<Longrightarrow> hCells h' a = hCells h a"
    using copier.frame [OF assms(1) e(1), of h'] copier.frame [OF assms(2) e(2), of h'] that e(3,4) by (simp add: seesPair_def)
  show "\<exists>v' h'. copyPair c d vw h = Some (v', h') \<and> fresh (seesPair s t) h v' xy h'" if ok: "heapOk h"
  proof -
    obtain v h1 where 1: "c (fst vw) h = Some (v, h1)" "fresh s h v x h1" "heapOk h1" "extends h h1"
      using copier.step [OF assms(1) e(1) ok extends_refl] by blast
    obtain w h2 where 2: "d (snd vw) h1 = Some (w, h2)" "fresh t h w y h2" "heapOk h2" "extends h h2" "extends h1 h2"
      using copier.step [OF assms(2) e(2) 1(3,4)] by blast
    have "fresh s h v x h2" by (rule copier.fresh_later [OF assms(1) 1(2) 2(5,3)])
    then have "fresh (seesPair s t) h (v, w) xy h2"
      using 2(2) e(3) unfolding fresh_def seesPair_def by (fastforce simp: Int_Un_distrib2)
    then show ?thesis using 1(1) 2(1) by (auto simp: copyPair_def)
  qed
qed

lemma copier_struct:
  assumes "copier s c"
    and reads: "\<And>h v. sT h v = map_option (\<lambda>(x, fp). (rebuild v x, fp)) (s h (parts v))"
    and copies: "\<And>h v. cT v h = map_option (\<lambda>(w, h). (update v w, h)) (c (parts v) h)"
    and upd: "\<And>v w. parts (update v w) = w" "\<And>v w x. rebuild (update v w) x = rebuild v x"
  shows "copier sT cT"
proof
  fix h h' v x fp
  assume "sT h v = Some (x, fp)"
  then obtain y where e: "s h (parts v) = Some (y, fp)" "x = rebuild v y" by (auto simp: reads)
  show "fp \<subseteq> dom (hCells h)" by (rule copier.footprint [OF assms(1) e(1)])
  show "sT h' v = Some (x, fp)" if "\<And>a. a \<in> fp \<Longrightarrow> hCells h' a = hCells h a"
    using copier.frame [OF assms(1) e(1), of h'] that e(2) by (simp add: reads)
  show "\<exists>v' h'. cT v h = Some (v', h') \<and> fresh sT h v' x h'" if "heapOk h"
    using copier.copies [OF assms(1) that e(1)] e(2) by (fastforce simp: copies fresh_def reads upd)
qed

end
