(* ===== verification/DeepCopies.thy ===== *)
theory DeepCopies
  imports GoHeap KubeTypes
begin

text \<open>
  The deep copies of the configuration API, \<open>api/v1alpha1/zz_generated.deepcopy.go\<close>, on a heap:
  structs hold addresses where Go has pointers, slices and maps, so that what a copy shares
  with its original is part of the model. \<open>DeepCopyInto\<close> takes the struct behind \<open>in\<close> and
  returns the one it leaves behind \<open>out\<close>. The deep copies of the vendored types the structs
  embed (\<open>ObjectMeta\<close>, \<open>ListMeta\<close>, \<open>LabelSelector\<close>, \<open>Quantity\<close>) are here as well. Every struct is
  read back as the value the rest of the development uses for it.
\<close>

section \<open>Structs with references\<close>

text \<open>A quantity refers to its decimal when it has one.\<close>

record gQuantity =
  gqI :: int64Amount
  gqDec :: "addr option"

record gWebhook =
  gwEnabled :: "addr option"
  gwInitialMultiplier :: gQuantity

record gRequirement =
  grKey :: string
  grOperator :: string
  grValues :: "slice option"

record gSelector =
  gsMatchLabels :: "addr option"
  gsMatchExpressions :: "slice option"

record gSpec =
  gpPolicy :: string
  gpDryRun :: "addr option"
  gpMinBurstFloor :: gQuantity
  gpMaxMultiplier :: gQuantity
  gpQuantum :: gQuantity
  gpDeadband :: Deadband
  gpDebouncePeriod :: int64
  gpRateLimits :: RateLimits
  gpWebhook :: gWebhook
  gpNamespaceSelector :: "addr option"
  gpExcludedNamespaces :: "slice option"
  gpExcludedOwners :: "slice option"
  gpExcludedNodeSelector :: "addr option"

record gStatus =
  gtObservedGeneration :: int64
  gtManagedPods :: int
  gtManagedNodes :: int
  gtConditions :: "slice option"

record gOwnerReference =
  goAPIVersion :: string
  goKind :: string
  goName :: string
  goUID :: string
  goController :: "addr option"
  goBlockOwnerDeletion :: "addr option"

record gFieldsV1 =
  gfRaw :: "slice option"

record gManagedFields =
  gmManager :: string
  gmOperation :: string
  gmAPIVersion :: string
  gmTime :: "addr option"
  gmFieldsType :: string
  gmFieldsV1 :: "addr option"
  gmSubresource :: string

record TypeMeta =
  tmKind :: string
  tmAPIVersion :: string

record gObjectMeta =
  gomName :: string
  gomGenerateName :: string
  gomNamespace :: string
  gomSelfLink :: string
  gomUID :: string
  gomResourceVersion :: string
  gomGeneration :: int64
  gomCreationTimestamp :: int
  gomDeletionTimestamp :: "addr option"
  gomDeletionGracePeriodSeconds :: "addr option"
  gomLabels :: "addr option"
  gomAnnotations :: "addr option"
  gomOwnerReferences :: "slice option"
  gomFinalizers :: "slice option"
  gomManagedFields :: "slice option"

record gListMeta =
  glmSelfLink :: string
  glmResourceVersion :: string
  glmContinue :: string
  glmRemainingItemCount :: "addr option"
  glmShardInfo :: "addr option"

record gConfig =
  gcTypeMeta :: TypeMeta
  gcObjectMeta :: gObjectMeta
  gcSpec :: gSpec
  gcStatus :: gStatus

record gConfigList =
  glTypeMeta :: TypeMeta
  glListMeta :: gListMeta
  glItems :: "slice option"

text \<open>The group and version the types are registered under, and the kinds that are registered.\<close>

definition PolicyProportional :: string where
  "PolicyProportional = ''Proportional''"

definition SchemeGroupVersion :: "string \<times> string" where
  "SchemeGroupVersion = (''kube-headroom.dev'', ''v1alpha1'')"

definition knownTypes :: "string list" where
  "knownTypes = [''HeadroomConfig'', ''HeadroomConfigList'']"

text \<open>What an address can hold.\<close>

datatype cell =
    BoolCell bool | IntCell int | TimeCell int | TextCell string | DecCell Dec
  | StringsCell "string list" | BytesCell "char list" | MapCell "(string, string) gomap"
  | OwnersCell "ExcludedOwner list" | ConditionsCell "Condition list" | RequirementsCell "gRequirement list"
  | ReferencesCell "gOwnerReference list" | FieldsCell gFieldsV1 | EntriesCell "gManagedFields list"
  | SelectorCell gSelector | DeadbandCell Deadband | OwnerCell ExcludedOwner | RateLimitsCell RateLimits
  | WebhookCell gWebhook | SpecCell gSpec | StatusCell gStatus | ConfigCell gConfig
  | ItemsCell "gConfig list" | ListCell gConfigList

definition boolOf where "boolOf c = (case c of BoolCell b \<Rightarrow> Some b | _ \<Rightarrow> None)"
definition intOf where "intOf c = (case c of IntCell n \<Rightarrow> Some n | _ \<Rightarrow> None)"
definition timeOf where "timeOf c = (case c of TimeCell t \<Rightarrow> Some t | _ \<Rightarrow> None)"
definition textOf where "textOf c = (case c of TextCell t \<Rightarrow> Some t | _ \<Rightarrow> None)"
definition decOf where "decOf c = (case c of DecCell d \<Rightarrow> Some d | _ \<Rightarrow> None)"
definition stringsOf where "stringsOf c = (case c of StringsCell xs \<Rightarrow> Some xs | _ \<Rightarrow> None)"
definition bytesOf where "bytesOf c = (case c of BytesCell xs \<Rightarrow> Some xs | _ \<Rightarrow> None)"
definition mapOf where "mapOf c = (case c of MapCell m \<Rightarrow> Some m | _ \<Rightarrow> None)"
definition ownersOf where "ownersOf c = (case c of OwnersCell xs \<Rightarrow> Some xs | _ \<Rightarrow> None)"
definition conditionsOf where "conditionsOf c = (case c of ConditionsCell xs \<Rightarrow> Some xs | _ \<Rightarrow> None)"
definition requirementsOf where "requirementsOf c = (case c of RequirementsCell xs \<Rightarrow> Some xs | _ \<Rightarrow> None)"
definition referencesOf where "referencesOf c = (case c of ReferencesCell xs \<Rightarrow> Some xs | _ \<Rightarrow> None)"
definition fieldsOf where "fieldsOf c = (case c of FieldsCell f \<Rightarrow> Some f | _ \<Rightarrow> None)"
definition entriesOf where "entriesOf c = (case c of EntriesCell xs \<Rightarrow> Some xs | _ \<Rightarrow> None)"
definition selectorOf where "selectorOf c = (case c of SelectorCell s \<Rightarrow> Some s | _ \<Rightarrow> None)"
definition deadbandOf where "deadbandOf c = (case c of DeadbandCell d \<Rightarrow> Some d | _ \<Rightarrow> None)"
definition ownerOf where "ownerOf c = (case c of OwnerCell eo \<Rightarrow> Some eo | _ \<Rightarrow> None)"
definition rateLimitsOf where "rateLimitsOf c = (case c of RateLimitsCell r \<Rightarrow> Some r | _ \<Rightarrow> None)"
definition webhookOf where "webhookOf c = (case c of WebhookCell w \<Rightarrow> Some w | _ \<Rightarrow> None)"
definition specOf where "specOf c = (case c of SpecCell s \<Rightarrow> Some s | _ \<Rightarrow> None)"
definition statusOf where "statusOf c = (case c of StatusCell s \<Rightarrow> Some s | _ \<Rightarrow> None)"
definition configOf where "configOf c = (case c of ConfigCell x \<Rightarrow> Some x | _ \<Rightarrow> None)"
definition itemsOf where "itemsOf c = (case c of ItemsCell xs \<Rightarrow> Some xs | _ \<Rightarrow> None)"
definition listOf where "listOf c = (case c of ListCell l \<Rightarrow> Some l | _ \<Rightarrow> None)"

lemmas cell_defs = boolOf_def intOf_def timeOf_def textOf_def decOf_def stringsOf_def bytesOf_def mapOf_def ownersOf_def
  conditionsOf_def requirementsOf_def referencesOf_def fieldsOf_def entriesOf_def selectorOf_def deadbandOf_def ownerOf_def
  rateLimitsOf_def webhookOf_def specOf_def statusOf_def configOf_def itemsOf_def listOf_def

interpretation bools: flat_cell BoolCell boolOf
  by unfold_locales (simp add: boolOf_def)

interpretation ints: flat_cell IntCell intOf
  by unfold_locales (simp add: intOf_def)

interpretation times: flat_cell TimeCell timeOf
  by unfold_locales (simp add: timeOf_def)

interpretation texts: flat_cell TextCell textOf
  by unfold_locales (simp add: textOf_def)

interpretation decs: flat_cell DecCell decOf
  by unfold_locales (simp add: decOf_def)

interpretation strings: flat_array StringsCell stringsOf
  by unfold_locales (simp add: stringsOf_def)

interpretation bytes: flat_array BytesCell bytesOf
  by unfold_locales (simp add: bytesOf_def)

interpretation owners: flat_array OwnersCell ownersOf
  by unfold_locales (simp add: ownersOf_def)

interpretation maps: map_cell MapCell mapOf
  by unfold_locales (simp add: mapOf_def)

section \<open>Copies of the vendored types\<close>

definition Quantity_DeepCopy :: "(cell, gQuantity) copy" where
  "Quantity_DeepCopy q h = do { (d, h) \<leftarrow> copyFlat DecCell decOf (gqDec q) h; Some (q\<lparr>gqDec := d\<rparr>, h) }"

definition Condition_DeepCopyInto :: "(cell, Condition) copy" where
  "Condition_DeepCopyInto c h = Some (c, h)"

definition LabelSelectorRequirement_DeepCopyInto :: "(cell, gRequirement) copy" where
  "LabelSelectorRequirement_DeepCopyInto r h = do {
     (vs, h) \<leftarrow> copyArray StringsCell stringsOf (grValues r) h;
     Some (r\<lparr>grValues := vs\<rparr>, h) }"

definition LabelSelector_DeepCopyInto :: "(cell, gSelector) copy" where
  "LabelSelector_DeepCopyInto s h = do {
     (ls, h) \<leftarrow> copyMap MapCell mapOf (gsMatchLabels s) h;
     (es, h) \<leftarrow> copySlice RequirementsCell requirementsOf LabelSelectorRequirement_DeepCopyInto (gsMatchExpressions s) h;
     Some (s\<lparr>gsMatchLabels := ls, gsMatchExpressions := es\<rparr>, h) }"

definition OwnerReference_DeepCopyInto :: "(cell, gOwnerReference) copy" where
  "OwnerReference_DeepCopyInto r h = do {
     (c, h) \<leftarrow> copyFlat BoolCell boolOf (goController r) h;
     (b, h) \<leftarrow> copyFlat BoolCell boolOf (goBlockOwnerDeletion r) h;
     Some (r\<lparr>goController := c, goBlockOwnerDeletion := b\<rparr>, h) }"

definition FieldsV1_DeepCopyInto :: "(cell, gFieldsV1) copy" where
  "FieldsV1_DeepCopyInto f h = do {
     (raw, h) \<leftarrow> copyArray BytesCell bytesOf (gfRaw f) h;
     Some (f\<lparr>gfRaw := raw\<rparr>, h) }"

definition ManagedFieldsEntry_DeepCopyInto :: "(cell, gManagedFields) copy" where
  "ManagedFieldsEntry_DeepCopyInto e h = do {
     (t, h) \<leftarrow> copyFlat TimeCell timeOf (gmTime e) h;
     (f, h) \<leftarrow> copyPtr FieldsCell fieldsOf FieldsV1_DeepCopyInto (gmFieldsV1 e) h;
     Some (e\<lparr>gmTime := t, gmFieldsV1 := f\<rparr>, h) }"

definition ObjectMeta_DeepCopyInto :: "(cell, gObjectMeta) copy" where
  "ObjectMeta_DeepCopyInto m h = do {
     (deleted, h) \<leftarrow> copyFlat TimeCell timeOf (gomDeletionTimestamp m) h;
     (grace, h) \<leftarrow> copyFlat IntCell intOf (gomDeletionGracePeriodSeconds m) h;
     (labels, h) \<leftarrow> copyMap MapCell mapOf (gomLabels m) h;
     (annotations, h) \<leftarrow> copyMap MapCell mapOf (gomAnnotations m) h;
     (refs, h) \<leftarrow> copySlice ReferencesCell referencesOf OwnerReference_DeepCopyInto (gomOwnerReferences m) h;
     (finalizers, h) \<leftarrow> copyArray StringsCell stringsOf (gomFinalizers m) h;
     (entries, h) \<leftarrow> copySlice EntriesCell entriesOf ManagedFieldsEntry_DeepCopyInto (gomManagedFields m) h;
     Some (m\<lparr>gomDeletionTimestamp := deleted, gomDeletionGracePeriodSeconds := grace, gomLabels := labels,
             gomAnnotations := annotations, gomOwnerReferences := refs, gomFinalizers := finalizers,
             gomManagedFields := entries\<rparr>, h) }"

definition ListMeta_DeepCopyInto :: "(cell, gListMeta) copy" where
  "ListMeta_DeepCopyInto m h = do {
     (n, h) \<leftarrow> copyFlat IntCell intOf (glmRemainingItemCount m) h;
     (s, h) \<leftarrow> copyFlat TextCell textOf (glmShardInfo m) h;
     Some (m\<lparr>glmRemainingItemCount := n, glmShardInfo := s\<rparr>, h) }"

section \<open>Copies of the configuration API\<close>

definition Deadband_DeepCopyInto :: "(cell, Deadband) copy" where
  "Deadband_DeepCopyInto d h = Some (d, h)"

definition Deadband_DeepCopy :: "(cell, addr option) copy" where
  "Deadband_DeepCopy = copyPtr DeadbandCell deadbandOf Deadband_DeepCopyInto"

definition ExcludedOwner_DeepCopyInto :: "(cell, ExcludedOwner) copy" where
  "ExcludedOwner_DeepCopyInto eo h = Some (eo, h)"

definition ExcludedOwner_DeepCopy :: "(cell, addr option) copy" where
  "ExcludedOwner_DeepCopy = copyPtr OwnerCell ownerOf ExcludedOwner_DeepCopyInto"

definition RateLimits_DeepCopyInto :: "(cell, RateLimits) copy" where
  "RateLimits_DeepCopyInto r h = Some (r, h)"

definition RateLimits_DeepCopy :: "(cell, addr option) copy" where
  "RateLimits_DeepCopy = copyPtr RateLimitsCell rateLimitsOf RateLimits_DeepCopyInto"

definition Webhook_DeepCopyInto :: "(cell, gWebhook) copy" where
  "Webhook_DeepCopyInto w h = do {
     (enabled, h) \<leftarrow> copyFlat BoolCell boolOf (gwEnabled w) h;
     (multiplier, h) \<leftarrow> Quantity_DeepCopy (gwInitialMultiplier w) h;
     Some (w\<lparr>gwEnabled := enabled, gwInitialMultiplier := multiplier\<rparr>, h) }"

definition Webhook_DeepCopy :: "(cell, addr option) copy" where
  "Webhook_DeepCopy = copyPtr WebhookCell webhookOf Webhook_DeepCopyInto"

definition HeadroomConfigSpec_DeepCopyInto :: "(cell, gSpec) copy" where
  "HeadroomConfigSpec_DeepCopyInto s h = do {
     (dryRun, h) \<leftarrow> copyFlat BoolCell boolOf (gpDryRun s) h;
     (floor, h) \<leftarrow> Quantity_DeepCopy (gpMinBurstFloor s) h;
     (multiplier, h) \<leftarrow> Quantity_DeepCopy (gpMaxMultiplier s) h;
     (quantum, h) \<leftarrow> Quantity_DeepCopy (gpQuantum s) h;
     (webhook, h) \<leftarrow> Webhook_DeepCopyInto (gpWebhook s) h;
     (namespaceSelector, h) \<leftarrow> copyPtr SelectorCell selectorOf LabelSelector_DeepCopyInto (gpNamespaceSelector s) h;
     (namespaces, h) \<leftarrow> copyArray StringsCell stringsOf (gpExcludedNamespaces s) h;
     (owners, h) \<leftarrow> copyArray OwnersCell ownersOf (gpExcludedOwners s) h;
     (nodeSelector, h) \<leftarrow> copyPtr SelectorCell selectorOf LabelSelector_DeepCopyInto (gpExcludedNodeSelector s) h;
     Some (s\<lparr>gpDryRun := dryRun, gpMinBurstFloor := floor, gpMaxMultiplier := multiplier, gpQuantum := quantum,
             gpWebhook := webhook, gpNamespaceSelector := namespaceSelector, gpExcludedNamespaces := namespaces,
             gpExcludedOwners := owners, gpExcludedNodeSelector := nodeSelector\<rparr>, h) }"

definition HeadroomConfigSpec_DeepCopy :: "(cell, addr option) copy" where
  "HeadroomConfigSpec_DeepCopy = copyPtr SpecCell specOf HeadroomConfigSpec_DeepCopyInto"

definition HeadroomConfigStatus_DeepCopyInto :: "(cell, gStatus) copy" where
  "HeadroomConfigStatus_DeepCopyInto s h = do {
     (cs, h) \<leftarrow> copySlice ConditionsCell conditionsOf Condition_DeepCopyInto (gtConditions s) h;
     Some (s\<lparr>gtConditions := cs\<rparr>, h) }"

definition HeadroomConfigStatus_DeepCopy :: "(cell, addr option) copy" where
  "HeadroomConfigStatus_DeepCopy = copyPtr StatusCell statusOf HeadroomConfigStatus_DeepCopyInto"

definition HeadroomConfig_DeepCopyInto :: "(cell, gConfig) copy" where
  "HeadroomConfig_DeepCopyInto c h = do {
     (meta, h) \<leftarrow> ObjectMeta_DeepCopyInto (gcObjectMeta c) h;
     (spec, h) \<leftarrow> HeadroomConfigSpec_DeepCopyInto (gcSpec c) h;
     (status, h) \<leftarrow> HeadroomConfigStatus_DeepCopyInto (gcStatus c) h;
     Some (c\<lparr>gcObjectMeta := meta, gcSpec := spec, gcStatus := status\<rparr>, h) }"

definition HeadroomConfig_DeepCopy :: "(cell, addr option) copy" where
  "HeadroomConfig_DeepCopy = copyPtr ConfigCell configOf HeadroomConfig_DeepCopyInto"

definition HeadroomConfigList_DeepCopyInto :: "(cell, gConfigList) copy" where
  "HeadroomConfigList_DeepCopyInto l h = do {
     (meta, h) \<leftarrow> ListMeta_DeepCopyInto (glListMeta l) h;
     (items, h) \<leftarrow> copySlice ItemsCell itemsOf HeadroomConfig_DeepCopyInto (glItems l) h;
     Some (l\<lparr>glListMeta := meta, glItems := items\<rparr>, h) }"

definition HeadroomConfigList_DeepCopy :: "(cell, addr option) copy" where
  "HeadroomConfigList_DeepCopy = copyPtr ListCell listOf HeadroomConfigList_DeepCopyInto"

text \<open>A \<open>runtime.Object\<close> is nil or a type with a pointer; a nil pointer with a type is not the nil
  interface.\<close>

datatype objectType = ConfigType | ConfigListType

type_synonym runtimeObject = "(objectType \<times> addr option) option"

definition HeadroomConfig_DeepCopyObject :: "addr option \<Rightarrow> cell heap \<Rightarrow> (runtimeObject \<times> cell heap) option" where
  "HeadroomConfig_DeepCopyObject p h = do {
     (c, h) \<leftarrow> HeadroomConfig_DeepCopy p h;
     Some (if c \<noteq> None then Some (ConfigType, c) else None, h) }"

definition HeadroomConfigList_DeepCopyObject :: "addr option \<Rightarrow> cell heap \<Rightarrow> (runtimeObject \<times> cell heap) option" where
  "HeadroomConfigList_DeepCopyObject p h = do {
     (c, h) \<leftarrow> HeadroomConfigList_DeepCopy p h;
     Some (if c \<noteq> None then Some (ConfigListType, c) else None, h) }"

section \<open>The values behind the references\<close>

definition listOrNil :: "'a list option \<Rightarrow> 'a list" where
  "listOrNil xs = (case xs of None \<Rightarrow> [] | Some xs \<Rightarrow> xs)"

definition seesPlain :: "(cell, 'v, 'v) reader" where
  "seesPlain h v = Some (v, {})"

definition seesQuantity :: "(cell, gQuantity, Quantity) reader" where
  "seesQuantity h q = do {
     (d, fp) \<leftarrow> seesFlat decOf h (gqDec q);
     Some (case d of None \<Rightarrow> IntQ (gqI q) | Some d \<Rightarrow> DecQ d, fp) }"

definition seesRequirement :: "(cell, gRequirement, LabelSelectorRequirement) reader" where
  "seesRequirement h r = do {
     (vs, fp) \<leftarrow> seesArray stringsOf h (grValues r);
     Some (\<lparr>selKey = grKey r, selOperator = grOperator r, selValues = listOrNil vs\<rparr>, fp) }"

definition seesSelector :: "(cell, gSelector, LabelSelector) reader" where
  "seesSelector h s = do {
     (ls, f1) \<leftarrow> seesMap mapOf h (gsMatchLabels s);
     (es, f2) \<leftarrow> seesSlice requirementsOf seesRequirement h (gsMatchExpressions s);
     Some (\<lparr>MatchLabels = listOrNil ls, MatchExpressions = listOrNil es\<rparr>, f1 \<union> f2) }"

definition seesWebhook :: "(cell, gWebhook, Webhook) reader" where
  "seesWebhook h w = do {
     (e, f1) \<leftarrow> seesFlat boolOf h (gwEnabled w);
     (q, f2) \<leftarrow> seesQuantity h (gwInitialMultiplier w);
     Some (\<lparr>whEnabled = e, whInitialMultiplier = q\<rparr>, f1 \<union> f2) }"

definition seesSpec :: "(cell, gSpec, HeadroomConfigSpec) reader" where
  "seesSpec h s = do {
     (d, f1) \<leftarrow> seesFlat boolOf h (gpDryRun s);
     (q1, f2) \<leftarrow> seesQuantity h (gpMinBurstFloor s);
     (q2, f3) \<leftarrow> seesQuantity h (gpMaxMultiplier s);
     (q3, f4) \<leftarrow> seesQuantity h (gpQuantum s);
     (w, f5) \<leftarrow> seesWebhook h (gpWebhook s);
     (ns, f6) \<leftarrow> seesPtr selectorOf seesSelector h (gpNamespaceSelector s);
     (en, f7) \<leftarrow> seesArray stringsOf h (gpExcludedNamespaces s);
     (eo, f8) \<leftarrow> seesArray ownersOf h (gpExcludedOwners s);
     (xs, f9) \<leftarrow> seesPtr selectorOf seesSelector h (gpExcludedNodeSelector s);
     Some (\<lparr>specPolicy = gpPolicy s, specDryRun = d, specMinBurstFloor = q1, specMaxMultiplier = q2, specQuantum = q3,
             specDeadband = gpDeadband s, specDebouncePeriod = gpDebouncePeriod s, specRateLimits = gpRateLimits s,
             specWebhook = w, specNamespaceSelector = ns, specExcludedNamespaces = listOrNil en,
             specExcludedOwners = listOrNil eo, specExcludedNodeSelector = xs\<rparr>,
           f1 \<union> f2 \<union> f3 \<union> f4 \<union> f5 \<union> f6 \<union> f7 \<union> f8 \<union> f9) }"

definition seesStatus :: "(cell, gStatus, HeadroomConfigStatus) reader" where
  "seesStatus h s = do {
     (cs, fp) \<leftarrow> seesSlice conditionsOf seesPlain h (gtConditions s);
     Some (\<lparr>stObservedGeneration = gtObservedGeneration s, stManagedPods = gtManagedPods s,
             stManagedNodes = gtManagedNodes s, stConditions = listOrNil cs\<rparr>, fp) }"

definition seesReference :: "(cell, gOwnerReference, OwnerReference) reader" where
  "seesReference h r = do {
     (c, f1) \<leftarrow> seesFlat boolOf h (goController r);
     (b, f2) \<leftarrow> seesFlat boolOf h (goBlockOwnerDeletion r);
     Some (\<lparr>refAPIVersion = goAPIVersion r, refKind = goKind r, refName = goName r, refUID = goUID r,
             refController = c, refBlockOwnerDeletion = b\<rparr>, f1 \<union> f2) }"

record ManagedFieldsEntry =
  mfManager :: string
  mfOperation :: string
  mfAPIVersion :: string
  mfTime :: "int option"
  mfFieldsType :: string
  mfFieldsV1 :: "string option"
  mfSubresource :: string

record ObjectMeta =
  omName :: string
  omGenerateName :: string
  omNamespace :: string
  omSelfLink :: string
  omUID :: string
  omResourceVersion :: string
  omGeneration :: int64
  omCreationTimestamp :: int
  omDeletionTimestamp :: "int option"
  omDeletionGracePeriodSeconds :: "int option"
  omLabels :: "(string, string) gomap"
  omAnnotations :: "(string, string) gomap"
  omOwnerReferences :: "OwnerReference list"
  omFinalizers :: "string list"
  omManagedFields :: "ManagedFieldsEntry list"

record ListMeta =
  lmSelfLink :: string
  lmResourceVersion :: string
  lmContinue :: string
  lmRemainingItemCount :: "int option"
  lmShardInfo :: "string option"

record configObject =
  coTypeMeta :: TypeMeta
  coObjectMeta :: ObjectMeta
  coConfig :: HeadroomConfig

record configListObject =
  cloTypeMeta :: TypeMeta
  cloListMeta :: ListMeta
  cloItems :: "configObject list"

definition seesFields :: "(cell, gFieldsV1, string) reader" where
  "seesFields h f = do { (raw, fp) \<leftarrow> seesArray bytesOf h (gfRaw f); Some (listOrNil raw, fp) }"

definition seesEntry :: "(cell, gManagedFields, ManagedFieldsEntry) reader" where
  "seesEntry h e = do {
     (t, f1) \<leftarrow> seesFlat timeOf h (gmTime e);
     (f, f2) \<leftarrow> seesPtr fieldsOf seesFields h (gmFieldsV1 e);
     Some (\<lparr>mfManager = gmManager e, mfOperation = gmOperation e, mfAPIVersion = gmAPIVersion e, mfTime = t,
             mfFieldsType = gmFieldsType e, mfFieldsV1 = f, mfSubresource = gmSubresource e\<rparr>, f1 \<union> f2) }"

definition seesMeta :: "(cell, gObjectMeta, ObjectMeta) reader" where
  "seesMeta h m = do {
     (d, f1) \<leftarrow> seesFlat timeOf h (gomDeletionTimestamp m);
     (g, f2) \<leftarrow> seesFlat intOf h (gomDeletionGracePeriodSeconds m);
     (ls, f3) \<leftarrow> seesMap mapOf h (gomLabels m);
     (as, f4) \<leftarrow> seesMap mapOf h (gomAnnotations m);
     (rs, f5) \<leftarrow> seesSlice referencesOf seesReference h (gomOwnerReferences m);
     (fs, f6) \<leftarrow> seesArray stringsOf h (gomFinalizers m);
     (es, f7) \<leftarrow> seesSlice entriesOf seesEntry h (gomManagedFields m);
     Some (\<lparr>omName = gomName m, omGenerateName = gomGenerateName m, omNamespace = gomNamespace m,
             omSelfLink = gomSelfLink m, omUID = gomUID m, omResourceVersion = gomResourceVersion m,
             omGeneration = gomGeneration m, omCreationTimestamp = gomCreationTimestamp m, omDeletionTimestamp = d,
             omDeletionGracePeriodSeconds = g, omLabels = listOrNil ls, omAnnotations = listOrNil as,
             omOwnerReferences = listOrNil rs, omFinalizers = listOrNil fs, omManagedFields = listOrNil es\<rparr>,
           f1 \<union> f2 \<union> f3 \<union> f4 \<union> f5 \<union> f6 \<union> f7) }"

definition seesListMeta :: "(cell, gListMeta, ListMeta) reader" where
  "seesListMeta h m = do {
     (n, f1) \<leftarrow> seesFlat intOf h (glmRemainingItemCount m);
     (s, f2) \<leftarrow> seesFlat textOf h (glmShardInfo m);
     Some (\<lparr>lmSelfLink = glmSelfLink m, lmResourceVersion = glmResourceVersion m, lmContinue = glmContinue m,
             lmRemainingItemCount = n, lmShardInfo = s\<rparr>, f1 \<union> f2) }"

definition seesConfig :: "(cell, gConfig, configObject) reader" where
  "seesConfig h c = do {
     (m, f1) \<leftarrow> seesMeta h (gcObjectMeta c);
     (s, f2) \<leftarrow> seesSpec h (gcSpec c);
     (t, f3) \<leftarrow> seesStatus h (gcStatus c);
     Some (\<lparr>coTypeMeta = gcTypeMeta c, coObjectMeta = m,
             coConfig = \<lparr>hcGeneration = omGeneration m, hcSpec = s, hcStatus = t\<rparr>\<rparr>, f1 \<union> f2 \<union> f3) }"

definition seesConfigList :: "(cell, gConfigList, configListObject) reader" where
  "seesConfigList h l = do {
     (m, f1) \<leftarrow> seesListMeta h (glListMeta l);
     (xs, f2) \<leftarrow> seesSlice itemsOf seesConfig h (glItems l);
     Some (\<lparr>cloTypeMeta = glTypeMeta l, cloListMeta = m, cloItems = listOrNil xs\<rparr>, f1 \<union> f2) }"

section \<open>Every copy is deep\<close>

lemma map_option_bind: "map_option f m = Option.bind m (\<lambda>x. Some (f x))"
  by (cases m) auto

lemmas struct_simps = seesPair_def copyPair_def map_option_bind bind_assoc Un_assoc case_prod_beta'

interpretation quantity: copier seesQuantity Quantity_DeepCopy
  by (rule copier_struct [where parts = gqDec and update = "\<lambda>q d. q\<lparr>gqDec := d\<rparr>"
        and rebuild = "\<lambda>q d. case d of None \<Rightarrow> IntQ (gqI q) | Some d \<Rightarrow> DecQ d", OF decs.ptr.copier_axioms])
    (simp_all add: seesQuantity_def Quantity_DeepCopy_def struct_simps split: option.split)

interpretation condition: slice_copier seesPlain Condition_DeepCopyInto ConditionsCell conditionsOf
  by (intro slice_copier.intro slice_copier_axioms.intro copier.intro)
    (auto simp: seesPlain_def Condition_DeepCopyInto_def fresh_def conditionsOf_def)

interpretation requirement: slice_copier seesRequirement LabelSelectorRequirement_DeepCopyInto RequirementsCell requirementsOf
proof (intro slice_copier.intro slice_copier_axioms.intro)
  show "copier seesRequirement LabelSelectorRequirement_DeepCopyInto"
    by (rule copier_struct [where parts = grValues and update = "\<lambda>r vs. r\<lparr>grValues := vs\<rparr>"
          and rebuild = "\<lambda>r vs. \<lparr>selKey = grKey r, selOperator = grOperator r, selValues = listOrNil vs\<rparr>",
          OF strings.arr.copier_axioms])
      (simp_all add: seesRequirement_def LabelSelectorRequirement_DeepCopyInto_def struct_simps)
qed (simp add: requirementsOf_def)

interpretation selector: cell_copier seesSelector LabelSelector_DeepCopyInto SelectorCell selectorOf
proof (intro cell_copier.intro cell_copier_axioms.intro)
  show "copier seesSelector LabelSelector_DeepCopyInto"
    by (rule copier_struct [where parts = "\<lambda>s. (gsMatchLabels s, gsMatchExpressions s)"
          and update = "\<lambda>s (ls, es). s\<lparr>gsMatchLabels := ls, gsMatchExpressions := es\<rparr>"
          and rebuild = "\<lambda>s (ls, es). \<lparr>MatchLabels = listOrNil ls, MatchExpressions = listOrNil es\<rparr>",
          OF copier_pair [OF maps.ptr.copier_axioms requirement.sl.copier_axioms]])
      (simp_all add: seesSelector_def LabelSelector_DeepCopyInto_def struct_simps)
qed (simp add: selectorOf_def)

interpretation webhook: cell_copier seesWebhook Webhook_DeepCopyInto WebhookCell webhookOf
proof (intro cell_copier.intro cell_copier_axioms.intro)
  show "copier seesWebhook Webhook_DeepCopyInto"
    by (rule copier_struct [where parts = "\<lambda>w. (gwEnabled w, gwInitialMultiplier w)"
          and update = "\<lambda>w (e, q). w\<lparr>gwEnabled := e, gwInitialMultiplier := q\<rparr>"
          and rebuild = "\<lambda>w (e, q). \<lparr>whEnabled = e, whInitialMultiplier = q\<rparr>",
          OF copier_pair [OF bools.ptr.copier_axioms quantity.copier_axioms]])
      (simp_all add: seesWebhook_def Webhook_DeepCopyInto_def struct_simps)
qed (simp add: webhookOf_def)

lemmas spec_fields = copier_pair [OF bools.ptr.copier_axioms
  copier_pair [OF quantity.copier_axioms copier_pair [OF quantity.copier_axioms
  copier_pair [OF quantity.copier_axioms copier_pair [OF webhook.copier_axioms
  copier_pair [OF selector.ptr.copier_axioms copier_pair [OF strings.arr.copier_axioms
  copier_pair [OF owners.arr.copier_axioms selector.ptr.copier_axioms]]]]]]]]

interpretation spec: cell_copier seesSpec HeadroomConfigSpec_DeepCopyInto SpecCell specOf
proof (intro cell_copier.intro cell_copier_axioms.intro)
  show "copier seesSpec HeadroomConfigSpec_DeepCopyInto"
    by (rule copier_struct [where parts = "\<lambda>s. (gpDryRun s, gpMinBurstFloor s, gpMaxMultiplier s, gpQuantum s, gpWebhook s,
            gpNamespaceSelector s, gpExcludedNamespaces s, gpExcludedOwners s, gpExcludedNodeSelector s)"
          and update = "\<lambda>s (d, q1, q2, q3, w, ns, en, eo, xs). s\<lparr>gpDryRun := d, gpMinBurstFloor := q1, gpMaxMultiplier := q2,
            gpQuantum := q3, gpWebhook := w, gpNamespaceSelector := ns, gpExcludedNamespaces := en, gpExcludedOwners := eo,
            gpExcludedNodeSelector := xs\<rparr>"
          and rebuild = "\<lambda>s (d, q1, q2, q3, w, ns, en, eo, xs). \<lparr>specPolicy = gpPolicy s, specDryRun = d,
            specMinBurstFloor = q1, specMaxMultiplier = q2, specQuantum = q3, specDeadband = gpDeadband s,
            specDebouncePeriod = gpDebouncePeriod s, specRateLimits = gpRateLimits s, specWebhook = w,
            specNamespaceSelector = ns, specExcludedNamespaces = listOrNil en, specExcludedOwners = listOrNil eo,
            specExcludedNodeSelector = xs\<rparr>", OF spec_fields])
      (simp_all add: seesSpec_def HeadroomConfigSpec_DeepCopyInto_def struct_simps)
qed (simp add: specOf_def)

interpretation status: cell_copier seesStatus HeadroomConfigStatus_DeepCopyInto StatusCell statusOf
proof (intro cell_copier.intro cell_copier_axioms.intro)
  show "copier seesStatus HeadroomConfigStatus_DeepCopyInto"
    by (rule copier_struct [where parts = gtConditions and update = "\<lambda>s cs. s\<lparr>gtConditions := cs\<rparr>"
          and rebuild = "\<lambda>s cs. \<lparr>stObservedGeneration = gtObservedGeneration s, stManagedPods = gtManagedPods s,
            stManagedNodes = gtManagedNodes s, stConditions = listOrNil cs\<rparr>", OF condition.sl.copier_axioms])
      (simp_all add: seesStatus_def HeadroomConfigStatus_DeepCopyInto_def struct_simps)
qed (simp add: statusOf_def)

interpretation reference: slice_copier seesReference OwnerReference_DeepCopyInto ReferencesCell referencesOf
proof (intro slice_copier.intro slice_copier_axioms.intro)
  show "copier seesReference OwnerReference_DeepCopyInto"
    by (rule copier_struct [where parts = "\<lambda>r. (goController r, goBlockOwnerDeletion r)"
          and update = "\<lambda>r (c, b). r\<lparr>goController := c, goBlockOwnerDeletion := b\<rparr>"
          and rebuild = "\<lambda>r (c, b). \<lparr>refAPIVersion = goAPIVersion r, refKind = goKind r, refName = goName r, refUID = goUID r,
            refController = c, refBlockOwnerDeletion = b\<rparr>",
          OF copier_pair [OF bools.ptr.copier_axioms bools.ptr.copier_axioms]])
      (simp_all add: seesReference_def OwnerReference_DeepCopyInto_def struct_simps)
qed (simp add: referencesOf_def)

interpretation fields: cell_copier seesFields FieldsV1_DeepCopyInto FieldsCell fieldsOf
proof (intro cell_copier.intro cell_copier_axioms.intro)
  show "copier seesFields FieldsV1_DeepCopyInto"
    by (rule copier_struct [where parts = gfRaw and update = "\<lambda>f raw. f\<lparr>gfRaw := raw\<rparr>"
          and rebuild = "\<lambda>f raw. listOrNil raw", OF bytes.arr.copier_axioms])
      (simp_all add: seesFields_def FieldsV1_DeepCopyInto_def struct_simps)
qed (simp add: fieldsOf_def)

interpretation entry: slice_copier seesEntry ManagedFieldsEntry_DeepCopyInto EntriesCell entriesOf
proof (intro slice_copier.intro slice_copier_axioms.intro)
  show "copier seesEntry ManagedFieldsEntry_DeepCopyInto"
    by (rule copier_struct [where parts = "\<lambda>e. (gmTime e, gmFieldsV1 e)"
          and update = "\<lambda>e (t, f). e\<lparr>gmTime := t, gmFieldsV1 := f\<rparr>"
          and rebuild = "\<lambda>e (t, f). \<lparr>mfManager = gmManager e, mfOperation = gmOperation e, mfAPIVersion = gmAPIVersion e,
            mfTime = t, mfFieldsType = gmFieldsType e, mfFieldsV1 = f, mfSubresource = gmSubresource e\<rparr>",
          OF copier_pair [OF times.ptr.copier_axioms fields.ptr.copier_axioms]])
      (simp_all add: seesEntry_def ManagedFieldsEntry_DeepCopyInto_def struct_simps)
qed (simp add: entriesOf_def)

lemmas meta_fields = copier_pair [OF times.ptr.copier_axioms copier_pair [OF ints.ptr.copier_axioms
  copier_pair [OF maps.ptr.copier_axioms copier_pair [OF maps.ptr.copier_axioms
  copier_pair [OF reference.sl.copier_axioms copier_pair [OF strings.arr.copier_axioms entry.sl.copier_axioms]]]]]]

interpretation objectMeta: copier seesMeta ObjectMeta_DeepCopyInto
  by (rule copier_struct [where parts = "\<lambda>m. (gomDeletionTimestamp m, gomDeletionGracePeriodSeconds m, gomLabels m,
          gomAnnotations m, gomOwnerReferences m, gomFinalizers m, gomManagedFields m)"
        and update = "\<lambda>m (d, g, ls, as, rs, fs, es). m\<lparr>gomDeletionTimestamp := d, gomDeletionGracePeriodSeconds := g,
          gomLabels := ls, gomAnnotations := as, gomOwnerReferences := rs, gomFinalizers := fs, gomManagedFields := es\<rparr>"
        and rebuild = "\<lambda>m (d, g, ls, as, rs, fs, es). \<lparr>omName = gomName m, omGenerateName = gomGenerateName m,
          omNamespace = gomNamespace m, omSelfLink = gomSelfLink m, omUID = gomUID m, omResourceVersion = gomResourceVersion m,
          omGeneration = gomGeneration m, omCreationTimestamp = gomCreationTimestamp m, omDeletionTimestamp = d,
          omDeletionGracePeriodSeconds = g, omLabels = listOrNil ls, omAnnotations = listOrNil as,
          omOwnerReferences = listOrNil rs, omFinalizers = listOrNil fs, omManagedFields = listOrNil es\<rparr>", OF meta_fields])
    (simp_all add: seesMeta_def ObjectMeta_DeepCopyInto_def struct_simps)

interpretation listMeta: copier seesListMeta ListMeta_DeepCopyInto
  by (rule copier_struct [where parts = "\<lambda>m. (glmRemainingItemCount m, glmShardInfo m)"
        and update = "\<lambda>m (n, s). m\<lparr>glmRemainingItemCount := n, glmShardInfo := s\<rparr>"
        and rebuild = "\<lambda>m (n, s). \<lparr>lmSelfLink = glmSelfLink m, lmResourceVersion = glmResourceVersion m,
          lmContinue = glmContinue m, lmRemainingItemCount = n, lmShardInfo = s\<rparr>",
        OF copier_pair [OF ints.ptr.copier_axioms texts.ptr.copier_axioms]])
    (simp_all add: seesListMeta_def ListMeta_DeepCopyInto_def struct_simps)

lemma config_copier: "copier seesConfig HeadroomConfig_DeepCopyInto"
  by (rule copier_struct [where parts = "\<lambda>c. (gcObjectMeta c, gcSpec c, gcStatus c)"
        and update = "\<lambda>c (m, s, t). c\<lparr>gcObjectMeta := m, gcSpec := s, gcStatus := t\<rparr>"
        and rebuild = "\<lambda>c (m, s, t). \<lparr>coTypeMeta = gcTypeMeta c, coObjectMeta = m,
          coConfig = \<lparr>hcGeneration = omGeneration m, hcSpec = s, hcStatus = t\<rparr>\<rparr>",
        OF copier_pair [OF objectMeta.copier_axioms copier_pair [OF spec.copier_axioms status.copier_axioms]]])
    (simp_all add: seesConfig_def HeadroomConfig_DeepCopyInto_def struct_simps)

interpretation config: cell_copier seesConfig HeadroomConfig_DeepCopyInto ConfigCell configOf
  by (intro cell_copier.intro cell_copier_axioms.intro config_copier) (simp add: configOf_def)

interpretation items: slice_copier seesConfig HeadroomConfig_DeepCopyInto ItemsCell itemsOf
  by (intro slice_copier.intro slice_copier_axioms.intro config_copier) (simp add: itemsOf_def)

interpretation configList: cell_copier seesConfigList HeadroomConfigList_DeepCopyInto ListCell listOf
proof (intro cell_copier.intro cell_copier_axioms.intro)
  show "copier seesConfigList HeadroomConfigList_DeepCopyInto"
    by (rule copier_struct [where parts = "\<lambda>l. (glListMeta l, glItems l)"
          and update = "\<lambda>l (m, xs). l\<lparr>glListMeta := m, glItems := xs\<rparr>"
          and rebuild = "\<lambda>l (m, xs). \<lparr>cloTypeMeta = glTypeMeta l, cloListMeta = m, cloItems = listOrNil xs\<rparr>",
          OF copier_pair [OF listMeta.copier_axioms items.sl.copier_axioms]])
      (simp_all add: seesConfigList_def HeadroomConfigList_DeepCopyInto_def struct_simps)
qed (simp add: listOf_def)

lemma HeadroomConfig_DeepCopy_fresh:
  assumes "heapOk h" "seesPtr configOf seesConfig h (Some a) = Some (Some c, fp)"
  shows "\<exists>a' h' fp'. HeadroomConfig_DeepCopy (Some a) h = Some (Some a', h') \<and> heapOk h' \<and> extends h h'
    \<and> seesPtr configOf seesConfig h' (Some a') = Some (Some c, fp') \<and> fp' \<inter> dom (hCells h) = {}"
proof -
  obtain p h' where c: "HeadroomConfig_DeepCopy (Some a) h = Some (p, h')" "fresh (seesPtr configOf seesConfig) h p (Some c) h'"
    using config.ptr.copies [OF assms] unfolding HeadroomConfig_DeepCopy_def by blast
  then obtain fp' where fp': "seesPtr configOf seesConfig h' p = Some (Some c, fp')" "fp' \<inter> dom (hCells h) = {}"
    "heapOk h'" "extends h h'" unfolding fresh_def by blast
  then show ?thesis using c(1) by (cases p) (auto simp: seesPtr_def)
qed

section \<open>Properties\<close>

text \<open>C20. Deep copies of a configuration are deep. The copy reads as the original does, in metadata,
  specification and status; no address it consists of existed before, and nothing that existed
  was written. So whatever is written later through one of the two, the other reads as before.\<close>

theorem deep_copy_isolates:
  assumes "heapOk h" "seesPtr configOf seesConfig h (Some a) = Some (Some c, fp)"
  shows "\<exists>a' h' fp'. HeadroomConfig_DeepCopy (Some a) h = Some (Some a', h') \<and> heapOk h' \<and> extends h h'
    \<and> seesPtr configOf seesConfig h' (Some a') = Some (Some c, fp') \<and> fp' \<inter> dom (hCells h) = {}
    \<and> (\<forall>later. (\<forall>b. b \<notin> fp \<longrightarrow> hCells later b = hCells h' b) \<longrightarrow>
          seesPtr configOf seesConfig later (Some a') = Some (Some c, fp'))
    \<and> (\<forall>later. (\<forall>b. b \<notin> fp' \<longrightarrow> hCells later b = hCells h' b) \<longrightarrow>
          seesPtr configOf seesConfig later (Some a) = Some (Some c, fp))"
proof -
  obtain a' h' fp' where c: "HeadroomConfig_DeepCopy (Some a) h = Some (Some a', h')" "heapOk h'" "extends h h'"
      "seesPtr configOf seesConfig h' (Some a') = Some (Some c, fp')" "fp' \<inter> dom (hCells h) = {}"
    using HeadroomConfig_DeepCopy_fresh [OF assms] by blast
  have old: "seesPtr configOf seesConfig h' (Some a) = Some (Some c, fp)"
    by (rule config.ptr.sees_extends [OF assms(2) c(3)])
  have apart: "fp \<inter> fp' = {}" using config.ptr.footprint [OF assms(2)] c(5) by blast
  have "seesPtr configOf seesConfig later (Some a') = Some (Some c, fp')" if "\<forall>b. b \<notin> fp \<longrightarrow> hCells later b = hCells h' b" for later
    using that apart by (intro config.ptr.frame [OF c(4)]) auto
  moreover have "seesPtr configOf seesConfig later (Some a) = Some (Some c, fp)" if "\<forall>b. b \<notin> fp' \<longrightarrow> hCells later b = hCells h' b" for later
    using that apart by (intro config.ptr.frame [OF old]) auto
  ultimately show ?thesis using c by blast
qed

text \<open>C21. \<open>DeepCopyObject\<close> of a list of configurations is type safe: on a heap whose list conforms
  to its type it dereferences nothing that is nil or of another type, it returns the nil
  interface exactly for a nil list, and otherwise a pointer to a list of the same value that
  conforms too; every object that conformed before still does.\<close>

theorem deep_copy_conforms:
  assumes "heapOk h" "seesPtr listOf seesConfigList h p = Some (x, fp)"
  shows "\<exists>obj h'. HeadroomConfigList_DeepCopyObject p h = Some (obj, h') \<and> heapOk h' \<and> (obj = None \<longleftrightarrow> p = None)
    \<and> (\<forall>ty q. obj = Some (ty, q) \<longrightarrow> ty = ConfigListType \<and> q \<noteq> None
         \<and> (\<exists>fp'. seesPtr listOf seesConfigList h' q = Some (x, fp') \<and> fp' \<inter> dom (hCells h) = {}))
    \<and> (\<forall>q y fq. seesPtr listOf seesConfigList h q = Some (y, fq) \<longrightarrow> seesPtr listOf seesConfigList h' q = Some (y, fq))
    \<and> (\<forall>q y fq. seesPtr configOf seesConfig h q = Some (y, fq) \<longrightarrow> seesPtr configOf seesConfig h' q = Some (y, fq))"
proof -
  obtain q h' where c: "HeadroomConfigList_DeepCopy p h = Some (q, h')" "fresh (seesPtr listOf seesConfigList) h q x h'"
    using configList.ptr.copies [OF assms] unfolding HeadroomConfigList_DeepCopy_def by blast
  have f: "heapOk h'" "extends h h'" "\<exists>fp'. seesPtr listOf seesConfigList h' q = Some (x, fp') \<and> fp' \<inter> dom (hCells h) = {}"
    using c(2) by (simp_all add: fresh_def)
  have nil: "q = None \<longleftrightarrow> p = None"
    using assms(2) f(3) by (cases p; cases q) (auto simp: seesPtr_def bind_eq_Some_conv)
  have "HeadroomConfigList_DeepCopyObject p h = Some (if q \<noteq> None then Some (ConfigListType, q) else None, h')"
    using c(1) by (simp add: HeadroomConfigList_DeepCopyObject_def)
  then show ?thesis
    using f nil configList.ptr.sees_extends [OF _ f(2)] config.ptr.sees_extends [OF _ f(2)] by auto
qed
text \<open>A configuration on a heap: dry run, one excluded namespace, one condition in an array with
  room for another; and a list that holds it.\<close>

definition plainQ :: gQuantity where
  "plainQ = \<lparr>gqI = \<lparr>amtValue = 1, amtScale = 0\<rparr>, gqDec = None\<rparr>"

definition heldCondition :: Condition where
  "heldCondition = \<lparr>condType = ''Ready'', condStatus = ''True'', condObservedGeneration = 1, condLastTransitionTime = 7,
     condReason = ''Reconciled'', condMessage = ''old''\<rparr>"

definition heldSpec :: gSpec where
  "heldSpec = \<lparr>gpPolicy = PolicyProportional, gpDryRun = Some 8, gpMinBurstFloor = plainQ, gpMaxMultiplier = plainQ,
     gpQuantum = plainQ\<lparr>gqDec := Some 4\<rparr>, gpDeadband = \<lparr>GrowPercent = 10, ShrinkPercent = 5\<rparr>, gpDebouncePeriod = 2000000000,
     gpRateLimits = \<lparr>PerNodePatchesPerSecond = 10, ClientQPS = 50, ClientBurst = 100\<rparr>,
     gpWebhook = \<lparr>gwEnabled = None, gwInitialMultiplier = plainQ\<rparr>, gpNamespaceSelector = None,
     gpExcludedNamespaces = Some \<lparr>slArray = 3, slLen = 1\<rparr>, gpExcludedOwners = None, gpExcludedNodeSelector = None\<rparr>"

definition heldMeta :: gObjectMeta where
  "heldMeta = \<lparr>gomName = ''cluster'', gomGenerateName = '''', gomNamespace = '''', gomSelfLink = '''', gomUID = ''u'',
     gomResourceVersion = ''9'', gomGeneration = 3, gomCreationTimestamp = 5, gomDeletionTimestamp = None,
     gomDeletionGracePeriodSeconds = None, gomLabels = Some 5, gomAnnotations = None, gomOwnerReferences = None,
     gomFinalizers = None, gomManagedFields = None\<rparr>"

definition heldConfig :: gConfig where
  "heldConfig = \<lparr>gcTypeMeta = \<lparr>tmKind = knownTypes ! 0, tmAPIVersion = fst SchemeGroupVersion @ ''/'' @ snd SchemeGroupVersion\<rparr>,
     gcObjectMeta = heldMeta, gcSpec = heldSpec,
     gcStatus = \<lparr>gtObservedGeneration = 1, gtManagedPods = 0, gtManagedNodes = 0, gtConditions = Some \<lparr>slArray = 2, slLen = 1\<rparr>\<rparr>\<rparr>"

definition heldList :: gConfigList where
  "heldList = \<lparr>glTypeMeta = \<lparr>tmKind = knownTypes ! 1, tmAPIVersion = fst SchemeGroupVersion @ ''/'' @ snd SchemeGroupVersion\<rparr>,
     glListMeta = \<lparr>glmSelfLink = '''', glmResourceVersion = ''9'', glmContinue = '''', glmRemainingItemCount = None,
       glmShardInfo = None\<rparr>, glItems = Some \<lparr>slArray = 7, slLen = 1\<rparr>\<rparr>"

definition sampleHeap :: "cell heap" where
  "sampleHeap = \<lparr>hNext = 9, hCells = (\<lambda>a. None)(0 := Some (ConfigCell heldConfig),
     2 := Some (ConditionsCell [heldCondition, heldCondition\<lparr>condType := ''''\<rparr>]), 3 := Some (StringsCell [''kube-system'']),
     4 := Some (DecCell \<lparr>decUnscaled = 1, decScale = 2\<rparr>), 5 := Some (MapCell [(''app'', ''headroom'')]),
     6 := Some (ListCell heldList), 7 := Some (ItemsCell [heldConfig]), 8 := Some (BoolCell True))\<rparr>"

lemma sampleHeap_ok: "heapOk sampleHeap"
  by (simp add: heapOk_def sampleHeap_def)

lemma sample_cells:
  "hCells sampleHeap 0 = Some (ConfigCell heldConfig)" "hCells sampleHeap 8 = Some (BoolCell True)"
  "hCells sampleHeap 2 = Some (ConditionsCell [heldCondition, heldCondition\<lparr>condType := ''''\<rparr>])"
  "hCells sampleHeap 3 = Some (StringsCell [''kube-system''])" "hCells sampleHeap 4 = Some (DecCell \<lparr>decUnscaled = 1, decScale = 2\<rparr>)"
  "hCells sampleHeap 5 = Some (MapCell [(''app'', ''headroom'')])" "hCells sampleHeap 6 = Some (ListCell heldList)"
  "hCells sampleHeap 7 = Some (ItemsCell [heldConfig])"
  by (simp_all add: sampleHeap_def)

lemma sample_meta: "\<exists>m. seesMeta sampleHeap heldMeta = Some (m, {5}) \<and> omGeneration m = 3"
  by (simp add: seesMeta_def heldMeta_def seesFlat_def seesMap_def seesSlice_def seesArray_def load_def sample_cells mapOf_def
      gomap_ok_def)

lemma sample_spec: "\<exists>s. seesSpec sampleHeap heldSpec = Some (s, {3, 4, 8}) \<and> specDryRun s = Some True
    \<and> specExcludedNamespaces s = [''kube-system''] \<and> specQuantum s = DecQ \<lparr>decUnscaled = 1, decScale = 2\<rparr>"
  by (simp add: seesSpec_def heldSpec_def plainQ_def seesQuantity_def seesWebhook_def seesFlat_def seesPtr_def seesArray_def
      load_def sample_cells boolOf_def decOf_def stringsOf_def listOrNil_def insert_commute)

lemma sample_status: "seesStatus sampleHeap (gcStatus heldConfig) = Some (\<lparr>stObservedGeneration = 1, stManagedPods = 0,
    stManagedNodes = 0, stConditions = [heldCondition]\<rparr>, {2})"
  by (simp add: seesStatus_def heldConfig_def seesSlice_def seesPlain_def load_def sample_cells conditionsOf_def listOrNil_def)

lemma sample_config: "\<exists>c. seesConfig sampleHeap heldConfig = Some (c, {2, 3, 4, 5, 8}) \<and> hcGeneration (coConfig c) = 3
    \<and> specDryRun (hcSpec (coConfig c)) = Some True \<and> stConditions (hcStatus (coConfig c)) = [heldCondition]"
proof -
  obtain m s where "seesMeta sampleHeap heldMeta = Some (m, {5})" "omGeneration m = 3"
    "seesSpec sampleHeap heldSpec = Some (s, {3, 4, 8})" "specDryRun s = Some True" using sample_meta sample_spec by blast
  moreover have "gcObjectMeta heldConfig = heldMeta" "gcSpec heldConfig = heldSpec" by (simp_all add: heldConfig_def)
  ultimately show ?thesis using sample_status by (auto simp: seesConfig_def)
qed

theorem deep_copy_isolates_witness:
  "\<exists>c a' h' fp'. HeadroomConfig_DeepCopy (Some 0) sampleHeap = Some (Some a', h')
    \<and> seesPtr configOf seesConfig h' (Some a') = Some (Some c, fp') \<and> fp' \<inter> {0, 2, 3, 4, 5, 8} = {}
    \<and> seesPtr configOf seesConfig (assign 2 (ConditionsCell []) h') (Some a') = Some (Some c, fp')
    \<and> stConditions (hcStatus (coConfig c)) = [heldCondition]"
proof -
  obtain c where c: "seesConfig sampleHeap heldConfig = Some (c, {2, 3, 4, 5, 8})" "stConditions (hcStatus (coConfig c)) = [heldCondition]"
    using sample_config by blast
  then have s: "seesPtr configOf seesConfig sampleHeap (Some 0) = Some (Some c, {0, 2, 3, 4, 5, 8})"
    by (simp add: seesPtr_def load_def sample_cells configOf_def)
  from deep_copy_isolates [OF sampleHeap_ok s] obtain a' h' fp' where
    r: "HeadroomConfig_DeepCopy (Some 0) sampleHeap = Some (Some a', h')" "seesPtr configOf seesConfig h' (Some a') = Some (Some c, fp')"
      "fp' \<inter> dom (hCells sampleHeap) = {}"
      "\<forall>later. (\<forall>b. b \<notin> {0, 2, 3, 4, 5, 8} \<longrightarrow> hCells later b = hCells h' b) \<longrightarrow>
          seesPtr configOf seesConfig later (Some a') = Some (Some c, fp')" by blast
  have "{0, 2, 3, 4, 5, 8} \<subseteq> dom (hCells sampleHeap)" using sample_cells by auto
  then have "fp' \<inter> {0, 2, 3, 4, 5, 8} = {}" using r(3) by blast
  moreover have "seesPtr configOf seesConfig (assign 2 (ConditionsCell []) h') (Some a') = Some (Some c, fp')"
    using r(4) by (simp add: heap_simps)
  ultimately show ?thesis using r(1,2) c(2) by blast
qed

theorem deep_copy_conforms_witness:
  "\<exists>x q h'. HeadroomConfigList_DeepCopyObject (Some 6) sampleHeap = Some (Some (ConfigListType, q), h') \<and> q \<noteq> None
    \<and> (\<exists>fp'. seesPtr listOf seesConfigList h' q = Some (Some x, fp')) \<and> length (cloItems x) = 1"
proof -
  obtain c where c: "seesConfig sampleHeap heldConfig = Some (c, {2, 3, 4, 5, 8})" using sample_config by blast
  then obtain x fp where x: "seesPtr listOf seesConfigList sampleHeap (Some 6) = Some (Some x, fp)" "length (cloItems x) = 1"
    by (simp add: seesPtr_def load_def sample_cells listOf_def seesConfigList_def seesListMeta_def seesFlat_def heldList_def
        seesSlice_def itemsOf_def listOrNil_def)
  obtain obj h' where o: "HeadroomConfigList_DeepCopyObject (Some 6) sampleHeap = Some (obj, h')" "obj \<noteq> None"
    "\<forall>ty q. obj = Some (ty, q) \<longrightarrow> ty = ConfigListType \<and> q \<noteq> None
         \<and> (\<exists>fp'. seesPtr listOf seesConfigList h' q = Some (Some x, fp') \<and> fp' \<inter> dom (hCells sampleHeap) = {})"
    using deep_copy_conforms [OF sampleHeap_ok x(1)] by blast
  then obtain ty q where "obj = Some (ty, q)" by auto
  then show ?thesis using o x(2) by blast
qed

end
