(* ===== verification/ConfigHeap.thy ===== *)
theory ConfigHeap
  imports ConfigReconciler DeepCopies
begin

text \<open>
  The reconcile of the configuration once more, now on a heap as Go runs it: \<open>hc\<close> is changed in
  place, the Ready condition through a pointer into the backing array of the slice, and only
  the deep copy taken first still shows the old status that decides whether to write. This
  refines the reconcile on values of \<open>ConfigReconciler\<close>.
\<close>

section \<open>The reconcile in place\<close>

text \<open>The elements of a slice, whose length never exceeds its array.\<close>

definition sliceElems :: "('c \<Rightarrow> 'v list option) \<Rightarrow> 'c heap \<Rightarrow> slice option \<Rightarrow> 'v list option" where
  "sliceElems prj h s =
     (case s of
        None \<Rightarrow> Some []
      | Some sl \<Rightarrow> do { vs \<leftarrow> load prj h (slArray sl); if slLen sl \<le> length vs then Some (take (slLen sl) vs) else None })"

text \<open>\<open>FindStatusCondition\<close> returns a pointer into the slice: the index of the element.\<close>

fun conditionIndex :: "Condition list \<Rightarrow> string \<Rightarrow> nat option" where
  "conditionIndex [] conditionType = None"
| "conditionIndex (c # cs) conditionType =
     (if condType c = conditionType then Some 0 else map_option Suc (conditionIndex cs conditionType))"

definition zeroCondition :: Condition where
  "zeroCondition = \<lparr>condType = '''', condStatus = '''', condObservedGeneration = 0, condLastTransitionTime = 0,
     condReason = '''', condMessage = ''''\<rparr>"

text \<open>\<open>append\<close> writes into spare capacity when there is some, and moves to a larger array when there
  is none; how much larger is the runtime's choice, \<open>spare\<close>.\<close>

definition appendCondition :: "(nat \<Rightarrow> nat) \<Rightarrow> slice option \<Rightarrow> Condition \<Rightarrow> cell heap \<Rightarrow> (slice \<times> cell heap) option" where
  "appendCondition spare s c h =
     (case s of
        None \<Rightarrow> (let (a, h) = alloc (ConditionsCell (c # replicate (spare 0) zeroCondition)) h
                in Some (\<lparr>slArray = a, slLen = 1\<rparr>, h))
      | Some sl \<Rightarrow> do {
          vs \<leftarrow> load conditionsOf h (slArray sl);
          if slLen sl < length vs
          then Some (sl\<lparr>slLen := Suc (slLen sl)\<rparr>, assign (slArray sl) (ConditionsCell (vs[slLen sl := c])) h)
          else (let (a, h) = alloc (ConditionsCell (take (slLen sl) vs @ c # replicate (spare (slLen sl)) zeroCondition)) h
                in Some (\<lparr>slArray = a, slLen = Suc (slLen sl)\<rparr>, h)) })"

text \<open>\<open>meta.SetStatusCondition(&hc.Status.Conditions, newCondition)\<close> for the \<open>hc\<close> at an address.\<close>

definition heapSetStatusCondition :: "(nat \<Rightarrow> nat) \<Rightarrow> addr \<Rightarrow> Condition \<Rightarrow> Time \<Rightarrow> cell heap \<Rightarrow> cell heap option" where
  "heapSetStatusCondition spare a newCondition now h = do {
     hc \<leftarrow> load configOf h a;
     let conditions = gtConditions (gcStatus hc);
     cs \<leftarrow> sliceElems conditionsOf h conditions;
     (case (conditionIndex cs (condType newCondition), conditions) of
        (Some i, Some sl) \<Rightarrow> do {
          vs \<leftarrow> load conditionsOf h (slArray sl);
          Some (assign (slArray sl) (ConditionsCell (vs[i := mergeCondition newCondition now (vs ! i)])) h) }
      | _ \<Rightarrow> do {
          let new = (if condLastTransitionTime newCondition = 0
                     then newCondition\<lparr>condLastTransitionTime := now\<rparr> else newCondition);
          (sl, h) \<leftarrow> appendCondition spare conditions new h;
          Some (assign a (ConfigCell (hc\<lparr>gcStatus := (gcStatus hc)\<lparr>gtConditions := Some sl\<rparr>\<rparr>)) h) }) }"

definition heapReadyMessage :: "addr \<Rightarrow> int \<Rightarrow> int \<Rightarrow> cell heap \<Rightarrow> string option" where
  "heapReadyMessage a pods nodes h = do {
     hc \<leftarrow> load configOf h a;
     dryRun \<leftarrow> (case gpDryRun (gcSpec hc) of None \<Rightarrow> Some True | Some p \<Rightarrow> load boolOf h p);
     let mode = (if dryRun then ''dry-run'' else ''enforcing'');
     Some (''Reconciling in '' @ mode @ '' mode; managing '' @ showInt pods @ '' pods across '' @ showInt nodes @ '' nodes'') }"

text \<open>\<open>apiequality.Semantic.DeepEqual\<close> on two statuses: nil and empty slices are equal.\<close>

definition statusDeepEqual :: "cell heap \<Rightarrow> gStatus \<Rightarrow> gStatus \<Rightarrow> bool option" where
  "statusDeepEqual h s t = do {
     cs \<leftarrow> sliceElems conditionsOf h (gtConditions s);
     ds \<leftarrow> sliceElems conditionsOf h (gtConditions t);
     Some (gtObservedGeneration s = gtObservedGeneration t \<and> gtManagedPods s = gtManagedPods t
         \<and> gtManagedNodes s = gtManagedNodes t \<and> cs = ds) }"

definition setCounts :: "int \<Rightarrow> int \<Rightarrow> gConfig \<Rightarrow> gConfig" where
  "setCounts pods nodes hc = hc\<lparr>gcStatus := (gcStatus hc)\<lparr>gtObservedGeneration := gomGeneration (gcObjectMeta hc),
     gtManagedPods := wrap32 pods, gtManagedNodes := wrap32 nodes\<rparr>\<rparr>"

definition readyCondition :: "int64 \<Rightarrow> string \<Rightarrow> Condition" where
  "readyCondition generation message = \<lparr>condType = conditionReady, condStatus = ConditionTrue,
     condObservedGeneration = generation, condLastTransitionTime = 0, condReason = reasonReconciled, condMessage = message\<rparr>"

text \<open>What \<open>Reconcile\<close> does once \<open>Get\<close> has filled the \<open>hc\<close> at address \<open>a\<close>. The update sends the
  object as it reads at that moment.\<close>

definition heapReconcile :: "(nat \<Rightarrow> nat) \<Rightarrow> Time \<Rightarrow> (configObject \<Rightarrow> apiError option) \<Rightarrow> (int \<times> int) option \<Rightarrow> addr \<Rightarrow>
    cell heap \<Rightarrow> ((reconcileResult \<times> configObject option) \<times> cell heap) option" where
  "heapReconcile spare now update managedState a h = do {
     let (pods, nodes) = (case managedState of Some c \<Rightarrow> c | None \<Rightarrow> (0, 0));
     (orig, h) \<leftarrow> HeadroomConfig_DeepCopy (Some a) h;
     hc \<leftarrow> load configOf h a;
     let h = assign a (ConfigCell (setCounts pods nodes hc)) h;
     message \<leftarrow> heapReadyMessage a pods nodes h;
     h \<leftarrow> heapSetStatusCondition spare a (readyCondition (gomGeneration (gcObjectMeta hc)) message) now h;
     before \<leftarrow> Option.bind orig (load configOf h);
     hc \<leftarrow> load configOf h a;
     same \<leftarrow> statusDeepEqual h (gcStatus before) (gcStatus hc);
     if same then Some ((requeue statusResyncPeriod, None), h)
     else do {
       (obj, fp) \<leftarrow> seesConfig h hc;
       Some (((case update obj of
                 Some e \<Rightarrow> failed (Wrapped ''update HeadroomConfig status'' e)
               | None \<Rightarrow> requeue statusResyncPeriod), Some obj), h) } }"

section \<open>Reading after a write of another type\<close>

text \<open>The reads of metadata and specification, and that they do not see the cells of
  configurations and conditions.\<close>

lemma load_assign_other:
  assumes "hCells h b = Some c" "prj c = prj c'"
  shows "load prj (assign b c' h) = load prj h"
  using assms by (auto simp: load_def heap_simps fun_eq_iff)

definition blindTo :: "cell \<Rightarrow> bool" where
  "blindTo c \<longleftrightarrow> (case c of ConfigCell x \<Rightarrow> True | ConditionsCell cs \<Rightarrow> True | _ \<Rightarrow> False)"

lemma seesFlat_cong: "load prj h' = load prj h \<Longrightarrow> seesFlat prj h' = seesFlat prj h"
  by (intro ext) (simp add: seesFlat_def split: option.split)

lemma seesArray_cong: "load prj h' = load prj h \<Longrightarrow> seesArray prj h' = seesArray prj h"
  by (intro ext) (simp add: seesArray_def split: option.split)

lemma seesMap_cong: "load prj h' = load prj h \<Longrightarrow> seesMap prj h' = seesMap prj h"
  by (intro ext) (simp add: seesMap_def split: option.split)

lemma seesPtr_cong: "load prj h' = load prj h \<Longrightarrow> sees h' = sees h \<Longrightarrow> seesPtr prj sees h' = seesPtr prj sees h"
  by (intro ext) (simp add: seesPtr_def split: option.split)

lemma seesList_cong: "sees h' = sees h \<Longrightarrow> seesList sees h' = seesList sees h"
proof (rule ext)
  show "sees h' = sees h \<Longrightarrow> seesList sees h' vs = seesList sees h vs" for vs by (induction vs) simp_all
qed

lemma seesSlice_cong: "load prj h' = load prj h \<Longrightarrow> sees h' = sees h \<Longrightarrow> seesSlice prj sees h' = seesSlice prj sees h"
  by (intro ext) (simp add: seesSlice_def seesList_cong [of sees h' h] cong: if_cong split: option.split)

lemma blind_reads:
  assumes "hCells h b = Some c" "blindTo c" "blindTo c'"
  shows "seesMeta (assign b c' h) = seesMeta h" "seesSpec (assign b c' h) = seesSpec h"
proof -
  let ?h = "assign b c' h"
  have l: "load prj ?h = load prj h" if "\<And>x. blindTo x \<Longrightarrow> prj x = None" for prj :: "cell \<Rightarrow> 'v option"
    using assms that by (intro load_assign_other [OF assms(1)]) simp
  have ls: "load boolOf ?h = load boolOf h" "load intOf ?h = load intOf h" "load timeOf ?h = load timeOf h"
    "load decOf ?h = load decOf h" "load stringsOf ?h = load stringsOf h" "load bytesOf ?h = load bytesOf h"
    "load mapOf ?h = load mapOf h" "load ownersOf ?h = load ownersOf h" "load requirementsOf ?h = load requirementsOf h"
    "load referencesOf ?h = load referencesOf h" "load fieldsOf ?h = load fieldsOf h" "load entriesOf ?h = load entriesOf h"
    "load selectorOf ?h = load selectorOf h"
    by (rule l, auto simp: blindTo_def cell_defs split: cell.splits)+
  note [simp] = ls(1-4) [THEN seesFlat_cong] ls(5,6,8) [THEN seesArray_cong] ls(7) [THEN seesMap_cong]
  have q: "seesQuantity ?h = seesQuantity h" "seesRequirement ?h = seesRequirement h" "seesReference ?h = seesReference h"
    "seesFields ?h = seesFields h" "seesWebhook ?h = seesWebhook h"
    by (simp_all add: fun_eq_iff seesQuantity_def seesRequirement_def seesReference_def seesFields_def seesWebhook_def)
  have s: "seesSelector ?h = seesSelector h" "seesEntry ?h = seesEntry h"
    by (simp_all add: fun_eq_iff seesSelector_def seesEntry_def seesSlice_cong [OF ls(9) q(2)] seesPtr_cong [OF ls(11) q(4)])
  show "seesMeta ?h = seesMeta h"
    by (simp add: fun_eq_iff seesMeta_def seesSlice_cong [OF ls(10) q(3)] seesSlice_cong [OF ls(12) s(2)])
  show "seesSpec ?h = seesSpec h"
    by (simp add: fun_eq_iff seesSpec_def q seesPtr_cong [OF ls(13) s(1)])
qed

section \<open>Conditions in place\<close>

lemma conditionIndex_Find:
  "(case conditionIndex cs ty of
      None \<Rightarrow> FindStatusCondition cs ty = None
    | Some i \<Rightarrow> i < length cs \<and> FindStatusCondition cs ty = Some (cs ! i) \<and> updateFirst ty f cs = cs[i := f (cs ! i)])"
  by (induction cs) (auto split: option.splits)

lemma seesList_plain: "seesList seesPlain h vs = Some (vs, {})"
  by (induction vs) (simp_all add: seesPlain_def)

lemma cell_iffs:
  "configOf x = Some c \<longleftrightarrow> x = ConfigCell c" "conditionsOf x = Some cs \<longleftrightarrow> x = ConditionsCell cs"
  by (cases x; simp add: configOf_def conditionsOf_def)+

lemma load_config: "load configOf h a = Some c \<longleftrightarrow> hCells h a = Some (ConfigCell c)"
  by (auto simp: load_def cell_iffs bind_eq_Some_conv)

lemma load_conditions: "load conditionsOf h a = Some cs \<longleftrightarrow> hCells h a = Some (ConditionsCell cs)"
  by (auto simp: load_def cell_iffs bind_eq_Some_conv)

lemma sliceElems_SomeE:
  assumes "sliceElems conditionsOf h (Some sl) = Some cs"
  obtains vs where "hCells h (slArray sl) = Some (ConditionsCell vs)" "slLen sl \<le> length vs" "cs = take (slLen sl) vs"
  using assms by (auto simp: sliceElems_def load_conditions bind_eq_Some_conv split: if_splits)

lemma seesStatus_elems:
  "seesStatus h s = map_option (\<lambda>cs. (\<lparr>stObservedGeneration = gtObservedGeneration s, stManagedPods = gtManagedPods s,
       stManagedNodes = gtManagedNodes s, stConditions = cs\<rparr>, case gtConditions s of None \<Rightarrow> {} | Some sl \<Rightarrow> {slArray sl}))
     (sliceElems conditionsOf h (gtConditions s))"
proof (cases "gtConditions s")
  case (Some sl)
  then show ?thesis
    by (cases "load conditionsOf h (slArray sl)") (simp_all add: seesStatus_def seesSlice_def sliceElems_def seesList_plain listOrNil_def)
qed (simp add: seesStatus_def seesSlice_def sliceElems_def listOrNil_def)

text \<open>Two heaps that agree but for the \<open>hc\<close> at an address and its array of conditions.\<close>

definition inPlace :: "addr \<Rightarrow> slice option \<Rightarrow> cell heap \<Rightarrow> cell heap \<Rightarrow> bool" where
  "inPlace a s h h' \<longleftrightarrow> heapOk h'
     \<and> (\<forall>b. hCells h b \<noteq> None \<longrightarrow> b \<noteq> a \<longrightarrow> (\<forall>sl. s = Some sl \<longrightarrow> b \<noteq> slArray sl) \<longrightarrow> hCells h' b = hCells h b)
     \<and> (\<forall>m x. seesMeta h m = Some x \<longrightarrow> seesMeta h' m = Some x)
     \<and> (\<forall>m x. seesSpec h m = Some x \<longrightarrow> seesSpec h' m = Some x)"

lemma inPlace_assign:
  assumes "heapOk h" "hCells h b = Some c" "blindTo c" "blindTo c'" "b = a \<or> (\<exists>sl. s = Some sl \<and> b = slArray sl)"
  shows "inPlace a s h (assign b c' h)"
  using assms blind_reads [OF assms(2-4)] by (auto simp: inPlace_def heapOk_assign heap_simps)

lemma inPlace_alloc: "heapOk h \<Longrightarrow> inPlace a s h (snd (alloc c h))"
proof -
  assume ok: "heapOk h"
  have "seesMeta (snd (alloc c h)) m = Some x" if "seesMeta h m = Some x" for m x
    using objectMeta.sees_extends [of h m "fst x" "snd x", OF _ extends_alloc [OF ok]] that by simp
  moreover have "seesSpec (snd (alloc c h)) m = Some x" if "seesSpec h m = Some x" for m x
    using spec.sees_extends [of h m "fst x" "snd x", OF _ extends_alloc [OF ok]] that by simp
  ultimately show ?thesis using ok next_free [OF ok] by (simp add: inPlace_def heapOk_alloc heap_simps)
qed

lemma inPlace_trans: "inPlace a s h h1 \<Longrightarrow> (\<And>b. hCells h b \<noteq> None \<Longrightarrow> hCells h1 b \<noteq> None) \<Longrightarrow> inPlace a s h1 h2 \<Longrightarrow> inPlace a s h h2"
  by (simp add: inPlace_def)

lemma appendCondition_ok:
  assumes "heapOk h" "sliceElems conditionsOf h s = Some cs" "hCells h a = Some (ConfigCell c)"
  shows "\<exists>sl h'. appendCondition spare s new h = Some (sl, h') \<and> sliceElems conditionsOf h' (Some sl) = Some (cs @ [new])
    \<and> inPlace a s h h' \<and> hCells h' a = Some (ConfigCell c) \<and> (\<forall>b. hCells h b \<noteq> None \<longrightarrow> hCells h' b \<noteq> None)"
proof (cases s)
  case None
  let ?h = "snd (alloc (ConditionsCell (new # replicate (spare 0) zeroCondition)) h)"
  have "appendCondition spare s new h = Some (\<lparr>slArray = hNext h, slLen = 1\<rparr>, ?h)"
    using None by (simp add: appendCondition_def case_prod_beta heap_simps)
  moreover have "cs = []" using assms(2) None by (simp add: sliceElems_def)
  ultimately show ?thesis using assms(3) next_free [OF assms(1)] inPlace_alloc [OF assms(1)]
    by (auto simp: sliceElems_def load_def heap_simps conditionsOf_def)
next
  case (Some sl)
  obtain vs where vs: "hCells h (slArray sl) = Some (ConditionsCell vs)" "slLen sl \<le> length vs" "cs = take (slLen sl) vs"
    using assms(2) [unfolded Some] by (rule sliceElems_SomeE)
  have l: "load conditionsOf h (slArray sl) = Some vs" using vs(1) by (simp add: load_conditions)
  show ?thesis
  proof (cases "slLen sl < length vs")
    case True
    let ?h = "assign (slArray sl) (ConditionsCell (vs[slLen sl := new])) h"
    have "appendCondition spare s new h = Some (sl\<lparr>slLen := Suc (slLen sl)\<rparr>, ?h)"
      using Some l True by (simp add: appendCondition_def)
    moreover have "sliceElems conditionsOf ?h (Some (sl\<lparr>slLen := Suc (slLen sl)\<rparr>)) = Some (cs @ [new])"
      using True vs(3) by (simp add: sliceElems_def load_def heap_simps conditionsOf_def take_Suc_conv_app_nth)
    moreover have "inPlace a s h ?h" using assms(1) vs(1) Some by (intro inPlace_assign) (auto simp: blindTo_def)
    moreover have "slArray sl \<noteq> a" using vs(1) assms(3) by auto
    ultimately show ?thesis using assms(3) by (auto simp: heap_simps)
  next
    case False
    let ?h = "snd (alloc (ConditionsCell (take (slLen sl) vs @ new # replicate (spare (slLen sl)) zeroCondition)) h)"
    have "appendCondition spare s new h = Some (\<lparr>slArray = hNext h, slLen = Suc (slLen sl)\<rparr>, ?h)"
      using Some l False by (simp add: appendCondition_def case_prod_beta heap_simps)
    moreover have "sliceElems conditionsOf ?h (Some \<lparr>slArray = hNext h, slLen = Suc (slLen sl)\<rparr>) = Some (cs @ [new])"
      using False vs(2,3) by (simp add: sliceElems_def load_def heap_simps conditionsOf_def)
    ultimately show ?thesis using assms(3) next_free [OF assms(1)] inPlace_alloc [OF assms(1)] by (auto simp: heap_simps)
  qed
qed

text \<open>In place, the conditions become what \<open>SetStatusCondition\<close> makes of them as a value.\<close>

lemma heapSetStatusCondition_ok:
  assumes ok: "heapOk h" and hc: "hCells h a = Some (ConfigCell hc)"
    and cs: "sliceElems conditionsOf h (gtConditions (gcStatus hc)) = Some cs"
  shows "\<exists>h' s'. heapSetStatusCondition spare a new now h = Some h' \<and> inPlace a (gtConditions (gcStatus hc)) h h'
    \<and> hCells h' a = Some (ConfigCell (hc\<lparr>gcStatus := (gcStatus hc)\<lparr>gtConditions := s'\<rparr>\<rparr>))
    \<and> sliceElems conditionsOf h' s' = Some (SetStatusCondition cs new now)"
proof -
  let ?s = "gtConditions (gcStatus hc)"
  have l: "load configOf h a = Some hc" using hc by (simp add: load_config)
  consider (found) i sl where "conditionIndex cs (condType new) = Some i" "?s = Some sl" | (absent) "conditionIndex cs (condType new) = None"
    using cs by (cases "conditionIndex cs (condType new)"; cases ?s) (auto simp: sliceElems_def)
  then show ?thesis
  proof cases
    case found
    obtain vs where vs: "hCells h (slArray sl) = Some (ConditionsCell vs)" "slLen sl \<le> length vs" "cs = take (slLen sl) vs"
      using cs [unfolded found(2)] by (rule sliceElems_SomeE)
    let ?c = "mergeCondition new now (vs ! i)" and ?h = "assign (slArray sl) (ConditionsCell (vs[i := mergeCondition new now (vs ! i)])) h"
    have i: "i < slLen sl" "SetStatusCondition cs new now = cs[i := ?c]"
      using conditionIndex_Find [of cs "condType new" "mergeCondition new now"] found(1) vs(2,3)
      by (auto simp: SetStatusCondition_def)
    have "heapSetStatusCondition spare a new now h = Some ?h"
      using l cs found vs(1) by (simp add: heapSetStatusCondition_def load_conditions [THEN iffD2])
    moreover have "inPlace a ?s h ?h" using ok vs(1) found(2) by (intro inPlace_assign) (auto simp: blindTo_def)
    moreover have "hCells ?h a = Some (ConfigCell (hc\<lparr>gcStatus := (gcStatus hc)\<lparr>gtConditions := ?s\<rparr>\<rparr>))"
      using hc vs(1) by (auto simp: heap_simps)
    moreover have "sliceElems conditionsOf ?h ?s = Some (SetStatusCondition cs new now)"
      using vs(2,3) i found(2) by (simp add: sliceElems_def load_def heap_simps conditionsOf_def take_update_swap)
    ultimately show ?thesis by blast
  next
    case absent
    let ?new = "if condLastTransitionTime new = 0 then new\<lparr>condLastTransitionTime := now\<rparr> else new"
    have v: "SetStatusCondition cs new now = cs @ [?new]"
      using conditionIndex_Find [of cs "condType new" undefined] absent by (simp add: SetStatusCondition_def)
    obtain sl h1 where a1: "appendCondition spare ?s ?new h = Some (sl, h1)" "sliceElems conditionsOf h1 (Some sl) = Some (cs @ [?new])"
        "inPlace a ?s h h1" "hCells h1 a = Some (ConfigCell hc)" "\<forall>b. hCells h b \<noteq> None \<longrightarrow> hCells h1 b \<noteq> None"
      using appendCondition_ok [OF ok cs hc, of spare ?new] by blast
    let ?hc = "hc\<lparr>gcStatus := (gcStatus hc)\<lparr>gtConditions := Some sl\<rparr>\<rparr>"
    have "heapSetStatusCondition spare a new now h = Some (assign a (ConfigCell ?hc) h1)"
      using l cs absent a1(1) by (simp add: heapSetStatusCondition_def)
    moreover have "inPlace a ?s h1 (assign a (ConfigCell ?hc) h1)"
      using a1(3,4) by (intro inPlace_assign) (auto simp: blindTo_def inPlace_def)
    then have "inPlace a ?s h (assign a (ConfigCell ?hc) h1)" using inPlace_trans [OF a1(3)] a1(5) by blast
    moreover have "sliceElems conditionsOf (assign a (ConfigCell ?hc) h1) (Some sl) = Some (cs @ [?new])"
    proof -
      have "load conditionsOf (assign a (ConfigCell ?hc) h1) = load conditionsOf h1"
        by (rule load_assign_other [OF a1(4)]) (simp add: conditionsOf_def)
      then show ?thesis using a1(2) by (simp add: sliceElems_def)
    qed
    ultimately show ?thesis using v by (auto simp: heap_simps)
  qed
qed

section \<open>The reconcile in place refines the one on values\<close>

definition statusValue :: "gStatus \<Rightarrow> Condition list \<Rightarrow> HeadroomConfigStatus" where
  "statusValue s cs = \<lparr>stObservedGeneration = gtObservedGeneration s, stManagedPods = gtManagedPods s,
     stManagedNodes = gtManagedNodes s, stConditions = cs\<rparr>"

lemma seesConfig_iff:
  "seesConfig h hc = Some (c, fp) \<longleftrightarrow>
     (\<exists>m f1 s f2 cs. seesMeta h (gcObjectMeta hc) = Some (m, f1) \<and> seesSpec h (gcSpec hc) = Some (s, f2)
       \<and> sliceElems conditionsOf h (gtConditions (gcStatus hc)) = Some cs
       \<and> c = \<lparr>coTypeMeta = gcTypeMeta hc, coObjectMeta = m,
              coConfig = \<lparr>hcGeneration = omGeneration m, hcSpec = s, hcStatus = statusValue (gcStatus hc) cs\<rparr>\<rparr>
       \<and> fp = f1 \<union> f2 \<union> (case gtConditions (gcStatus hc) of None \<Rightarrow> {} | Some sl \<Rightarrow> {slArray sl}))"
  by (auto simp: seesConfig_def seesStatus_elems statusValue_def bind_eq_Some_conv)

lemma seesMeta_generation: "seesMeta h m = Some (x, fp) \<Longrightarrow> omGeneration x = gomGeneration m"
  by (auto simp: seesMeta_def bind_eq_Some_conv)

lemma seesSpec_dryRun: "seesSpec h s = Some (x, fp) \<Longrightarrow> \<exists>f. seesFlat boolOf h (gpDryRun s) = Some (specDryRun x, f)"
  by (auto simp: seesSpec_def bind_eq_Some_conv)

lemma heapReadyMessage_ok:
  assumes "hCells h a = Some (ConfigCell hc)" "seesFlat boolOf h (gpDryRun (gcSpec hc)) = Some (specDryRun (hcSpec cfg), f)"
  shows "heapReadyMessage a pods nodes h = Some (readyMessage cfg pods nodes)"
proof -
  have l: "load configOf h a = Some hc" using assms(1) by (simp add: load_config)
  show ?thesis
  proof (cases "gpDryRun (gcSpec hc)")
    case None
    then have "specDryRun (hcSpec cfg) = None" using assms(2) by (simp add: seesFlat_def)
    then show ?thesis using None by (simp add: heapReadyMessage_def readyMessage_def l)
  next
    case (Some p)
    then obtain b where "load boolOf h p = Some b" "specDryRun (hcSpec cfg) = Some b"
      using assms(2) by (cases "load boolOf h p") (auto simp: seesFlat_def)
    then show ?thesis using Some by (simp add: heapReadyMessage_def readyMessage_def l)
  qed
qed

lemma sliceElems_cong: "load prj h' = load prj h \<Longrightarrow> sliceElems prj h' s = sliceElems prj h s"
  by (simp add: sliceElems_def split: option.split)

text \<open>The copy taken first reads as before, whatever is then done to the original in place.\<close>

lemma copy_survives:
  assumes "seesPtr configOf seesConfig h1 (Some b) = Some (Some c, fp)" "fp \<inter> dom (hCells h) = {}" "extends h h1"
    and "inPlace a s h1 h3" "hCells h a \<noteq> None" "\<And>sl. s = Some sl \<Longrightarrow> hCells h (slArray sl) \<noteq> None"
  shows "seesPtr configOf seesConfig h3 (Some b) = Some (Some c, fp)"
proof (rule config.ptr.frame [OF assms(1)])
  fix x assume x: "x \<in> fp"
  then have "x \<notin> dom (hCells h)" "hCells h1 x \<noteq> None" using assms(2) config.ptr.footprint [OF assms(1)] by blast+
  then show "hCells h3 x = hCells h1 x" using assms(4-6) unfolding inPlace_def by blast
qed

text \<open>The changes of \<open>hc\<close> between the copy and the comparison.\<close>

lemma heapStatus_ok:
  fixes pods nodes :: int
  assumes ok: "heapOk h" and hc: "hCells h a = Some (ConfigCell hc)" and c: "seesConfig h hc = Some (c, fp)"
  defines "ready \<equiv> readyCondition (hcGeneration (coConfig c)) (readyMessage (coConfig c) pods nodes)"
    and "h2 \<equiv> assign a (ConfigCell (setCounts pods nodes hc)) h"
  shows "heapReadyMessage a pods nodes h2 = Some (readyMessage (coConfig c) pods nodes)
    \<and> (\<exists>h3 hc3 fp3. heapSetStatusCondition spare a ready now h2 = Some h3 \<and> inPlace a (gtConditions (gcStatus hc)) h h3
        \<and> hCells h3 a = Some (ConfigCell hc3)
        \<and> seesConfig h3 hc3 = Some (c\<lparr>coConfig := desiredConfig now (pods, nodes) (coConfig c)\<rparr>, fp3))"
proof -
  let ?s = "gtConditions (gcStatus hc)"
  let ?hc = "setCounts pods nodes hc"
  obtain m f1 s f2 cs where p: "seesMeta h (gcObjectMeta hc) = Some (m, f1)" "seesSpec h (gcSpec hc) = Some (s, f2)"
      "sliceElems conditionsOf h ?s = Some cs"
      "c = \<lparr>coTypeMeta = gcTypeMeta hc, coObjectMeta = m,
              coConfig = \<lparr>hcGeneration = omGeneration m, hcSpec = s, hcStatus = statusValue (gcStatus hc) cs\<rparr>\<rparr>"
    using c by (auto simp: seesConfig_iff)
  have ip: "inPlace a ?s h h2" unfolding h2_def using ok hc by (intro inPlace_assign) (auto simp: blindTo_def)
  have a2: "hCells h2 a = Some (ConfigCell ?hc)" by (simp add: h2_def heap_simps)
  have lb: "load boolOf h2 = load boolOf h" "load conditionsOf h2 = load conditionsOf h"
    unfolding h2_def by (rule load_assign_other [OF hc], simp add: boolOf_def conditionsOf_def)+
  obtain f where "seesFlat boolOf h (gpDryRun (gcSpec hc)) = Some (specDryRun s, f)" using seesSpec_dryRun [OF p(2)] by blast
  then have msg: "heapReadyMessage a pods nodes h2 = Some (readyMessage (coConfig c) pods nodes)"
    using heapReadyMessage_ok [OF a2, of "coConfig c" f] p(4) seesFlat_cong [OF lb(1)] by (simp add: setCounts_def)
  have "sliceElems conditionsOf h2 (gtConditions (gcStatus ?hc)) = Some cs" using p(3) sliceElems_cong [OF lb(2)] by (simp add: setCounts_def)
  from heapSetStatusCondition_ok [OF _ a2 this, of spare ready now] ip obtain h3 s' where
    h3: "heapSetStatusCondition spare a ready now h2 = Some h3" "inPlace a ?s h2 h3"
      "hCells h3 a = Some (ConfigCell (?hc\<lparr>gcStatus := (gcStatus ?hc)\<lparr>gtConditions := s'\<rparr>\<rparr>))"
      "sliceElems conditionsOf h3 s' = Some (SetStatusCondition cs ready now)"
    by (auto simp: inPlace_def setCounts_def)
  have ip3: "inPlace a ?s h h3" using inPlace_trans [OF ip _ h3(2)] by (simp add: h2_def heap_simps)
  then have m3: "seesMeta h3 (gcObjectMeta hc) = Some (m, f1)" "seesSpec h3 (gcSpec hc) = Some (s, f2)"
    using p(1,2) by (simp_all add: inPlace_def)
  let ?hc3 = "?hc\<lparr>gcStatus := (gcStatus ?hc)\<lparr>gtConditions := s'\<rparr>\<rparr>"
  have "c\<lparr>coConfig := desiredConfig now (pods, nodes) (coConfig c)\<rparr> = \<lparr>coTypeMeta = gcTypeMeta ?hc3, coObjectMeta = m,
      coConfig = \<lparr>hcGeneration = omGeneration m, hcSpec = s,
        hcStatus = statusValue (gcStatus ?hc3) (SetStatusCondition cs ready now)\<rparr>\<rparr>"
    using seesMeta_generation [OF p(1)] by (simp add: p(4) desiredConfig_def statusValue_def ready_def readyCondition_def setCounts_def Let_def)
  then have "\<exists>fp3. seesConfig h3 ?hc3 = Some (c\<lparr>coConfig := desiredConfig now (pods, nodes) (coConfig c)\<rparr>, fp3)"
    unfolding seesConfig_iff using m3 h3(4) by (auto simp: setCounts_def)
  then show ?thesis using msg h3(1,3) ip3 by blast
qed

lemma statusDeepEqual_ok:
  assumes "sliceElems conditionsOf h (gtConditions s) = Some cs" "sliceElems conditionsOf h (gtConditions t) = Some ds"
  shows "statusDeepEqual h s t = Some (statusValue s cs = statusValue t ds)"
  using assms by (simp add: statusDeepEqual_def statusValue_def)

lemma seesConfig_status:
  "seesConfig h hc = Some (c, fp) \<Longrightarrow>
   \<exists>cs. sliceElems conditionsOf h (gtConditions (gcStatus hc)) = Some cs \<and> hcStatus (coConfig c) = statusValue (gcStatus hc) cs"
  by (auto simp: seesConfig_iff)

text \<open>C19. Run in place on a heap, the reconcile of the configuration has the outcome of the reconcile
  on values: the same result, and a write exactly when the status changed, of the object with
  the desired status and everything else as it was. This holds for any spare capacity of the
  array of conditions, before or after: the copy that the comparison reads is not changed by
  the updates through pointers.\<close>

theorem reconcile_in_place_refines:
  assumes "heapOk h" "seesPtr configOf seesConfig h (Some a) = Some (Some c, fp)"
  shows "\<exists>h'. heapReconcile spare now update managedState a h = Some
    ((case configReconcile \<lparr>ceGet = Inr (coConfig c), ceNow = now, ceUpdate = (\<lambda>hc. update (c\<lparr>coConfig := hc\<rparr>))\<rparr> managedState of
        (res, written) \<Rightarrow> (res, map_option (\<lambda>hc. c\<lparr>coConfig := hc\<rparr>) written)), h')"
proof -
  obtain pods nodes where counts: "(case managedState of Some c \<Rightarrow> c | None \<Rightarrow> (0, 0)) = (pods, nodes)" by fastforce
  let ?d = "desiredConfig now (pods, nodes) (coConfig c)"
  obtain hc fq where hc: "hCells h a = Some (ConfigCell hc)" "seesConfig h hc = Some (c, fq)"
    using assms(2) by (auto simp: seesPtr_def load_config bind_eq_Some_conv)
  obtain b h1 fb where copy: "HeadroomConfig_DeepCopy (Some a) h = Some (Some b, h1)" "heapOk h1" "extends h h1"
      "seesPtr configOf seesConfig h1 (Some b) = Some (Some c, fb)" "fb \<inter> dom (hCells h) = {}"
    using HeadroomConfig_DeepCopy_fresh [OF assms] by blast
  have hc1: "hCells h1 a = Some (ConfigCell hc)" "seesConfig h1 hc = Some (c, fq)"
    using hc copy(3) config.sees_extends [OF hc(2) copy(3)] by (auto simp: extends_def)
  have array: "hCells h (slArray sl) \<noteq> None" if "gtConditions (gcStatus hc) = Some sl" for sl
    using seesConfig_status [OF hc(2)] that by (auto simp: sliceElems_def load_conditions bind_eq_Some_conv)
  let ?h2 = "assign a (ConfigCell (setCounts pods nodes hc)) h1" and ?message = "readyMessage (coConfig c) pods nodes"
  obtain h3 hc3 fp3 where h3: "heapReadyMessage a pods nodes ?h2 = Some ?message"
      "heapSetStatusCondition spare a (readyCondition (hcGeneration (coConfig c)) ?message) now ?h2 = Some h3"
      "inPlace a (gtConditions (gcStatus hc)) h1 h3" "hCells h3 a = Some (ConfigCell hc3)"
      "seesConfig h3 hc3 = Some (c\<lparr>coConfig := ?d\<rparr>, fp3)"
    using heapStatus_ok [OF copy(2) hc1] by blast
  have gen: "hcGeneration (coConfig c) = gomGeneration (gcObjectMeta hc)"
    using hc(2) by (auto simp: seesConfig_iff dest: seesMeta_generation)
  have "seesPtr configOf seesConfig h3 (Some b) = Some (Some c, fb)"
    using copy_survives [OF copy(4,5,3) h3(3)] hc(1) array by simp
  then obtain before fo where before: "hCells h3 b = Some (ConfigCell before)" "seesConfig h3 before = Some (c, fo)"
    by (auto simp: seesPtr_def load_config bind_eq_Some_conv)
  have eq: "statusDeepEqual h3 (gcStatus before) (gcStatus hc3) = Some (hcStatus (coConfig c) = hcStatus ?d)"
    using seesConfig_status [OF before(2)] seesConfig_status [OF h3(5)] statusDeepEqual_ok by fastforce
  show ?thesis
    using counts copy(1) hc1(1) h3 gen before(1) eq
    by (auto simp: heapReconcile_def configReconcile_def load_config [THEN iffD2] Let_def split: option.splits)
qed


theorem reconcile_in_place_refines_witness:
  "\<exists>obj h'. heapReconcile (\<lambda>n. 0) 99 (\<lambda>obj. None) (Some (4, 2)) 0 sampleHeap = Some ((requeue statusResyncPeriod, Some obj), h')
    \<and> stManagedPods (hcStatus (coConfig obj)) = 4 \<and> stObservedGeneration (hcStatus (coConfig obj)) = 3
    \<and> map condMessage (stConditions (hcStatus (coConfig obj))) = [''Reconciling in dry-run mode; managing 4 pods across 2 nodes'']"
proof -
  obtain c where c: "seesConfig sampleHeap heldConfig = Some (c, {2, 3, 4, 5, 8})" "hcGeneration (coConfig c) = 3"
      "specDryRun (hcSpec (coConfig c)) = Some True" "stConditions (hcStatus (coConfig c)) = [heldCondition]"
    using sample_config by blast
  have g: "stObservedGeneration (hcStatus (coConfig c)) = 1"
    using seesConfig_status [OF c(1)] by (auto simp: statusValue_def heldConfig_def)
  let ?d = "desiredConfig 99 (4, 2) (coConfig c)"
  have d: "hcStatus (coConfig c) \<noteq> hcStatus ?d" "stManagedPods (hcStatus ?d) = 4" "stObservedGeneration (hcStatus ?d) = 3"
    using c(2) g by (auto simp: desiredConfig_def wrap32_def Let_def dest: arg_cong [where f = stObservedGeneration])
  have m: "map condMessage (stConditions (hcStatus ?d)) = [''Reconciling in dry-run mode; managing 4 pods across 2 nodes'']"
    using c(3,4) by (simp add: desiredConfig_def SetStatusCondition_def heldCondition_def conditionReady_def mergeCondition_def
        readyMessage_def showInt_def showNat_less digitChar_def Let_def)
  have s: "seesPtr configOf seesConfig sampleHeap (Some 0) = Some (Some c, {0, 2, 3, 4, 5, 8})"
    using c(1) by (simp add: seesPtr_def load_def sample_cells configOf_def)
  from reconcile_in_place_refines [OF sampleHeap_ok s, of "\<lambda>n. 0" 99 "\<lambda>obj. None" "Some (4, 2)"] show ?thesis
    using d m by (intro exI [of _ "c\<lparr>coConfig := ?d\<rparr>"]) (simp add: configReconcile_def)
qed

end
