(* ===== verification/Spec2Isabelle.thy ===== *)
theory Spec2Isabelle
  imports PolicyProps EligibilityProps WebhookDefaulter NodeProps NodeBudget NodeTiming NodeConverge ManagerMain ConfigHeap
begin

text \<open>
  Verification development of kube-headroom, a Kubernetes controller that raises and lowers
  the CPU limits of running pods in place so that they can use the slack of their node.

  \<^bold>\<open>The program.\<close> \<open>cmd/main.go\<close> resolves flags, server options and client rate limits, and
  starts a manager with four parts. The \<^emph>\<open>node reconciler\<close> (\<open>internal/controller/node_controller.go\<close>)
  is called with a node name: it reads the singleton \<open>HeadroomConfig\<close>, lists the pods of the
  node, judges each by the \<^emph>\<open>eligibility rules\<close> (\<open>internal/eligibility\<close>) and the VPA view, turns
  them into inputs (\<open>podinput.go\<close>), asks the \<^emph>\<open>policy\<close> (\<open>internal/policy\<close>) for one decision per
  managed pod, publishes metrics and a status annotation (\<open>metrics.go\<close>, \<open>observability.go\<close>),
  and issues resizes within the token bucket of the node, splitting a pod's target over its
  containers. Refused resizes put the pod into a backoff window. The \<^emph>\<open>VPA poller\<close>
  (\<open>internal/vpa/poller.go\<close>) lists the VerticalPodAutoscalers on a period. The \<^emph>\<open>webhook\<close>
  (\<open>internal/webhook/v1/pod_webhook.go\<close>) seeds a limit on new pods. The \<^emph>\<open>configuration
  reconciler\<close> (\<open>headroomconfig_controller.go\<close>) writes the counts of the node reconciler into
  the status of the configuration.

  \<^bold>\<open>Theories.\<close>

  \<^item> \<open>Prelude\<close>: \<open>int64\<close> as \<open>int\<close> with the wrap-around written out (\<open>add64\<close>, \<open>sub64\<close>, \<open>mul64\<close>),
    Go maps as association lists without duplicate keys (\<open>mget\<close>, \<open>mput\<close>, \<open>mdel\<close>; the locale
    \<open>finite_map\<close>), the collections \<open>int64_simps\<close>, \<open>float_simps\<close>, \<open>float_eval\<close>, \<open>gomap_simps\<close>.
  \<^item> \<open>Float64\<close>: binary64 with ties to even over the rationals, infinities and NaN; the locale
    \<open>rounding\<close> is all that the component proofs use of it.
  \<^item> \<open>Quantity\<close>, \<open>KubeTypes\<close>, \<open>PodResources\<close>: what the program calls of the vendored Kubernetes
    packages (resource quantities, objects, label selectors, \<open>PodRequests\<close>), with the types of
    \<open>api/v1alpha1\<close> and the constants of its \<open>labels.go\<close>. \<open>GoFormat\<close>, \<open>JSON\<close>: what it uses of \<open>fmt\<close>,
    \<open>time\<close> and \<open>encoding/json\<close>.
  \<^item> \<open>Policy\<close> and \<open>PolicyProps\<close>: \<open>policy.go\<close>, function by function.
  \<^item> \<open>Eligibility\<close>, \<open>LimitRanges\<close>, \<open>EligibilityProps\<close>: \<open>eligibility.go\<close> and \<open>vpa.go\<close>; \<open>PodInputs\<close>:
    \<open>podinput.go\<close>, with the contract of the split as the locale \<open>limit_split\<close>.
  \<^item> \<open>VPAPoller\<close>: \<open>poller.go\<close>. A listing follows continue tokens as long as the server sends
    them, so it is a \<open>partial_function (option)\<close>; \<open>Start\<close> is a fold over its wake-ups.
  \<^item> \<open>WebhookDefaulter\<close>: \<open>pod_webhook.go\<close>, with pointers into the container slices as indices.
  \<^item> \<open>RateLimiter\<close>: the token bucket of \<open>x/time/rate\<close>, its contract the locale \<open>token_bucket\<close>.
  \<^item> \<open>Observability\<close>: \<open>observability.go\<close> and \<open>metrics.go\<close>.
  \<^item> \<open>NodeReconciler\<close>: \<open>node_controller.go\<close>, one function per method, the state a record, the
    outside world an environment that may answer every call differently, what is done to it a
    trace of effects. \<open>NodeFrame\<close> says what each method leaves alone; \<open>NodeSafety\<close>, \<open>NodeGates\<close>,
    \<open>NodeProps\<close>, \<open>NodeBudget\<close>, \<open>NodeTiming\<close> and \<open>NodeAccounting\<close> hold the properties;
    \<open>LandedPods\<close> says what a pod reads as once a resize has landed on it, and \<open>NodeConverge\<close>
    composes two reconciles over it;
    \<open>SampleObjects\<close> and \<open>NodeSample\<close> the run the witnesses evaluate.
  \<^item> \<open>ConfigReconciler\<close>: \<open>headroomconfig_controller.go\<close> with \<open>SetStatusCondition\<close>; the counts it
    reports are the locale \<open>managed_count_source\<close>, which the node reconciler implements.
  \<^item> \<open>GoHeap\<close> and \<open>DeepCopies\<close>: a heap of typed cells with allocation and writes, and on it the
    generated \<open>zz_generated.deepcopy.go\<close> with the vendored copies it calls. A reader takes a
    struct with references to the value the other theories use for it, together with the
    addresses it depends on. The locale \<open>copier\<close> is the contract of a copy (the copy reads as
    the original and consists of new addresses, nothing old is written); \<open>flat_cell\<close>,
    \<open>flat_array\<close>, \<open>map_cell\<close>, \<open>cell_copier\<close> and \<open>slice_copier\<close> give it for pointers, slices and
    maps from it for their contents, and every copied type is an interpretation.
  \<^item> \<open>ConfigHeap\<close>: \<open>Reconcile\<close> of the configuration on that heap, where \<open>SetStatusCondition\<close>
    writes through a pointer into the array of conditions.
  \<^item> \<open>ManagerMain\<close>: \<open>cmd/main.go\<close>, block by block, each call that may fail with its own exit.

  \<^bold>\<open>What is shown.\<close> Every locale is interpreted on the definitions above (\<open>gm\<close>, \<open>b64\<close>, \<open>sl\<close>,
  \<open>lb\<close>, \<open>mc\<close>, and \<open>config\<close>, \<open>configList\<close> and those of their parts) and the properties rest on
  those interpretations.

  \<^item> Policy: the float64 code computes the formula of the design over the rationals; targets
    respect the request, every cap (a pod that has to stay above its request may exceed a cap
    that leaves it no room, by a quantum) and the quantum grid; the deadband is the integer
    comparison; a node at its targets is quiet; backoff of one pod changes no other pod's
    decision; the sum of the targets of a node is bounded, rounding included.
  \<^item> Eligibility and split: the booked CPU is the scheduler's formula, pod-level requests and
    resizes in flight included; whatever a reconcile manages passed every gate, and malformed
    settings close them (\<open>gates_fail_closed\<close>); the VPA rule is the autoscaler's documented one
    (\<open>vpaTargets\<close>, \<open>vpaWrites\<close>) and the Guaranteed rule is exact; a split hands out the target exactly and
    reads back as it; a target within the LimitRange cap is admitted by every LimitRange, as far
    as its rules concern the limits the split writes (\<open>lrHolds\<close>).
  \<^item> Poller, webhook: a refresh serves the listing, of any size, or degrades as documented per
    error, and the loop of the poller returns from every refresh, showing whole listings only; the
    webhook fails open, seeds exactly the containers it should, within bounds, idempotently.
  \<^item> Node reconciler: no resize in dry-run mode or for a pod that failed a gate or backs off; no
    panic; a patch budget per node over any run of reconciles; a fixed point, as a second
    reconcile after the resizes of the first have landed issues none; a revisit after the earliest
    open backoff window; jitter bounds; status writes settle; gauge, counts and series agree in every reachable state
    (\<open>reachable\<close>, by rule induction over \<open>nodeStep\<close>), and what the configuration's status
    reports is that gauge. \<open>moved_pod_loses_gauge\<close> records where a series is deleted that
    another node still tracks, with a run of three reconciles that gets there.
  \<^item> Deep copies: a copy of a configuration shares nothing with its original, so later writes
    through one are not seen through the other; copying is type safe and keeps what is well
    typed; the reconcile in place, whatever spare capacity the arrays have, has the result and
    the write of the reconcile on values, which a copy that shared the conditions would not.
  \<^item> Start: the first failing call ends the process with status 1, the manager runs only after all
    calls before it succeeded and with a positive client budget; client limits fall back to the
    defaults.

  \<^bold>\<open>Bounds.\<close> Exactness of the policy is for nodes of up to \<open>2 ^ 24\<close> milli-cores (16777 cores):
  products of two such numbers stay below \<open>2 ^ 53\<close>, where float64 is exact. The bound on the
  token bucket is for rates up to \<open>2 ^ 18\<close> per second and \<open>2 ^ 28\<close> calls, so that rounding adds up
  to less than one token. Jitter is for debounce periods up to \<open>2 ^ 53\<close> nanoseconds (104 days).
  The JSON reader has fuel of the length of the document, and every value consumes a byte.
  Listings are shown to end for a server that lists in chunks of a snapshot, as the continue token
  is documented (\<open>chunked\<close>): the code bounds the time of each page, not their number, and the
  measure is what is left of the snapshot.

  \<^bold>\<open>Not modelled.\<close> Log lines and the reconcile duration histogram (no decision reads them);
  interleavings inside one reconcile or handler: a step of the model is a whole one, as
  controller-runtime runs one reconcile of a controller at a time unless told otherwise, and what
  a handler changes meanwhile is a time-stamped entry or one duration; the locks themselves;
  the work queue, cache and leader election of controller-runtime, and the servers behind
  the calls of \<open>main\<close> (parameters or environment answers); parsing and printing of quantities
  (\<open>ParseQuantity\<close> is a parameter); what \<open>encoding/json\<close> does to strings that are not valid
  UTF-8 or hold U+2028 or U+2029 (every status the program builds is ASCII); flag parsing; the scheme behind the registration of
  the types, of which the group, version and kinds are in the model; \<open>tools/\<close> (blank imports) and
  \<open>test/\<close> (helpers of the end-to-end tests). How much an \<open>append\<close> grows an array is the runtime's
  choice and a parameter.
\<close>

end
